(* ===== verification/Prelude.thy ===== *)
theory Prelude
  imports Main "HOL-Library.Word"
begin

text \<open>
  What every theory of the development shares: the byte and result types, the collections
  of facts that the component proofs hand to the simplifier, and generic lemmas on lists,
  options and sums.

  A Go function that returns \<open>(T, error)\<close> is modelled by \<open>'e + 'a\<close>: \<open>Inl e\<close> is the
  return with a non-nil error, \<open>Inr x\<close> the return with a nil one.
\<close>

named_theorems go_string_simps \<open>evaluation rules of the string functions\<close>
named_theorems wf_intros \<open>introduction rules for the well-formedness invariants\<close>

type_synonym byte = "8 word"
type_synonym bytes = "8 word list"

definition bindR :: "'e + 'a \<Rightarrow> ('a \<Rightarrow> 'e + 'b) \<Rightarrow> 'e + 'b" where
  "bindR r f = (case r of Inl e \<Rightarrow> Inl e | Inr x \<Rightarrow> f x)"

lemma bindR_Inl [simp]: "bindR (Inl e) f = Inl e"
  by (simp add: bindR_def)

lemma bindR_Inr [simp]: "bindR (Inr x) f = f x"
  by (simp add: bindR_def)

lemma bindR_eq_Inr: "bindR r f = Inr y \<longleftrightarrow> (\<exists>x. r = Inr x \<and> f x = Inr y)"
  by (cases r) simp_all

text \<open>The bytes of a Go string: a \<open>char\<close> is one byte.\<close>

definition byte_of :: "char \<Rightarrow> byte" where
  "byte_of c = of_nat (of_char c)"

definition bytes_of :: "string \<Rightarrow> bytes" where
  "bytes_of s = map byte_of s"

lemma length_bytes_of [simp]: "length (bytes_of s) = length s"
  by (simp add: bytes_of_def)

subsection \<open>Lists\<close>

lemma take_length_append [simp]: "take (length xs) (xs @ ys) = xs"
  by simp

lemma drop_length_append [simp]: "drop (length xs) (xs @ ys) = ys"
  by simp

lemma take_eq_append: "take n xs = ys \<Longrightarrow> xs = ys @ drop n xs"
  using append_take_drop_id [of n xs] by simp

lemma distinct_set_card: "distinct xs \<Longrightarrow> set xs = A \<Longrightarrow> length xs = card A"
  by (auto simp: distinct_card)

lemma map_of_distinct_some:
  "distinct (map fst xs) \<Longrightarrow> map_of xs k = Some v \<longleftrightarrow> (k, v) \<in> set xs"
  by (simp add: map_of_eq_Some_iff)

lemma find_append: "find P (xs @ ys) = (case find P xs of None \<Rightarrow> find P ys | Some x \<Rightarrow> Some x)"
  by (induction xs) simp_all

subsection \<open>Runs\<close>

text \<open>
  A machine driven by a list of actions: what every step keeps, every run keeps. The operations
  of a client and the schedules of its goroutines are instances.
\<close>

locale steps_keep =
  fixes step :: "'a \<Rightarrow> 's \<Rightarrow> 's" and Inv :: "'s \<Rightarrow> bool"
  assumes keeps: "Inv s \<Longrightarrow> Inv (step a s)"
begin

lemma run: "Inv s \<Longrightarrow> Inv (foldl (\<lambda>s a. step a s) s acts)"
  by (induction acts arbitrary: s) (simp_all add: keeps)

end

text \<open>
  Numbered processes that spend: a process that begins gets an allowance of one, what it spends
  comes out of what it is still owed, and what goes beyond that is counted as extra. Over any run the
  spending is then within the number of beginnings and the extra.
\<close>

locale spending =
  fixes step :: "'a \<Rightarrow> 's \<Rightarrow> 's" and spent extra :: "'s \<Rightarrow> nat" and owed :: "'s \<Rightarrow> nat \<Rightarrow> nat"
    and begins :: "'a \<Rightarrow> bool" and who :: "'a \<Rightarrow> nat option"
  assumes others: "who a \<noteq> Some q \<Longrightarrow> owed (step a s) q = owed s q"
    and pays: "who a = Some p \<Longrightarrow>
      spent (step a s) + owed (step a s) p + extra s \<le> spent s + owed s p + extra (step a s) + of_bool (begins a)"
    and rests: "who a = None \<Longrightarrow> spent (step a s) + extra s \<le> spent s + extra (step a s)"
begin

lemma one:
  assumes "finite P" "\<forall>p. who a = Some p \<longrightarrow> p \<in> P"
  shows "spent (step a s) + (\<Sum>p\<in>P. owed (step a s) p) + extra s \<le>
    spent s + (\<Sum>p\<in>P. owed s p) + extra (step a s) + of_bool (begins a)"
proof (cases "who a")
  case None
  then have "(\<Sum>p\<in>P. owed (step a s) p) = (\<Sum>p\<in>P. owed s p)" by (intro sum.cong refl others) simp
  then show ?thesis using rests [OF None, of s] by simp
next
  case (Some p)
  then have "(\<Sum>q\<in>P - {p}. owed (step a s) q) = (\<Sum>q\<in>P - {p}. owed s q)" by (intro sum.cong refl others) auto
  moreover have "(\<Sum>q\<in>P. f q) = f p + (\<Sum>q\<in>P - {p}. f q)" for f :: "nat \<Rightarrow> nat"
    using assms Some by (intro sum.remove) auto
  ultimately show ?thesis using pays [OF Some, of s] by simp
qed

lemma run:
  assumes "finite P" "\<forall>a \<in> set acts. \<forall>p. who a = Some p \<longrightarrow> p \<in> P"
  shows "spent (foldl (\<lambda>s a. step a s) s acts) + (\<Sum>p\<in>P. owed (foldl (\<lambda>s a. step a s) s acts) p) + extra s \<le>
    spent s + (\<Sum>p\<in>P. owed s p) + extra (foldl (\<lambda>s a. step a s) s acts) + length (filter begins acts)"
  using assms(2)
proof (induction acts arbitrary: s)
  case (Cons a acts)
  have "\<forall>a \<in> set acts. \<forall>p. who a = Some p \<longrightarrow> p \<in> P" "\<forall>p. who a = Some p \<longrightarrow> p \<in> P"
    using Cons.prems by simp_all
  from Cons.IH [OF this(1), of "step a s"] one [OF assms(1) this(2), of s] show ?case
    by (cases "begins a") simp_all
qed simp

text \<open>From a state in which nothing has been spent and nobody is owed anything.\<close>

lemma within:
  assumes "spent s = 0" "\<And>p. owed s p = 0"
  shows "spent (foldl (\<lambda>s a. step a s) s acts) \<le> length (filter begins acts) + extra (foldl (\<lambda>s a. step a s) s acts)"
proof -
  let ?P = "{p. \<exists>a \<in> set acts. who a = Some p}"
  have "?P \<subseteq> (\<lambda>a. the (who a)) ` set acts" by force
  then have "finite ?P" by (rule finite_subset) simp
  moreover have "\<forall>a \<in> set acts. \<forall>p. who a = Some p \<longrightarrow> p \<in> ?P" by blast
  ultimately have "spent (foldl (\<lambda>s a. step a s) s acts) + (\<Sum>p\<in>?P. owed (foldl (\<lambda>s a. step a s) s acts) p) + extra s \<le>
      spent s + (\<Sum>p\<in>?P. owed s p) + extra (foldl (\<lambda>s a. step a s) s acts) + length (filter begins acts)"
    by (rule run)
  then show ?thesis using assms by simp
qed

end

end
