(* ===== verification/GoErrors.thy ===== *)
theory GoErrors
  imports Prelude
begin

text \<open>
  Go's \<open>error\<close> values as the source uses them: the sentinel values it compares with
  (\<open>io.EOF\<close>, \<open>context.Canceled\<close>, ...), \<open>fmt.Errorf\<close> with and without \<open>%w\<close>, the errors of
  \<open>net\<close>, and the two values of the \<open>go.slink.ws/rpc\<close> package the source names
  (\<open>rpc.ServerError\<close>, \<open>rpc.ErrShutdown\<close>; the text of the latter is not under \<open>src/\<close>, so its
  constructor carries it). \<open>errors.Is\<close> and \<open>errors.As\<close> walk the chain of wrapped errors.
\<close>

datatype fmt_arg = AStr string | AInt int

datatype err =
    EOF
  | ErrUnexpectedEOF
  | ErrClosedPipe
  | ErrNoProgress
  | ErrBufferFull
  | ErrNegativeCount
  | ErrShortWrite
  | ErrNetClosed
  | DeadlineExceeded
  | Canceled
  | ErrShutdown string
  | ServerError string
  | NetOpError string "err option"
  | AddrError string string
  | InvalidByteError char
  | New string
  | Errorf string "fmt_arg list" "err option"

subsection \<open>Formatting\<close>

definition digit_char :: "nat \<Rightarrow> char" where
  "digit_char d = char_of (48 + d)"

fun nat_dec :: "nat \<Rightarrow> string" where
  "nat_dec n = (if n < 10 then [digit_char n] else nat_dec (n div 10) @ [digit_char (n mod 10)])"

declare nat_dec.simps [simp del]

definition Itoa :: "int \<Rightarrow> string" where
  "Itoa i = (if i < 0 then CHR ''-'' # nat_dec (nat (- i)) else nat_dec (nat i))"

definition hex_char :: "nat \<Rightarrow> char" where
  "hex_char d = (if d < 10 then char_of (48 + d) else char_of (87 + d))"

text \<open>
  \<open>%q\<close> (\<open>strconv.Quote\<close>) on a byte: control characters are escaped, bytes above 127 are
  copied (what \<open>Quote\<close> does for printable UTF-8).
\<close>

definition quote_char :: "char \<Rightarrow> string" where
  "quote_char c = (let n = of_char c :: nat in
     if n = 34 then [char_of (92::nat), char_of (34::nat)]
     else if n = 92 then [char_of (92::nat), char_of (92::nat)]
     else if n = 7 then [char_of (92::nat), CHR ''a'']
     else if n = 8 then [char_of (92::nat), CHR ''b'']
     else if n = 9 then [char_of (92::nat), CHR ''t'']
     else if n = 10 then [char_of (92::nat), CHR ''n'']
     else if n = 11 then [char_of (92::nat), CHR ''v'']
     else if n = 12 then [char_of (92::nat), CHR ''f'']
     else if n = 13 then [char_of (92::nat), CHR ''r'']
     else if n < 32 \<or> n = 127 then
       [char_of (92::nat), CHR ''x'', hex_char (n div 16), hex_char (n mod 16)]
     else [c])"

definition Quote :: "string \<Rightarrow> string" where
  "Quote s = char_of (34::nat) # concat (map quote_char s) @ [char_of (34::nat)]"

definition fmt_plain :: "fmt_arg \<Rightarrow> string" where
  "fmt_plain a = (case a of AStr s \<Rightarrow> s | AInt i \<Rightarrow> Itoa i)"

definition fmt_quoted :: "fmt_arg \<Rightarrow> string" where
  "fmt_quoted a = (case a of AStr s \<Rightarrow> Quote s | AInt i \<Rightarrow> Itoa i)"

text \<open>
  \<open>fmt.Sprintf\<close> for the verbs of the source: \<open>%s\<close>, \<open>%d\<close>, \<open>%q\<close> take the next argument,
  \<open>%w\<close> the text of the wrapped error.
\<close>

fun Sprintf :: "string \<Rightarrow> fmt_arg list \<Rightarrow> string \<Rightarrow> string" where
  "Sprintf [] as w = []"
| "Sprintf [c] as w = [c]"
| "Sprintf (c # v # cs) as w =
     (if c \<noteq> CHR ''%'' then c # Sprintf (v # cs) as w
      else if v = CHR ''w'' then w @ Sprintf cs as w
      else (case as of
              [] \<Rightarrow> c # v # Sprintf cs as w
            | a # as' \<Rightarrow>
                (if v = CHR ''q'' then fmt_quoted a else fmt_plain a) @ Sprintf cs as' w))"

subsection \<open>The text of an error\<close>

definition hash_u :: "char \<Rightarrow> string" where
  "hash_u c = (let n = of_char c :: nat;
                   up = (\<lambda>d. if d < 10 then char_of (48 + d) else char_of (55 + d))
               in ''U+00'' @ [up (n div 16), up (n mod 16)] @
                  (if 32 \<le> n \<and> n < 127 then [CHR '' '', char_of (39::nat), c, char_of (39::nat)] else []))"

fun err_text :: "err \<Rightarrow> string" where
  "err_text EOF = ''EOF''"
| "err_text ErrUnexpectedEOF = ''unexpected EOF''"
| "err_text ErrClosedPipe = ''io: read/write on closed pipe''"
| "err_text ErrNoProgress = ''multiple Read calls return no data or error''"
| "err_text ErrBufferFull = ''bufio: buffer full''"
| "err_text ErrNegativeCount = ''bufio: negative count''"
| "err_text ErrShortWrite = ''short write''"
| "err_text ErrNetClosed = ''use of closed network connection''"
| "err_text DeadlineExceeded = ''context deadline exceeded''"
| "err_text Canceled = ''context canceled''"
| "err_text (ErrShutdown t) = t"
| "err_text (ServerError t) = t"
| "err_text (NetOpError t w) = t"
| "err_text (AddrError why addr) = ''address '' @ addr @ '': '' @ why"
| "err_text (InvalidByteError c) = ''encoding/hex: invalid byte: '' @ hash_u c"
| "err_text (New t) = t"
| "err_text (Errorf f as None) = Sprintf f as []"
| "err_text (Errorf f as (Some e)) = Sprintf f as (err_text e)"

subsection \<open>errors.Is and errors.As\<close>

fun err_chain :: "err \<Rightarrow> err list" where
  "err_chain (NetOpError t (Some e)) = NetOpError t (Some e) # err_chain e"
| "err_chain (Errorf f as (Some e)) = Errorf f as (Some e) # err_chain e"
| "err_chain e = [e]"

definition errors_Is :: "err \<Rightarrow> err \<Rightarrow> bool" where
  "errors_Is e t \<longleftrightarrow> t \<in> set (err_chain e)"

definition is_server_error :: "err \<Rightarrow> bool" where
  "is_server_error e = (case e of ServerError _ \<Rightarrow> True | _ \<Rightarrow> False)"

text \<open>
  The types with the \<open>Timeout\<close> and \<open>Temporary\<close> methods of \<open>net.Error\<close>: \<open>*net.OpError\<close>,
  \<open>*net.AddrError\<close>, the type of \<open>net.ErrClosed\<close>, and the error behind \<open>context.DeadlineExceeded\<close> (but not the one behind
  \<open>context.Canceled\<close>).
\<close>

definition is_net_error :: "err \<Rightarrow> bool" where
  "is_net_error e = (case e of NetOpError _ _ \<Rightarrow> True | AddrError _ _ \<Rightarrow> True
                     | ErrNetClosed \<Rightarrow> True | DeadlineExceeded \<Rightarrow> True | _ \<Rightarrow> False)"

definition is_shutdown :: "err \<Rightarrow> bool" where
  "is_shutdown e = (case e of ErrShutdown _ \<Rightarrow> True | _ \<Rightarrow> False)"

definition As_server :: "err \<Rightarrow> err option" where
  "As_server e = find is_server_error (err_chain e)"

definition As_net :: "err \<Rightarrow> err option" where
  "As_net e = find is_net_error (err_chain e)"

lemma err_in_chain: "e \<in> set (err_chain e)"
  by (cases e rule: err_chain.cases) simp_all

lemma errors_Is_refl [simp]: "errors_Is e e"
  by (simp add: errors_Is_def err_in_chain)

lemma errors_Is_Errorf [simp]:
  "errors_Is (Errorf f as (Some e)) t \<longleftrightarrow> t = Errorf f as (Some e) \<or> errors_Is e t"
  by (simp add: errors_Is_def)

lemma is_server_error_iff: "is_server_error e \<longleftrightarrow> (\<exists>t. e = ServerError t)"
  by (cases e) (simp_all add: is_server_error_def)

lemma As_server_None_iff: "As_server e = None \<longleftrightarrow> (\<forall>t. ServerError t \<notin> set (err_chain e))"
  by (auto simp: As_server_def find_None_iff is_server_error_iff)

lemma As_server_Some: "As_server e = Some x \<Longrightarrow> \<exists>t. x = ServerError t \<and> x \<in> set (err_chain e)"
  by (auto simp: As_server_def find_Some_iff is_server_error_iff dest: nth_mem)

lemma As_net_None_iff: "As_net e = None \<longleftrightarrow> (\<forall>x \<in> set (err_chain e). \<not> is_net_error x)"
  by (auto simp: As_net_def find_None_iff)

subsection \<open>Decimal numbers\<close>

lemma nat_dec_nonempty [simp]: "nat_dec n \<noteq> []"
  by (subst nat_dec.simps) simp

lemma nat_dec_digits: "c \<in> set (nat_dec n) \<Longrightarrow> 48 \<le> (of_char c :: nat) \<and> (of_char c :: nat) \<le> 57"
proof (induction n rule: nat_dec.induct)
  case (1 n)
  show ?case
  proof (cases "n < 10")
    case True
    with "1.prems" show ?thesis
      by (subst (asm) nat_dec.simps) (auto simp: digit_char_def)
  next
    case False
    with "1.prems" have "c \<in> set (nat_dec (n div 10)) \<or> c = digit_char (n mod 10)"
      by (subst (asm) nat_dec.simps) auto
    moreover have "n mod 10 < 10" by simp
    ultimately show ?thesis
      using "1.IH" [OF False] by (auto simp: digit_char_def)
  qed
qed

end
