(* ===== verification/GoIO.thy ===== *)
theory GoIO
  imports GoErrors
begin

text \<open>
  Go's \<open>io.Reader\<close> and the readers the codecs stack on a connection. A reader is a step on its
  state: asked for at most \<open>n\<close> bytes it gives some bytes, an optional error and the next state.
  The locale \<open>byte_source\<close> is the contract of \<open>io.Reader\<close> over the bytes a state stands for;
  connections, \<open>bufio.Reader\<close> (4096 bytes, at most 100 empty reads in a row), \<open>bytes.Reader\<close> and
  \<open>io.MultiReader\<close> provide it, whatever the sizes the bytes arrive in.
\<close>

type_synonym 's reader = "nat \<Rightarrow> 's \<Rightarrow> (bytes \<times> err option) \<times> 's"

locale byte_source =
  fixes rd :: "nat \<Rightarrow> 's \<Rightarrow> (bytes \<times> err option) \<times> 's"
    and content :: "'s \<Rightarrow> bytes"
    and final :: "'s \<Rightarrow> err"
    and ok :: "'s \<Rightarrow> bool"
  assumes rd_length: "rd n s = ((b, r), s') \<Longrightarrow> length b \<le> n"
    and rd_more: "ok s \<Longrightarrow> rd n s = ((b, None), s') \<Longrightarrow>
      content s = b @ content s' \<and> final s' = final s \<and> ok s'"
    and rd_last: "ok s \<Longrightarrow> rd n s = ((b, Some e), s') \<Longrightarrow> b = [] \<and> content s = [] \<and> final s = e"
    and rd_progress: "ok s \<Longrightarrow> 0 < n \<Longrightarrow> rd n s = ((b, None), s') \<Longrightarrow> b \<noteq> []"

subsection \<open>A connection\<close>

text \<open>
  What is still to arrive: pieces of bytes and failures; after the last one the peer has
  closed. A piece is split when the caller's buffer is too small.
\<close>

datatype arrival = Piece bytes | Fail err

type_synonym conn = "arrival list"

fun connRead :: "conn reader" where
  "connRead n [] = (([], Some EOF), [])"
| "connRead n (Fail e # rest) = (([], Some e), rest)"
| "connRead n (Piece b # rest) =
     (if length b \<le> n then ((b, None), rest)
      else ((take n b, None), Piece (drop n b) # rest))"

fun conn_content :: "conn \<Rightarrow> bytes" where
  "conn_content [] = []"
| "conn_content (Fail e # rest) = []"
| "conn_content (Piece b # rest) = b @ conn_content rest"

fun conn_final :: "conn \<Rightarrow> err" where
  "conn_final [] = EOF"
| "conn_final (Fail e # rest) = e"
| "conn_final (Piece b # rest) = conn_final rest"

definition conn_ok :: "conn \<Rightarrow> bool" where
  "conn_ok c \<longleftrightarrow> Piece [] \<notin> set c"

interpretation cn: byte_source connRead conn_content conn_final conn_ok
proof unfold_locales
  fix n :: nat and s s' :: conn and b :: bytes and e :: "err option"
  assume "connRead n s = ((b, e), s')"
  then show "length b \<le> n" by (cases s rule: conn_content.cases) (auto split: if_splits)
next
  fix n :: nat and s s' :: conn and b :: bytes
  assume "conn_ok s" "connRead n s = ((b, None), s')"
  then show "conn_content s = b @ conn_content s' \<and> conn_final s' = conn_final s \<and> conn_ok s'"
    by (cases s rule: conn_content.cases) (auto simp: conn_ok_def split: if_splits)
next
  fix n :: nat and s s' :: conn and b :: bytes and e :: err
  assume "conn_ok s" "connRead n s = ((b, Some e), s')"
  then show "b = [] \<and> conn_content s = [] \<and> conn_final s = e"
    by (cases s rule: conn_content.cases) (auto split: if_splits)
next
  fix n :: nat and s s' :: conn and b :: bytes
  assume "conn_ok s" "0 < n" "connRead n s = ((b, None), s')"
  then show "b \<noteq> []" by (cases s rule: conn_content.cases) (auto simp: conn_ok_def split: if_splits)
qed

subsection \<open>bytes.Reader\<close>

definition bytesRead :: "bytes reader" where
  "bytesRead n s = (if s = [] then (([], Some EOF), []) else ((take n s, None), drop n s))"

interpretation byr: byte_source bytesRead "\<lambda>s. s" "\<lambda>_. EOF" "\<lambda>_. True"
  by unfold_locales (auto simp: bytesRead_def split: if_splits)

subsection \<open>io.MultiReader of two readers\<close>

text \<open>
  The first reader is given up at its end of file; bytes that come with it are returned with a
  nil error. \<open>mGone\<close> counts the readers given up.
\<close>

record ('a, 'b) multi =
  mFst :: 'a
  mSnd :: 'b
  mGone :: nat

definition readSecond :: "'b reader \<Rightarrow> ('a, 'b) multi reader" where
  "readSecond rb n m =
     (case rb n (mSnd m) of ((d, e), b') \<Rightarrow>
        if e = Some EOF then ((d, Some EOF), m\<lparr>mSnd := b', mGone := 2\<rparr>)
        else ((d, e), m\<lparr>mSnd := b'\<rparr>))"

definition multiRead :: "'a reader \<Rightarrow> 'b reader \<Rightarrow> ('a, 'b) multi reader" where
  "multiRead ra rb n m =
     (if mGone m = 0 then
        (case ra n (mFst m) of ((d, e), a') \<Rightarrow>
           let m' = m\<lparr>mFst := a'\<rparr> in
           if e = Some EOF then
             (if d \<noteq> [] then ((d, None), m'\<lparr>mGone := 1\<rparr>) else readSecond rb n (m'\<lparr>mGone := 1\<rparr>))
           else ((d, e), m'))
      else if mGone m = 1 then readSecond rb n m
      else (([], Some EOF), m))"

definition multi_content :: "('a \<Rightarrow> bytes) \<Rightarrow> ('a \<Rightarrow> err) \<Rightarrow> ('b \<Rightarrow> bytes) \<Rightarrow> ('a, 'b) multi \<Rightarrow> bytes" where
  "multi_content ca fa cb m =
     (if mGone m = 0 then ca (mFst m) @ (if fa (mFst m) = EOF then cb (mSnd m) else [])
      else if mGone m = 1 then cb (mSnd m) else [])"

definition multi_final :: "('a \<Rightarrow> err) \<Rightarrow> ('b \<Rightarrow> err) \<Rightarrow> ('a, 'b) multi \<Rightarrow> err" where
  "multi_final fa fb m =
     (if mGone m = 0 \<and> fa (mFst m) \<noteq> EOF then fa (mFst m)
      else if mGone m \<le> 1 then fb (mSnd m) else EOF)"

definition multi_ok :: "('a \<Rightarrow> bool) \<Rightarrow> ('b \<Rightarrow> bool) \<Rightarrow> ('a, 'b) multi \<Rightarrow> bool" where
  "multi_ok oa ob m \<longleftrightarrow> mGone m \<le> 1 \<and> (mGone m = 0 \<longrightarrow> oa (mFst m)) \<and> ob (mSnd m)"

lemmas multi_defs = multi_content_def multi_final_def multi_ok_def

context byte_source begin

lemma readSecond_length: "readSecond rd n m = ((b, e), m') \<Longrightarrow> length b \<le> n"
  by (auto simp: readSecond_def dest: rd_length split: prod.splits if_splits)

lemma readSecond_more:
  "ok (mSnd m) \<Longrightarrow> readSecond rd n m = ((b, None), m') \<Longrightarrow>
     content (mSnd m) = b @ content (mSnd m') \<and> final (mSnd m') = final (mSnd m) \<and> ok (mSnd m') \<and>
     mGone m' = mGone m \<and> mFst m' = mFst m \<and> (0 < n \<longrightarrow> b \<noteq> [])"
  by (auto simp: readSecond_def dest: rd_more rd_progress split: prod.splits if_splits)

lemma readSecond_last:
  "ok (mSnd m) \<Longrightarrow> readSecond rd n m = ((b, Some e), m') \<Longrightarrow>
     b = [] \<and> content (mSnd m) = [] \<and> final (mSnd m) = e"
  by (auto simp: readSecond_def dest: rd_last split: prod.splits if_splits)

end

lemma multiRead_second: "mGone m = 1 \<Longrightarrow> multiRead ra rb n m = readSecond rb n m"
  by (simp add: multiRead_def)

lemma multiRead_first:
  assumes "byte_source ra ca fa oa" "mGone m = 0" "oa (mFst m)"
  shows "(\<exists>d e a'. ra n (mFst m) = ((d, e), a') \<and> e \<noteq> Some EOF \<and>
      multiRead ra rb n m = ((d, e), m\<lparr>mFst := a'\<rparr>)) \<or>
    (ca (mFst m) = [] \<and> fa (mFst m) = EOF \<and>
      (\<exists>a'. multiRead ra rb n m = readSecond rb n (m\<lparr>mFst := a', mGone := 1\<rparr>)))"
proof -
  obtain d e a' where r: "ra n (mFst m) = ((d, e), a')" by (metis prod.exhaust)
  show ?thesis
  proof (cases "e = Some EOF")
    case True
    then show ?thesis using byte_source.rd_last [OF assms(1,3)] r assms(2) by (auto simp: multiRead_def)
  next
    case False
    then show ?thesis using r assms(2) by (simp add: multiRead_def)
  qed
qed

lemma multiRead_more:
  assumes A: "byte_source ra ca fa oa" and B: "byte_source rb cb fb ob"
    and o: "multi_ok oa ob s" and r: "multiRead ra rb n s = ((b, None), s')"
  shows "multi_content ca fa cb s = b @ multi_content ca fa cb s' \<and> multi_final fa fb s' = multi_final fa fb s \<and>
    multi_ok oa ob s' \<and> (0 < n \<longrightarrow> b \<noteq> [])"
proof (cases "mGone s = 0")
  case True
  then have oa: "oa (mFst s)" "ob (mSnd s)" using o by (simp_all add: multi_ok_def)
  from multiRead_first [OF A True oa(1), of n rb] show ?thesis
  proof (elim disjE exE conjE)
    fix d e a' assume a: "ra n (mFst s) = ((d, e), a')" "multiRead ra rb n s = ((d, e), s\<lparr>mFst := a'\<rparr>)"
    then have "ra n (mFst s) = ((b, None), a')" "s' = s\<lparr>mFst := a'\<rparr>" using r by auto
    then show ?thesis using byte_source.rd_more [OF A oa(1)] byte_source.rd_progress [OF A oa(1)] oa(2) True
      by (auto simp: multi_defs)
  next
    fix a' assume a: "ca (mFst s) = []" "fa (mFst s) = EOF"
      "multiRead ra rb n s = readSecond rb n (s\<lparr>mFst := a', mGone := 1\<rparr>)"
    then show ?thesis
      using byte_source.readSecond_more [OF B, of "s\<lparr>mFst := a', mGone := 1\<rparr>" n b s'] r oa(2) True
      by (simp add: multi_defs)
  qed
next
  case False
  then have "mGone s = 1" using r by (auto simp: multiRead_def split: if_splits)
  then show ?thesis
    using byte_source.readSecond_more [OF B, of s n b s'] r o by (simp add: multiRead_second multi_defs)
qed

lemma multiRead_last:
  assumes A: "byte_source ra ca fa oa" and B: "byte_source rb cb fb ob"
    and o: "multi_ok oa ob s" and r: "multiRead ra rb n s = ((b, Some e), s')"
  shows "b = [] \<and> multi_content ca fa cb s = [] \<and> multi_final fa fb s = e"
proof (cases "mGone s = 0")
  case True
  then have oa: "oa (mFst s)" "ob (mSnd s)" using o by (simp_all add: multi_ok_def)
  from multiRead_first [OF A True oa(1), of n rb] show ?thesis
  proof (elim disjE exE conjE)
    fix d e' a' assume a: "ra n (mFst s) = ((d, e'), a')" "e' \<noteq> Some EOF"
      "multiRead ra rb n s = ((d, e'), s\<lparr>mFst := a'\<rparr>)"
    then have "ra n (mFst s) = ((b, Some e), a')" "e \<noteq> EOF" using r by auto
    then show ?thesis using byte_source.rd_last [OF A oa(1)] True by (auto simp: multi_defs)
  next
    fix a' assume a: "ca (mFst s) = []" "fa (mFst s) = EOF"
      "multiRead ra rb n s = readSecond rb n (s\<lparr>mFst := a', mGone := 1\<rparr>)"
    then show ?thesis
      using byte_source.readSecond_last [OF B, of "s\<lparr>mFst := a', mGone := 1\<rparr>" n b e s'] r oa(2) True
      by (simp add: multi_defs)
  qed
next
  case False
  then show ?thesis
    using byte_source.readSecond_last [OF B, of s n b e s'] r o
    by (cases "mGone s = 1") (auto simp: multiRead_def multi_defs)
qed

lemma multi_source:
  assumes A: "byte_source ra ca fa oa" and B: "byte_source rb cb fb ob"
  shows "byte_source (multiRead ra rb) (multi_content ca fa cb) (multi_final fa fb) (multi_ok oa ob)"
proof
  fix n b e s s' assume "multiRead ra rb n s = ((b, e), s')"
  then show "length b \<le> n"
    using byte_source.rd_length [OF A] byte_source.readSecond_length [OF B]
    by (auto simp: multiRead_def Let_def split: prod.splits if_splits)
qed (use multiRead_more [OF A B] multiRead_last [OF A B] in blast)+

text \<open>A \<open>bytes.Reader\<close> that has been given up is empty.\<close>

definition multi_bytes_ok :: "('b \<Rightarrow> bool) \<Rightarrow> (bytes, 'b) multi \<Rightarrow> bool" where
  "multi_bytes_ok ob m \<longleftrightarrow> multi_ok (\<lambda>_. True) ob m \<and> (mGone m \<noteq> 0 \<longrightarrow> mFst m = [])"

lemma multi_bytes_source:
  assumes "byte_source rb cb fb ob"
  shows "byte_source (multiRead bytesRead rb) (multi_content (\<lambda>s. s) (\<lambda>_. EOF) cb)
    (multi_final (\<lambda>_. EOF) fb) (multi_bytes_ok ob)"
proof -
  note ms = multi_source [OF byr.byte_source_axioms assms]
  have ok: "multi_bytes_ok ob m \<Longrightarrow> multi_ok (\<lambda>_. True) ob m" for m
    by (simp add: multi_bytes_ok_def)
  have keep: "mGone m' \<noteq> 0 \<longrightarrow> mFst m' = []"
    if m: "multi_bytes_ok ob m" and r: "multiRead bytesRead rb n m = ((b, None), m')" for m n b m'
  proof (cases "mGone m = 0")
    case True
    then show ?thesis using r
      by (auto simp: multiRead_def bytesRead_def readSecond_def Let_def split: if_splits prod.splits)
  next
    case False
    then show ?thesis using r m
      by (auto simp: multiRead_def readSecond_def multi_bytes_ok_def split: if_splits prod.splits)
  qed
  show ?thesis
  proof
    fix n b r s s' assume "multiRead bytesRead rb n s = ((b, r), s')"
    then show "length b \<le> n" by (rule byte_source.rd_length [OF ms])
  next
    fix n b s s' assume "multi_bytes_ok ob s" "multiRead bytesRead rb n s = ((b, None), s')"
    then show "multi_content (\<lambda>s. s) (\<lambda>_. EOF) cb s = b @ multi_content (\<lambda>s. s) (\<lambda>_. EOF) cb s' \<and>
        multi_final (\<lambda>_. EOF) fb s' = multi_final (\<lambda>_. EOF) fb s \<and> multi_bytes_ok ob s'"
      using byte_source.rd_more [OF ms ok] keep unfolding multi_bytes_ok_def by blast
  next
    fix n b e s s' assume "multi_bytes_ok ob s" "multiRead bytesRead rb n s = ((b, Some e), s')"
    then show "b = [] \<and> multi_content (\<lambda>s. s) (\<lambda>_. EOF) cb s = [] \<and> multi_final (\<lambda>_. EOF) fb s = e"
      using byte_source.rd_last [OF ms ok] by blast
  next
    fix n :: nat and b s s' assume "multi_bytes_ok ob s" "0 < n" "multiRead bytesRead rb n s = ((b, None), s')"
    then show "b \<noteq> []" using byte_source.rd_progress [OF ms ok] by blast
  qed
qed

end
