(* ===== verification/GoBufio.thy ===== *)
theory GoBufio
  imports GoIO
begin

text \<open>
  \<open>bufio.Reader\<close> over any reader: \<open>fill\<close>, \<open>Peek\<close>, \<open>Read\<close>, \<open>ReadByte\<close> and \<open>Discard\<close>, with
  the buffer of 4096 bytes, the error kept until it is reported, and the limit of 100 empty
  reads. What is read through it is what the reader below would have given: the contract of
  \<open>io.Reader\<close> is passed on.
\<close>

record 's bufio =
  bioBuf :: bytes
  bioErr :: "err option"
  bioSrc :: 's

definition bufSize :: nat where
  "bufSize = 4096"

definition maxEmptyReads :: nat where
  "maxEmptyReads = 100"

definition newBufio :: "'s \<Rightarrow> 's bufio" where
  "newBufio s = \<lparr>bioBuf = [], bioErr = None, bioSrc = s\<rparr>"

primrec fillLoop :: "'s reader \<Rightarrow> nat \<Rightarrow> 's bufio \<Rightarrow> 's bufio" where
  "fillLoop rd 0 b = b\<lparr>bioErr := Some ErrNoProgress\<rparr>"
| "fillLoop rd (Suc k) b =
     (case rd (bufSize - length (bioBuf b)) (bioSrc b) of ((d, e), s') \<Rightarrow>
        let b' = b\<lparr>bioBuf := bioBuf b @ d, bioSrc := s'\<rparr>
        in if e \<noteq> None then b'\<lparr>bioErr := e\<rparr> else if d \<noteq> [] then b' else fillLoop rd k b')"

definition fill :: "'s reader \<Rightarrow> 's bufio \<Rightarrow> 's bufio" where
  "fill rd b = fillLoop rd maxEmptyReads b"

lemma fillLoop_progress:
  "bioErr (fillLoop rd k b) \<noteq> None \<or> length (bioBuf b) < length (bioBuf (fillLoop rd k b))"
proof (induction k arbitrary: b)
  case (Suc k)
  obtain d e s' where r: "rd (bufSize - length (bioBuf b)) (bioSrc b) = ((d, e), s')"
    by (metis prod.exhaust)
  then show ?case using Suc.IH [of "b\<lparr>bioSrc := s'\<rparr>"] by (auto simp: Let_def)
qed simp

lemma fill_progress: "bioErr (fill rd b) \<noteq> None \<or> length (bioBuf b) < length (bioBuf (fill rd b))"
  unfolding fill_def by (rule fillLoop_progress)

function peekFill :: "'s reader \<Rightarrow> nat \<Rightarrow> 's bufio \<Rightarrow> 's bufio" where
  "peekFill rd n b =
     (if length (bioBuf b) < n \<and> length (bioBuf b) < bufSize \<and> bioErr b = None
      then peekFill rd n (fill rd b) else b)"
  by pat_completeness auto
termination
proof (relation "measure (\<lambda>(rd, n, b). if bioErr b = None then Suc n - length (bioBuf b) else 0)")
  fix rd :: "'s reader" and n and b :: "'s bufio"
  assume "length (bioBuf b) < n \<and> length (bioBuf b) < bufSize \<and> bioErr b = None"
  then show "((rd, n, fill rd b), rd, n, b) \<in>
      measure (\<lambda>(rd, n, b). if bioErr b = None then Suc n - length (bioBuf b) else 0)"
    using fill_progress [of rd b] by auto
qed simp

declare peekFill.simps [simp del]

definition Peek :: "'s reader \<Rightarrow> int \<Rightarrow> 's bufio \<Rightarrow> (bytes \<times> err option) \<times> 's bufio" where
  "Peek rd n b =
     (if n < 0 then (([], Some ErrNegativeCount), b)
      else
        let b' = peekFill rd (nat n) b
        in if nat n > bufSize then ((bioBuf b', Some ErrBufferFull), b')
           else if length (bioBuf b') < nat n
           then ((bioBuf b', Some (case bioErr b' of None \<Rightarrow> ErrBufferFull | Some e \<Rightarrow> e)), b'\<lparr>bioErr := None\<rparr>)
           else ((take (nat n) (bioBuf b'), None), b'))"

definition bufRead :: "'s reader \<Rightarrow> 's bufio reader" where
  "bufRead rd n b =
     (if n = 0 then
        (if bioBuf b \<noteq> [] then (([], None), b) else (([], bioErr b), b\<lparr>bioErr := None\<rparr>))
      else if bioBuf b \<noteq> [] then ((take n (bioBuf b), None), b\<lparr>bioBuf := drop n (bioBuf b)\<rparr>)
      else if bioErr b \<noteq> None then (([], bioErr b), b\<lparr>bioErr := None\<rparr>)
      else if bufSize \<le> n then
        (case rd n (bioSrc b) of ((d, e), s') \<Rightarrow> ((d, e), b\<lparr>bioSrc := s'\<rparr>))
      else
        (case rd bufSize (bioSrc b) of ((d, e), s') \<Rightarrow>
           if d = [] then (([], e), b\<lparr>bioSrc := s'\<rparr>)
           else ((take n d, None), b\<lparr>bioBuf := drop n d, bioErr := e, bioSrc := s'\<rparr>)))"

function ReadByte :: "'s reader \<Rightarrow> 's bufio \<Rightarrow> (err + byte) \<times> 's bufio" where
  "ReadByte rd b =
     (case bioBuf b of
        x # xs \<Rightarrow> (Inr x, b\<lparr>bioBuf := xs\<rparr>)
      | [] \<Rightarrow>
          (case bioErr b of
             Some e \<Rightarrow> (Inl e, b\<lparr>bioErr := None\<rparr>)
           | None \<Rightarrow> ReadByte rd (fill rd b)))"
  by pat_completeness auto
termination
proof (relation "measure (\<lambda>(rd, b). if bioErr b = None \<and> bioBuf b = [] then 1 else 0)")
  fix rd :: "'s reader" and b :: "'s bufio"
  assume "bioBuf b = []" "bioErr b = None"
  then show "((rd, fill rd b), rd, b) \<in> measure (\<lambda>(rd, b). if bioErr b = None \<and> bioBuf b = [] then 1 else 0)"
    using fill_progress [of rd b] by auto
qed simp

declare ReadByte.simps [simp del]

text \<open>The number of bytes skipped, and an error when there are fewer than \<open>n\<close>.\<close>

function discardLoop :: "'s reader \<Rightarrow> nat \<Rightarrow> nat \<Rightarrow> 's bufio \<Rightarrow> (nat \<times> err option) \<times> 's bufio" where
  "discardLoop rd n remain b =
     (let b1 = (if bioBuf b = [] then fill rd b else b);
          skip = min (length (bioBuf b1)) remain;
          b2 = b1\<lparr>bioBuf := drop skip (bioBuf b1)\<rparr>;
          remain' = remain - skip
      in if remain' = 0 then ((n, None), b2)
         else if bioErr b2 \<noteq> None then ((n - remain', bioErr b2), b2\<lparr>bioErr := None\<rparr>)
         else discardLoop rd n remain' b2)"
  by pat_completeness auto
termination
proof (relation "measure (\<lambda>(rd, n, remain, b). remain)", goal_cases)
  case (2 rd n remain b b1 skip b2 remain')
  have "bioBuf b1 \<noteq> []" using 2 fill_progress [of rd b] by (auto simp: Let_def split: if_splits)
  then have "0 < length (bioBuf b1)" by simp
  moreover have "remain \<noteq> 0" using 2 by auto
  ultimately have "0 < skip" using 2(2) by simp
  with \<open>remain \<noteq> 0\<close> show ?case using 2(2,4) by simp
qed simp

declare discardLoop.simps [simp del]

definition Discard :: "'s reader \<Rightarrow> int \<Rightarrow> 's bufio \<Rightarrow> (nat \<times> err option) \<times> 's bufio" where
  "Discard rd n b =
     (if n < 0 then ((0, Some ErrNegativeCount), b)
      else if n = 0 then ((0, None), b)
      else discardLoop rd (nat n) (nat n) b)"

definition Buffered :: "'s bufio \<Rightarrow> nat" where
  "Buffered b = length (bioBuf b)"

subsection \<open>The bytes a buffered reader stands for\<close>

definition bio_content :: "('s \<Rightarrow> bytes) \<Rightarrow> 's bufio \<Rightarrow> bytes" where
  "bio_content content b = bioBuf b @ (if bioErr b = None then content (bioSrc b) else [])"

definition bio_final :: "('s \<Rightarrow> err) \<Rightarrow> 's bufio \<Rightarrow> err" where
  "bio_final final b = (case bioErr b of None \<Rightarrow> final (bioSrc b) | Some e \<Rightarrow> e)"

definition bio_ok :: "('s \<Rightarrow> bool) \<Rightarrow> 's bufio \<Rightarrow> bool" where
  "bio_ok ok b \<longleftrightarrow> bioErr b = None \<longrightarrow> ok (bioSrc b)"

lemmas bio_defs = bio_content_def bio_final_def bio_ok_def

lemma newBufio_simps [simp]:
  "bio_content content (newBufio s) = content s" "bio_final final (newBufio s) = final s"
  "bio_ok ok (newBufio s) = ok s"
  by (simp_all add: newBufio_def bio_defs)

context byte_source begin

lemma bufRead_source: "byte_source (bufRead rd) (bio_content content) (bio_final final) (bio_ok ok)"
proof
  fix n b r s s' assume "bufRead rd n s = ((b, r), s')"
  then show "length b \<le> n"
    by (auto simp: bufRead_def dest: rd_length split: if_splits prod.splits)
next
  fix n b s s' assume "bio_ok ok s" "bufRead rd n s = ((b, None), s')"
  then show "bio_content content s = b @ bio_content content s' \<and>
      bio_final final s' = bio_final final s \<and> bio_ok ok s'"
    by (auto simp: bufRead_def bio_defs dest: rd_more rd_last split: if_splits prod.splits option.splits)
next
  fix n b e s s' assume "bio_ok ok s" "bufRead rd n s = ((b, Some e), s')"
  then show "b = [] \<and> bio_content content s = [] \<and> bio_final final s = e"
    by (auto simp: bufRead_def bio_defs dest: rd_last split: if_splits prod.splits option.splits)
next
  fix n :: nat and b s s' assume "bio_ok ok s" "0 < n" "bufRead rd n s = ((b, None), s')"
  then show "b \<noteq> []"
    using rd_progress [of "bioSrc s" n] rd_progress [of "bioSrc s" bufSize]
    by (auto simp: bufRead_def bio_defs bufSize_def split: if_splits prod.splits)
qed

text \<open>A reader that has met no error so far.\<close>

definition bio_clean :: "'s bufio \<Rightarrow> bool" where
  "bio_clean b \<longleftrightarrow> bioErr b = None \<and> ok (bioSrc b)"

lemma bio_clean_ok: "bio_clean b \<Longrightarrow> bio_ok ok b"
  by (simp add: bio_clean_def bio_ok_def)

lemma bufRead_clean_source:
  "byte_source (bufRead rd) (bio_content content) (bio_final final) bio_clean"
proof
  fix n b r s s' assume "bufRead rd n s = ((b, r), s')"
  then show "length b \<le> n" by (rule byte_source.rd_length [OF bufRead_source])
next
  fix n b s s' assume c: "bio_clean s" and r: "bufRead rd n s = ((b, None), s')"
  have "bioErr s' = None"
    using c r by (auto simp: bufRead_def bio_clean_def dest: rd_last split: if_splits prod.splits)
      (metis not_None_eq rd_last)
  then show "bio_content content s = b @ bio_content content s' \<and>
      bio_final final s' = bio_final final s \<and> bio_clean s'"
    using byte_source.rd_more [OF bufRead_source bio_clean_ok [OF c] r] by (simp add: bio_clean_def bio_ok_def)
next
  fix n b e s s' assume "bio_clean s" "bufRead rd n s = ((b, Some e), s')"
  then show "b = [] \<and> bio_content content s = [] \<and> bio_final final s = e"
    using byte_source.rd_last [OF bufRead_source bio_clean_ok] by blast
next
  fix n :: nat and b s s' assume "bio_clean s" "0 < n" "bufRead rd n s = ((b, None), s')"
  then show "b \<noteq> []"
    using byte_source.rd_progress [OF bufRead_source bio_clean_ok] by blast
qed

text \<open>A reader whose buffer is within its size.\<close>

definition bio_ready :: "'s bufio \<Rightarrow> bool" where
  "bio_ready b \<longleftrightarrow> bio_ok ok b \<and> length (bioBuf b) \<le> bufSize"

lemma bio_ready_ok: "bio_ready b \<Longrightarrow> bio_ok ok b"
  by (simp add: bio_ready_def)

lemma bufRead_ready_source:
  "byte_source (bufRead rd) (bio_content content) (bio_final final) bio_ready"
proof
  fix n b r s s' assume "bufRead rd n s = ((b, r), s')"
  then show "length b \<le> n" by (rule byte_source.rd_length [OF bufRead_source])
next
  fix n b s s' assume c: "bio_ready s" and r: "bufRead rd n s = ((b, None), s')"
  have "length (bioBuf s') \<le> bufSize"
    using c r by (auto simp: bufRead_def bio_ready_def dest: rd_length split: if_splits prod.splits)
  then show "bio_content content s = b @ bio_content content s' \<and>
      bio_final final s' = bio_final final s \<and> bio_ready s'"
    using byte_source.rd_more [OF bufRead_source bio_ready_ok [OF c] r] by (simp add: bio_ready_def)
next
  fix n b e s s' assume "bio_ready s" "bufRead rd n s = ((b, Some e), s')"
  then show "b = [] \<and> bio_content content s = [] \<and> bio_final final s = e"
    using byte_source.rd_last [OF bufRead_source bio_ready_ok] by blast
next
  fix n :: nat and b s s' assume "bio_ready s" "0 < n" "bufRead rd n s = ((b, None), s')"
  then show "b \<noteq> []"
    using byte_source.rd_progress [OF bufRead_source bio_ready_ok] by blast
qed

text \<open>One \<open>fill\<close> is one read that brings bytes or the final error.\<close>

lemma fill_step:
  assumes "bioErr b = None" "ok (bioSrc b)" "length (bioBuf b) < bufSize"
  shows "bio_content content (fill rd b) = bio_content content b \<and>
    bio_final final (fill rd b) = bio_final final b \<and> bio_ok ok (fill rd b) \<and>
    length (bioBuf (fill rd b)) \<le> bufSize"
proof -
  obtain k where k: "maxEmptyReads = Suc k" by (metis maxEmptyReads_def numeral_eq_Suc)
  obtain d e s' where r: "rd (bufSize - length (bioBuf b)) (bioSrc b) = ((d, e), s')"
    by (metis prod.exhaust)
  have l: "length d \<le> bufSize - length (bioBuf b)" by (rule rd_length [OF r])
  show ?thesis
  proof (cases e)
    case None
    have "d \<noteq> []" using rd_progress [OF assms(2), of "bufSize - length (bioBuf b)"] r assms(3) None by auto
    then have "fill rd b = b\<lparr>bioBuf := bioBuf b @ d, bioSrc := s'\<rparr>"
      using r None by (simp add: fill_def k)
    then show ?thesis using rd_more [OF assms(2)] r None assms(1,3) l by (auto simp: bio_defs)
  next
    case (Some x)
    then have "fill rd b = b\<lparr>bioBuf := bioBuf b @ d, bioSrc := s', bioErr := Some x\<rparr>"
      using r by (simp add: fill_def k)
    then show ?thesis using rd_last [OF assms(2)] r Some assms(1,3) l by (auto simp: bio_defs)
  qed
qed

lemma peekFill_props:
  assumes "bio_ok ok b" "length (bioBuf b) \<le> bufSize"
  shows "bio_content content (peekFill rd n b) = bio_content content b \<and>
    bio_final final (peekFill rd n b) = bio_final final b \<and> bio_ok ok (peekFill rd n b) \<and>
    length (bioBuf (peekFill rd n b)) \<le> bufSize \<and>
    (n \<le> length (bioBuf (peekFill rd n b)) \<or> bufSize \<le> length (bioBuf (peekFill rd n b)) \<or>
     bioErr (peekFill rd n b) \<noteq> None)"
  using assms
proof (induction "if bioErr b = None then Suc n - length (bioBuf b) else 0" arbitrary: b rule: less_induct)
  case less
  show ?case
  proof (cases "length (bioBuf b) < n \<and> length (bioBuf b) < bufSize \<and> bioErr b = None")
    case False
    then have "peekFill rd n b = b" by (subst peekFill.simps) auto
    then show ?thesis using False less.prems by auto
  next
    case True
    then have p: "peekFill rd n b = peekFill rd n (fill rd b)" by (subst peekFill.simps) auto
    have "ok (bioSrc b)" using True less.prems(1) by (simp add: bio_ok_def)
    then have f: "bio_content content (fill rd b) = bio_content content b"
        "bio_final final (fill rd b) = bio_final final b" "bio_ok ok (fill rd b)"
        "length (bioBuf (fill rd b)) \<le> bufSize"
      using fill_step [of b] True by auto
    have "(if bioErr (fill rd b) = None then Suc n - length (bioBuf (fill rd b)) else 0)
        < (if bioErr b = None then Suc n - length (bioBuf b) else 0)"
      using fill_progress [of rd b] True by auto
    from less.hyps [OF this f(3,4)] show ?thesis by (simp add: p f(1,2))
  qed
qed

text \<open>\<open>Peek\<close> of at most a buffer: the first bytes, and nothing lost.\<close>

lemma Peek_source:
  assumes "bio_ok ok b" "length (bioBuf b) \<le> bufSize" "0 \<le> k" "k \<le> int bufSize"
    and "Peek rd k b = ((d, e), b')"
  shows "d = take (nat k) (bio_content content b) \<and>
    (if nat k \<le> length (bio_content content b)
     then e = None \<and> bio_content content b' = bio_content content b \<and>
       bio_final final b' = bio_final final b \<and> bio_ok ok b' \<and> length (bioBuf b') \<le> bufSize
     else e = Some (bio_final final b) \<and> bioBuf b' = d \<and> bioErr b' = None)"
proof -
  define p where "p = peekFill rd (nat k) b"
  have p: "bio_content content p = bio_content content b" "bio_final final p = bio_final final b"
      "bio_ok ok p" "length (bioBuf p) \<le> bufSize"
      "nat k \<le> length (bioBuf p) \<or> bufSize \<le> length (bioBuf p) \<or> bioErr p \<noteq> None"
    using peekFill_props [OF assms(1,2), of "nat k"] by (simp_all add: p_def)
  have k: "nat k \<le> bufSize" using assms(4) by simp
  show ?thesis
  proof (cases "nat k \<le> length (bioBuf p)")
    case True
    then have "d = take (nat k) (bioBuf p)" "e = None" "b' = p"
      using assms(3,5) k by (auto simp: Peek_def Let_def p_def [symmetric])
    moreover have "nat k \<le> length (bio_content content b)"
      using True unfolding p(1) [symmetric] by (simp add: bio_content_def)
    moreover have "take (nat k) (bio_content content b) = take (nat k) (bioBuf p)"
      using True unfolding p(1) [symmetric] by (simp add: bio_content_def)
    ultimately show ?thesis using p by simp
  next
    case False
    then obtain x where x: "bioErr p = Some x" using p(5) k by auto
    then have "d = bioBuf p" "e = Some x" "b' = p\<lparr>bioErr := None\<rparr>"
      using assms(3,5) k False by (auto simp: Peek_def Let_def p_def [symmetric])
    moreover have "bio_content content b = bioBuf p" "bio_final final b = x"
      using x unfolding p(1,2) [symmetric] by (simp_all add: bio_content_def bio_final_def)
    ultimately show ?thesis using False by auto
  qed
qed

lemma ReadByte_Cons:
  assumes "bio_ok ok b" "bio_content content b = x # xs"
  shows "\<exists>b'. ReadByte rd b = (Inr x, b') \<and> bio_content content b' = xs \<and>
    bio_final final b' = bio_final final b \<and> bio_ok ok b'"
proof (cases "bioBuf b")
  case (Cons y ys)
  then have "ReadByte rd b = (Inr y, b\<lparr>bioBuf := ys\<rparr>)" by (subst ReadByte.simps) simp
  then show ?thesis using Cons assms by (auto simp: bio_defs)
next
  case Nil
  have e: "bioErr b = None" using assms(2) Nil by (auto simp: bio_content_def split: if_splits)
  then have o: "ok (bioSrc b)" using assms(1) by (simp add: bio_ok_def)
  have f: "bio_content content (fill rd b) = x # xs" "bio_final final (fill rd b) = bio_final final b"
      "bio_ok ok (fill rd b)"
    using fill_step [OF e o] assms(2) Nil by (simp_all add: bufSize_def)
  have r: "ReadByte rd b = ReadByte rd (fill rd b)" using Nil e by (subst ReadByte.simps) simp
  obtain ys where y: "bioBuf (fill rd b) = x # ys"
    using fill_progress [of rd b] f(1) Nil
    by (cases "bioBuf (fill rd b)") (auto simp: bio_content_def)
  then have "ReadByte rd (fill rd b) = (Inr x, (fill rd b)\<lparr>bioBuf := ys\<rparr>)"
    by (subst ReadByte.simps) simp
  then show ?thesis using f y r by (auto simp: bio_defs)
qed

lemma discardLoop_within:
  assumes "bio_ready b" "0 < m" "m \<le> length (bio_content content b)"
  shows "\<exists>b'. discardLoop rd n m b = ((n, None), b') \<and>
    bio_content content b' = drop m (bio_content content b) \<and>
    bio_final final b' = bio_final final b \<and> bio_ready b'"
  using assms
proof (induction m arbitrary: b rule: less_induct)
  case (less m)
  define b1 where "b1 = (if bioBuf b = [] then fill rd b else b)"
  have "bioErr b = None \<and> ok (bioSrc b)" if "bioBuf b = []"
    using less.prems that by (auto simp: bio_ready_def bio_defs split: if_splits)
  then have b1: "bio_content content b1 = bio_content content b" "bio_final final b1 = bio_final final b"
      "bio_ready b1" "bioBuf b1 \<noteq> []"
    using fill_step [of b] fill_progress [of rd b] less.prems
    by (auto simp: b1_def bufSize_def bio_content_def bio_ready_def split: if_splits)
  define skip where "skip = min (length (bioBuf b1)) m"
  define b2 where "b2 = b1\<lparr>bioBuf := drop skip (bioBuf b1)\<rparr>"
  have s: "0 < skip" "skip \<le> length (bioBuf b1)" "skip \<le> m" using b1(4) less.prems(2) by (auto simp: skip_def)
  have "bio_content content b2 = drop skip (bio_content content b1)"
      "bio_final final b2 = bio_final final b1" "bio_ready b2"
    using b1(3) s by (auto simp: b2_def bio_ready_def bio_defs split: option.split)
  then have b2: "bio_content content b2 = drop skip (bio_content content b)"
      "bio_final final b2 = bio_final final b" "bio_ready b2"
    unfolding b1(1,2) by simp_all
  have d: "discardLoop rd n m b =
      (if m - skip = 0 then ((n, None), b2)
       else if bioErr b2 \<noteq> None then ((n - (m - skip), bioErr b2), b2\<lparr>bioErr := None\<rparr>)
       else discardLoop rd n (m - skip) b2)"
    by (subst discardLoop.simps) (simp add: Let_def b1_def skip_def b2_def)
  show ?case
  proof (cases "m - skip = 0")
    case True
    then have "skip = m" using s by simp
    then show ?thesis using d b2 by auto
  next
    case False
    have l: "m - skip \<le> length (bio_content content b2)" using less.prems(3) b2(1) by simp
    have "skip = length (bioBuf b1)" using False by (auto simp: skip_def min_def split: if_splits)
    then have "bioBuf b2 = []" by (simp add: b2_def)
    then have "bioErr b2 = None" using l False by (auto simp: bio_content_def split: if_splits)
    then show ?thesis
      using less.IH [of "m - skip" b2] d b2 l False s by auto
  qed
qed

end

end
