(* ===== verification/JsonStream.thy ===== *)
theory JsonStream
  imports GoBufio
begin

text \<open>
  \<open>budgetReader\<close> of \<open>v3/codec/json_server_codec.go\<close> and the reading loop of \<open>json.Decoder\<close> on
  top of it. The JSON grammar is an argument: \<open>jScan\<close> says of a byte string whether a value
  ends in it, \<open>jRoom\<close> how much the decoder asks for at a time,
  \<open>jCheck\<close> whether \<open>json.Unmarshal\<close> into a \<open>json.RawMessage\<close> fails. A decoded value is its text; what
  \<open>json.Unmarshal\<close> makes of it is an argument of the codecs.
\<close>

definition ErrBodyTooLarge :: err where
  "ErrBodyTooLarge = New ''rpc: json message exceeds size limit''"

definition DefaultMaxJSONBody :: int where
  "DefaultMaxJSONBody = 4 * 2 ^ 20"

subsection \<open>budgetReader\<close>

record 's budgetReader =
  bgLeft :: int
  bgSrc :: 's

definition resetBudget :: "int \<Rightarrow> 's budgetReader \<Rightarrow> 's budgetReader" where
  "resetBudget n b = b\<lparr>bgLeft := n\<rparr>"

definition budgetRead :: "'s reader \<Rightarrow> 's budgetReader reader" where
  "budgetRead rd n b =
     (if bgLeft b \<le> 0 then (([], Some ErrBodyTooLarge), b)
      else case rd (if int n > bgLeft b then nat (bgLeft b) else n) (bgSrc b) of
             ((d, e), s') \<Rightarrow> ((d, e), b\<lparr>bgLeft := bgLeft b - int (length d), bgSrc := s'\<rparr>))"

definition budget_content :: "('s \<Rightarrow> bytes) \<Rightarrow> 's budgetReader \<Rightarrow> bytes" where
  "budget_content content b = take (nat (bgLeft b)) (content (bgSrc b))"

definition budget_final :: "('s \<Rightarrow> bytes) \<Rightarrow> ('s \<Rightarrow> err) \<Rightarrow> 's budgetReader \<Rightarrow> err" where
  "budget_final content final b =
     (if bgLeft b \<le> int (length (content (bgSrc b))) then ErrBodyTooLarge else final (bgSrc b))"

definition budget_ok :: "('s \<Rightarrow> bool) \<Rightarrow> 's budgetReader \<Rightarrow> bool" where
  "budget_ok ok b = ok (bgSrc b)"

lemmas budget_defs = budget_content_def budget_final_def budget_ok_def

context byte_source begin

lemma budget_source:
  "byte_source (budgetRead rd) (budget_content content) (budget_final content final) (budget_ok ok)"
proof
  fix n b r s s' assume "budgetRead rd n s = ((b, r), s')"
  then show "length b \<le> n"
    by (auto simp: budgetRead_def dest!: rd_length split: if_splits prod.splits)
next
  fix n b s s' assume o: "budget_ok ok s" and r: "budgetRead rd n s = ((b, None), s')"
  define m where "m = (if int n > bgLeft s then nat (bgLeft s) else n)"
  from r obtain x where x: "rd m (bgSrc s) = ((b, None), x)" "0 < bgLeft s"
      "s' = s\<lparr>bgLeft := bgLeft s - int (length b), bgSrc := x\<rparr>"
    by (auto simp: budgetRead_def m_def split: if_splits prod.splits)
  have "content (bgSrc s) = b @ content x" "final x = final (bgSrc s)" "ok x"
    using rd_more [OF _ x(1)] o by (auto simp: budget_ok_def)
  moreover have "int (length b) \<le> bgLeft s"
    using rd_length [OF x(1)] x(2) by (auto simp: m_def split: if_splits)
  moreover have "nat (bgLeft s) - length b = nat (bgLeft s - int (length b))" by simp
  ultimately show "budget_content content s = b @ budget_content content s' \<and>
      budget_final content final s' = budget_final content final s \<and> budget_ok ok s'"
    by (auto simp: budget_defs x(3))
next
  fix n b e s s' assume "budget_ok ok s" "budgetRead rd n s = ((b, Some e), s')"
  then show "b = [] \<and> budget_content content s = [] \<and> budget_final content final s = e"
    by (auto simp: budgetRead_def budget_defs dest!: rd_last split: if_splits prod.splits)
next
  fix n :: nat and b s s' assume "budget_ok ok s" "0 < n" "budgetRead rd n s = ((b, None), s')"
  then show "b \<noteq> []"
    by (auto simp: budgetRead_def budget_ok_def dest!: rd_progress [rotated 2] split: if_splits prod.splits)
qed

text \<open>
  Within one budget, what lies behind it stays where it is: the bytes beyond the budget and
  the final error are those of the source.
\<close>

definition budget_frame :: "bytes \<Rightarrow> err \<Rightarrow> 's budgetReader \<Rightarrow> bool" where
  "budget_frame tail f b \<longleftrightarrow> ok (bgSrc b) \<and> 0 \<le> bgLeft b \<and>
     drop (nat (bgLeft b)) (content (bgSrc b)) = tail \<and> final (bgSrc b) = f"

lemma budget_frame_step:
  assumes "budget_frame tail f s" "budgetRead rd n s = ((b, None), s')"
  shows "budget_frame tail f s'"
proof -
  define m where "m = (if int n > bgLeft s then nat (bgLeft s) else n)"
  from assms obtain x where x: "rd m (bgSrc s) = ((b, None), x)" "0 < bgLeft s"
      "s' = s\<lparr>bgLeft := bgLeft s - int (length b), bgSrc := x\<rparr>"
    by (auto simp: budgetRead_def m_def split: if_splits prod.splits)
  have c: "content (bgSrc s) = b @ content x" "final x = final (bgSrc s)" "ok x"
    using rd_more [OF _ x(1)] assms(1) by (auto simp: budget_frame_def)
  have l: "int (length b) \<le> bgLeft s"
    using rd_length [OF x(1)] x(2) by (auto simp: m_def split: if_splits)
  have "nat (bgLeft s) = length b + nat (bgLeft s - int (length b))" using l by simp
  then have t: "drop (nat (bgLeft s)) (content (bgSrc s)) = drop (nat (bgLeft s - int (length b))) (content x)"
    unfolding c(1) by (simp add: add.commute)
  have f: "drop (nat (bgLeft s)) (content (bgSrc s)) = tail" "final (bgSrc s) = f"
    using assms(1) by (simp_all add: budget_frame_def)
  have g: "drop (nat (bgLeft s - int (length b))) (content x) = tail"
    by (rule trans [OF sym [OF t] f(1)])
  have sel: "bgLeft s' = bgLeft s - int (length b)" "bgSrc s' = x"
    by (simp_all add: x(3))
  show ?thesis
    unfolding budget_frame_def sel by (intro conjI c(3) g) (use l c(2) f(2) in simp_all)
qed

lemma budget_frame_ok: "budget_frame tail f s \<Longrightarrow> budget_ok ok s"
  by (simp add: budget_frame_def budget_ok_def)

lemma budget_frame_source:
  "byte_source (budgetRead rd) (budget_content content) (budget_final content final) (budget_frame tail f)"
proof
  fix n b r s s' assume "budgetRead rd n s = ((b, r), s')"
  then show "length b \<le> n" by (rule byte_source.rd_length [OF budget_source])
next
  fix n b s s' assume "budget_frame tail f s" "budgetRead rd n s = ((b, None), s')"
  then show "budget_content content s = b @ budget_content content s' \<and>
      budget_final content final s' = budget_final content final s \<and> budget_frame tail f s'"
    using byte_source.rd_more [OF budget_source budget_frame_ok, of tail f s n b s'] budget_frame_step
    by blast
next
  fix n b e s s' assume "budget_frame tail f s" "budgetRead rd n s = ((b, Some e), s')"
  then show "b = [] \<and> budget_content content s = [] \<and> budget_final content final s = e"
    using byte_source.rd_last [OF budget_source budget_frame_ok] by blast
next
  fix n :: nat and b s s' assume "budget_frame tail f s" "0 < n" "budgetRead rd n s = ((b, None), s')"
  then show "b \<noteq> []"
    using byte_source.rd_progress [OF budget_source budget_frame_ok] by blast
qed

lemma budget_frame_content:
  "budget_frame tail f b \<Longrightarrow> content (bgSrc b) = budget_content content b @ tail"
  by (auto simp: budget_frame_def budget_content_def)

end

subsection \<open>json.Decoder\<close>

definition is_space :: "byte \<Rightarrow> bool" where
  "is_space c \<longleftrightarrow> c = 32 \<or> c = 9 \<or> c = 10 \<or> c = 13"

definition nonSpace :: "bytes \<Rightarrow> bool" where
  "nonSpace b = list_ex (\<lambda>c. \<not> is_space c) b"

datatype scan_result = Complete nat | More | Bad err

record json_lib =
  jScan :: "bytes \<Rightarrow> scan_result"
  jRoom :: "bytes \<Rightarrow> nat"
  jCheck :: "bytes \<Rightarrow> err option"

text \<open>
  A value that has ended, and a text that cannot be continued to one, stay so whatever
  follows; spaces in front of a value are skipped.
\<close>

definition json_lib_ok :: "json_lib \<Rightarrow> bool" where
  "json_lib_ok J \<longleftrightarrow>
     (\<forall>b c n. jScan J b = Complete n \<longrightarrow> n \<le> length b \<and> jScan J (b @ c) = Complete n) \<and>
     (\<forall>b c e. jScan J b = Bad e \<longrightarrow> jScan J (b @ c) = Bad e) \<and>
     (\<forall>c b n. is_space c \<longrightarrow> jScan J b = Complete n \<longrightarrow> jScan J (c # b) = Complete (Suc n)) \<and>
     (\<forall>b. 0 < jRoom J b)"

record jsonDecoder =
  jdBuf :: bytes
  jdErr :: "err option"

definition newDecoder :: jsonDecoder where
  "newDecoder = \<lparr>jdBuf = [], jdErr = None\<rparr>"

text \<open>The scan of what was there when a read ended with the error \<open>x\<close>.\<close>

definition atReadError :: "json_lib \<Rightarrow> bytes \<Rightarrow> err \<Rightarrow> err + nat" where
  "atReadError J buf x =
     (case jScan J buf of
        Complete n \<Rightarrow> Inr n
      | Bad e \<Rightarrow> Inl e
      | More \<Rightarrow>
          if x = EOF then
            (if jScan J (buf @ [32]) = Complete (length buf) then Inr (length buf)
             else if nonSpace buf then Inl ErrUnexpectedEOF else Inl EOF)
          else Inl x)"

partial_function (option) readValue ::
  "json_lib \<Rightarrow> 's reader \<Rightarrow> bytes \<Rightarrow> 's \<Rightarrow> ((err + nat) \<times> bytes \<times> 's) option" where
  "readValue J rd buf s =
     (case jScan J buf of
        Complete n \<Rightarrow> Some (Inr n, buf, s)
      | Bad e \<Rightarrow> Some (Inl e, buf, s)
      | More \<Rightarrow>
          (case rd (jRoom J buf) s of (de, s') \<Rightarrow>
             (case snd de of
                None \<Rightarrow> readValue J rd (buf @ fst de) s'
              | Some x \<Rightarrow> Some (atReadError J (buf @ fst de) x, buf @ fst de, s'))))"

declare readValue.simps [code]

text \<open>\<open>Decode\<close>: the text of the next value, without the spaces in front.\<close>

definition decodeText ::
  "json_lib \<Rightarrow> 's reader \<Rightarrow> jsonDecoder \<Rightarrow> 's \<Rightarrow> ((err + bytes) \<times> jsonDecoder \<times> 's) option" where
  "decodeText J rd d s =
     (case jdErr d of
        Some e \<Rightarrow> Some (Inl e, d, s)
      | None \<Rightarrow>
          (case readValue J rd (jdBuf d) s of
             None \<Rightarrow> None
           | Some (r, buf, s') \<Rightarrow>
               (case r of
                  Inl e \<Rightarrow> Some (Inl e, d\<lparr>jdBuf := buf, jdErr := Some e\<rparr>, s')
                | Inr n \<Rightarrow> Some (Inr (dropWhile is_space (take n buf)), d\<lparr>jdBuf := drop n buf\<rparr>, s'))))"

lemma json_Complete:
  "json_lib_ok J \<Longrightarrow> jScan J b = Complete n \<Longrightarrow> n \<le> length b \<and> jScan J (b @ c) = Complete n"
  by (simp add: json_lib_ok_def)

lemma json_Bad: "json_lib_ok J \<Longrightarrow> jScan J b = Bad e \<Longrightarrow> jScan J (b @ c) = Bad e"
  by (simp add: json_lib_ok_def)

lemma json_room: "json_lib_ok J \<Longrightarrow> 0 < jRoom J b"
  by (simp add: json_lib_ok_def)

lemma json_space:
  "json_lib_ok J \<Longrightarrow> is_space c \<Longrightarrow> jScan J b = Complete n \<Longrightarrow> jScan J (c # b) = Complete (Suc n)"
  by (simp add: json_lib_ok_def)

context byte_source begin

text \<open>The decoder always stops, and never reads past the bytes of the source.\<close>

lemma readValue_total:
  assumes "json_lib_ok J" "ok s"
  shows "\<exists>r buf' s'. readValue J rd buf s = Some (r, buf', s') \<and>
    (\<exists>rest. content s = drop (length buf) buf' @ rest \<and> length buf \<le> length buf' \<and> take (length buf) buf' = buf)"
  using assms(2)
proof (induction "length (content s)" arbitrary: buf s rule: less_induct)
  case less
  show ?case
  proof (cases "jScan J buf")
    case More
    obtain b e s' where r: "rd (jRoom J buf) s = ((b, e), s')" by (metis prod.exhaust)
    show ?thesis
    proof (cases e)
      case (Some x)
      then show ?thesis using More r rd_last [OF less.prems, of "jRoom J buf" b x s']
        by (subst readValue.simps) auto
    next
      case None
      have b: "b \<noteq> []" "content s = b @ content s'" "ok s'"
        using rd_progress [OF less.prems json_room [OF assms(1)]] rd_more [OF less.prems] r None by auto
      then have "length (content s') < length (content s)" by simp
      from less.hyps [OF this b(3), of "buf @ b"] obtain r2 buf' s2 rest where h:
        "readValue J rd (buf @ b) s' = Some (r2, buf', s2)"
        "content s' = drop (length (buf @ b)) buf' @ rest" "length (buf @ b) \<le> length buf'"
        "take (length (buf @ b)) buf' = buf @ b"
        by blast
      have "readValue J rd buf s = Some (r2, buf', s2)"
        using More r None h(1) by (subst readValue.simps) simp
      moreover have "take (length buf) buf' = buf"
        using h(4) by (metis append_eq_conv_conj length_append take_take min.absorb1 le_add1)
      moreover have "content s = drop (length buf) buf' @ rest"
      proof -
        have "buf' = buf @ b @ drop (length (buf @ b)) buf'"
          using h(4) by (metis append.assoc append_take_drop_id)
        then have "drop (length buf) buf' = b @ drop (length (buf @ b)) buf'"
          by (metis append_eq_conv_conj)
        then show ?thesis using b(2) h(2) by simp
      qed
      ultimately show ?thesis using h(3) by auto
    qed
  qed (subst readValue.simps, auto)+
qed

text \<open>When a value ends within the bytes to come, it is found, in whatever pieces they arrive.\<close>

lemma readValue_finds:
  assumes "json_lib_ok J" "ok s" "jScan J (buf @ content s) = Complete n"
  shows "\<exists>buf' s'. readValue J rd buf s = Some (Inr n, buf', s') \<and> n \<le> length buf' \<and>
    buf' @ content s' = buf @ content s \<and> final s' = final s \<and> ok s'"
  using assms(2,3)
proof (induction "length (content s)" arbitrary: buf s rule: less_induct)
  case less
  show ?case
  proof (cases "jScan J buf")
    case (Complete m)
    then have "m = n" "m \<le> length buf" using json_Complete [OF assms(1) Complete] less.prems(2) by auto
    then show ?thesis using Complete less.prems by (subst readValue.simps) auto
  next
    case (Bad e)
    then show ?thesis using json_Bad [OF assms(1) Bad] less.prems(2) by auto
  next
    case More
    obtain b e s' where r: "rd (jRoom J buf) s = ((b, e), s')" by (metis prod.exhaust)
    show ?thesis
    proof (cases e)
      case (Some x)
      then have "content s = []" using rd_last [OF less.prems(1)] r by auto
      then show ?thesis using More less.prems(2) by simp
    next
      case None
      have b: "b \<noteq> []" "content s = b @ content s'" "final s' = final s" "ok s'"
        using rd_progress [OF less.prems(1) json_room [OF assms(1)]] rd_more [OF less.prems(1)] r None by auto
      then have l: "length (content s') < length (content s)" by simp
      have "readValue J rd buf s = readValue J rd (buf @ b) s'"
        using More r None by (subst readValue.simps) simp
      then show ?thesis using less.hyps [OF l b(4), of "buf @ b"] less.prems(2) b by simp
    qed
  qed
qed

text \<open>When none does, the final error of the source is reported.\<close>

lemma readValue_starves:
  assumes "json_lib_ok J" "ok s" "jScan J (buf @ content s) = More"
  shows "\<exists>s'. readValue J rd buf s = Some (atReadError J (buf @ content s) (final s), buf @ content s, s')"
  using assms(2,3)
proof (induction "length (content s)" arbitrary: buf s rule: less_induct)
  case less
  have m: "jScan J buf = More"
    using json_Complete [OF assms(1), of buf] json_Bad [OF assms(1), of buf] less.prems(2)
    by (cases "jScan J buf") auto
  obtain b e s' where r: "rd (jRoom J buf) s = ((b, e), s')" by (metis prod.exhaust)
  show ?case
  proof (cases e)
    case (Some x)
    then show ?thesis using m r rd_last [OF less.prems(1), of "jRoom J buf" b x s']
      by (subst readValue.simps) auto
  next
    case None
    have b: "b \<noteq> []" "content s = b @ content s'" "final s' = final s" "ok s'"
      using rd_progress [OF less.prems(1) json_room [OF assms(1)]] rd_more [OF less.prems(1)] r None by auto
    then have l: "length (content s') < length (content s)" by simp
    have "readValue J rd buf s = readValue J rd (buf @ b) s'"
      using m r None by (subst readValue.simps) simp
    then show ?thesis using less.hyps [OF l b(4), of "buf @ b"] less.prems(2) b by simp
  qed
qed

lemma decodeText_finds:
  assumes "json_lib_ok J" "ok s" "jdErr d = None" "jScan J (jdBuf d @ content s) = Complete n"
  shows "\<exists>d' s'. decodeText J rd d s =
      Some (Inr (dropWhile is_space (take n (jdBuf d @ content s))), d', s') \<and>
    jdErr d' = None \<and> jdBuf d' @ content s' = drop n (jdBuf d @ content s) \<and>
    final s' = final s \<and> ok s'"
proof -
  obtain buf' s' where r: "readValue J rd (jdBuf d) s = Some (Inr n, buf', s')" "n \<le> length buf'"
      "buf' @ content s' = jdBuf d @ content s" "final s' = final s" "ok s'"
    using readValue_finds [OF assms(1,2,4)] by blast
  have "take n (jdBuf d @ content s) = take n buf'" "drop n (jdBuf d @ content s) = drop n buf' @ content s'"
    using r(2) by (simp_all add: r(3) [symmetric])
  then show ?thesis using r assms(3) by (simp add: decodeText_def)
qed

end

text \<open>
  A text that an encoder sends: one value, recognised once the newline behind it is there.
\<close>

definition json_text :: "json_lib \<Rightarrow> bytes \<Rightarrow> bool" where
  "json_text J t \<longleftrightarrow> t \<noteq> [] \<and> \<not> is_space (hd t) \<and> jScan J (t @ [10]) = Complete (length t)"

lemma json_text_scan:
  assumes "json_lib_ok J" "json_text J t" "\<forall>c \<in> set ws. is_space c"
  shows "jScan J (ws @ t @ 10 # rest) = Complete (length ws + length t)"
  using assms(3)
proof (induction ws)
  case Nil
  then show ?case
    using json_Complete [OF assms(1), of "t @ [10]" "length t" rest] assms(2) by (simp add: json_text_def)
next
  case (Cons c ws)
  then show ?case using json_space [OF assms(1)] by simp
qed

lemma dropWhile_spaces:
  "json_text J t \<Longrightarrow> \<forall>c \<in> set ws. is_space c \<Longrightarrow> dropWhile is_space (ws @ t) = t"
  by (cases t) (auto simp: json_text_def dropWhile_append3)

context byte_source begin

lemma decodeText_text:
  assumes "json_lib_ok J" "ok s" "jdErr d = None" "json_text J t" "\<forall>c \<in> set ws. is_space c"
    and "jdBuf d @ content s = ws @ t @ 10 # rest"
  shows "\<exists>d' s'. decodeText J rd d s = Some (Inr t, d', s') \<and> jdErr d' = None \<and>
    jdBuf d' @ content s' = 10 # rest \<and> final s' = final s \<and> ok s'"
  using decodeText_finds [OF assms(1-3), of "length ws + length t"] json_text_scan [OF assms(1,4,5), of rest]
    dropWhile_spaces [OF assms(4,5)]
  by (simp add: assms(6))

end

end
