(* ===== verification/GoWriter.thy ===== *)
theory GoWriter
  imports GoIO
begin

text \<open>
  The writing side: the outgoing half of a connection, \<open>bufio.Writer\<close> (4096 bytes) with its
  sticky error, and \<open>json.Encoder\<close>/\<open>gob.Encoder\<close> as what they do to the writer: the bytes of
  the encoded value are written at once, and a failed write is remembered.
\<close>

text \<open>
  The bytes the peer will see, and, when the connection is going to fail, the number of bytes
  it still takes and the error it then gives.
\<close>

record sink =
  snkOut :: bytes
  snkLimit :: "(nat \<times> err) option"

definition connWrite :: "bytes \<Rightarrow> sink \<Rightarrow> (nat \<times> err option) \<times> sink" where
  "connWrite p s =
     (case snkLimit s of
        None \<Rightarrow> ((length p, None), s\<lparr>snkOut := snkOut s @ p\<rparr>)
      | Some (k, e) \<Rightarrow>
          if length p \<le> k
          then ((length p, None), s\<lparr>snkOut := snkOut s @ p, snkLimit := Some (k - length p, e)\<rparr>)
          else ((k, Some e), s\<lparr>snkOut := snkOut s @ take k p, snkLimit := Some (0, e)\<rparr>))"

record bufw =
  bwBuf :: bytes
  bwErr :: "err option"
  bwSink :: sink

definition bufwSize :: nat where
  "bufwSize = 4096"

definition newWriter :: "sink \<Rightarrow> bufw" where
  "newWriter s = \<lparr>bwBuf = [], bwErr = None, bwSink = s\<rparr>"

definition Flush :: "bufw \<Rightarrow> err option \<times> bufw" where
  "Flush b =
     (if bwErr b \<noteq> None then (bwErr b, b)
      else if bwBuf b = [] then (None, b)
      else case connWrite (bwBuf b) (bwSink b) of ((n, e), s) \<Rightarrow>
        let e' = (if n < length (bwBuf b) \<and> e = None then Some ErrShortWrite else e)
        in if e' \<noteq> None then (e', b\<lparr>bwBuf := drop n (bwBuf b), bwErr := e', bwSink := s\<rparr>)
           else (None, b\<lparr>bwBuf := [], bwSink := s\<rparr>))"

text \<open>
  \<open>Write\<close>: the loop flushes a full buffer, writes a large rest to the connection directly, and
  ends because the connection takes all of what it is given or fails.
\<close>

definition writeRest :: "bytes \<Rightarrow> bufw \<Rightarrow> bufw" where
  "writeRest p b =
     (if bwErr b \<noteq> None then b
      else if length p \<le> bufwSize then b\<lparr>bwBuf := bwBuf b @ p\<rparr>
      else case connWrite p (bwSink b) of ((n, e), s) \<Rightarrow> b\<lparr>bwErr := e, bwSink := s\<rparr>)"

definition Write :: "bytes \<Rightarrow> bufw \<Rightarrow> err option \<times> bufw" where
  "Write p b =
     (if bwErr b \<noteq> None then (bwErr b, b)
      else
        let room = bufwSize - length (bwBuf b) in
        if length p \<le> room then (None, b\<lparr>bwBuf := bwBuf b @ p\<rparr>)
        else
          let b' = (if bwBuf b = [] then writeRest p b
                    else writeRest (drop room p) (snd (Flush (b\<lparr>bwBuf := bwBuf b @ take room p\<rparr>))))
          in (bwErr b', b'))"

text \<open>Everything written so far, flushed or not, while no error has occurred.\<close>

definition written :: "bufw \<Rightarrow> bytes" where
  "written b = snkOut (bwSink b) @ bwBuf b"

definition writer_ok :: "bufw \<Rightarrow> bool" where
  "writer_ok b \<longleftrightarrow> bwErr b = None \<and> snkLimit (bwSink b) = None"

lemma connWrite_ok:
  "snkLimit s = None \<Longrightarrow> connWrite p s = ((length p, None), s\<lparr>snkOut := snkOut s @ p\<rparr>)"
  by (simp add: connWrite_def)

lemma Flush_ok:
  "writer_ok b \<Longrightarrow> \<exists>b'. Flush b = (None, b') \<and> writer_ok b' \<and> bwBuf b' = [] \<and> snkOut (bwSink b') = written b"
  by (auto simp: Flush_def writer_ok_def written_def connWrite_ok)

lemma writeRest_ok:
  "writer_ok b \<Longrightarrow> bwBuf b = [] \<Longrightarrow> writer_ok (writeRest p b) \<and> written (writeRest p b) = written b @ p"
  by (auto simp: writeRest_def writer_ok_def written_def connWrite_ok)

lemma Write_ok:
  assumes "writer_ok b"
  shows "\<exists>b'. Write p b = (None, b') \<and> writer_ok b' \<and> written b' = written b @ p"
proof -
  define room where "room = bufwSize - length (bwBuf b)"
  have e: "bwErr b = None" using assms by (simp add: writer_ok_def)
  consider (fits) "length p \<le> room" | (direct) "room < length p" "bwBuf b = []"
    | (split) "room < length p" "bwBuf b \<noteq> []" by force
  then show ?thesis
  proof cases
    case fits
    then have "Write p b = (None, b\<lparr>bwBuf := bwBuf b @ p\<rparr>)" using e by (simp add: Write_def Let_def room_def)
    with assms show ?thesis by (simp add: writer_ok_def written_def)
  next
    case direct
    then have "Write p b = (bwErr (writeRest p b), writeRest p b)" using e by (simp add: Write_def Let_def room_def)
    with writeRest_ok [OF assms direct(2), of p] show ?thesis by (simp add: writer_ok_def)
  next
    case split
    let ?b = "b\<lparr>bwBuf := bwBuf b @ take room p\<rparr>"
    have "writer_ok ?b" using assms by (simp add: writer_ok_def)
    then obtain b1 where b1: "Flush ?b = (None, b1)" "writer_ok b1" "bwBuf b1 = []" "snkOut (bwSink b1) = written ?b"
      using Flush_ok by blast
    have "Write p b = (bwErr (writeRest (drop room p) b1), writeRest (drop room p) b1)"
      using e split b1(1) by (simp add: Write_def Let_def room_def)
    moreover have "written b1 = written b @ take room p" using b1 by (simp add: written_def)
    ultimately show ?thesis
      using writeRest_ok [OF b1(2,3), of "drop room p"] by (simp add: writer_ok_def)
  qed
qed

subsection \<open>Encoders\<close>

text \<open>
  \<open>Encode\<close> of an encoder that writes whole messages: \<open>enc\<close> is the outcome of encoding the
  value, \<open>encErr\<close> the error of an earlier write.
\<close>

record encoder =
  encErr :: "err option"

definition newEncoder :: encoder where
  "newEncoder = \<lparr>encErr = None\<rparr>"

definition encodeTo :: "err + bytes \<Rightarrow> encoder \<Rightarrow> bufw \<Rightarrow> err option \<times> encoder \<times> bufw" where
  "encodeTo enc en b =
     (case encErr en of
        Some e \<Rightarrow> (Some e, en, b)
      | None \<Rightarrow>
          (case enc of
             Inl e \<Rightarrow> (Some e, en, b)
           | Inr msg \<Rightarrow>
               (case Write msg b of (e, b') \<Rightarrow> (e, en\<lparr>encErr := e\<rparr>, b'))))"

lemma encodeTo_ok:
  assumes "writer_ok b" "encErr en = None" "enc = Inr msg"
  shows "\<exists>b'. encodeTo enc en b = (None, en, b') \<and> writer_ok b' \<and> written b' = written b @ msg"
  using Write_ok [OF assms(1), of msg] assms(2,3) by (auto simp: encodeTo_def)

lemma encodeTo_fails:
  "encErr en = None \<Longrightarrow> encodeTo (Inl e) en b = (Some e, en, b)"
  by (simp add: encodeTo_def)

end
