(* ===== verification/JsonCodec.thy ===== *)
theory JsonCodec
  imports JsonStream GoWriter
begin

text \<open>
  The JSON codecs (\<open>v3/codec/json_server_codec.go\<close>, \<open>v3/codec/json_client_codec.go\<close>): two JSON
  messages per call on one stream, each read under its own budget. The reader is any
  \<open>byte_source\<close>. Marshalling and unmarshalling of a header or a body are arguments, on the
  text of the value; a nil body is \<open>None\<close>. The outcome of reading is \<open>None\<close> when the read does
  not return. The record serves both codecs, whose Go structs have the same fields; \<open>jcCloses\<close>
  counts the calls of \<open>rwc.Close\<close>. Logging is left out.
\<close>

record 's jsonCodec =
  jcBudget :: "'s budgetReader"
  jcDec :: jsonDecoder
  jcBuf :: bufw
  jcEnc :: encoder
  jcMaxBody :: int
  jcClosed :: bool
  jcCloses :: nat

definition effectiveMaxBody :: "int \<Rightarrow> int" where
  "effectiveMaxBody m = (if m \<le> 0 then DefaultMaxJSONBody else m)"

definition newJSONServerCodec :: "bufw \<Rightarrow> 's \<Rightarrow> int \<Rightarrow> 's jsonCodec" where
  "newJSONServerCodec buf conn maxBody =
     (let m = effectiveMaxBody maxBody
      in \<lparr>jcBudget = \<lparr>bgLeft = m, bgSrc = conn\<rparr>, jcDec = newDecoder, jcBuf = buf, jcEnc = newEncoder,
          jcMaxBody = m, jcClosed = False, jcCloses = 0\<rparr>)"

definition newJSONClientCodec :: "bufw \<Rightarrow> 's \<Rightarrow> int \<Rightarrow> 's jsonCodec" where
  "newJSONClientCodec buf conn maxBody =
     (let m = effectiveMaxBody maxBody
      in \<lparr>jcBudget = \<lparr>bgLeft = m, bgSrc = conn\<rparr>, jcDec = newDecoder, jcBuf = buf, jcEnc = newEncoder,
          jcMaxBody = m, jcClosed = False, jcCloses = 0\<rparr>)"

subsection \<open>Reading\<close>

text \<open>\<open>budget.resetBudget(maxBody)\<close> and \<open>dec.Decode(v)\<close>.\<close>

definition decodeMessage ::
  "json_lib \<Rightarrow> 's reader \<Rightarrow> (bytes \<Rightarrow> err + 'v) \<Rightarrow> 's jsonCodec \<Rightarrow> ((err + 'v) \<times> 's jsonCodec) option" where
  "decodeMessage J rd um c =
     (case decodeText J (budgetRead rd) (jcDec c) (resetBudget (jcMaxBody c) (jcBudget c)) of
        None \<Rightarrow> None
      | Some (r, d, b) \<Rightarrow> Some (bindR r um, c\<lparr>jcDec := d, jcBudget := b\<rparr>))"

definition ReadRequestHeader ::
  "json_lib \<Rightarrow> 's reader \<Rightarrow> (bytes \<Rightarrow> err + 'r) \<Rightarrow> 's jsonCodec \<Rightarrow> ((err + 'r) \<times> 's jsonCodec) option" where
  "ReadRequestHeader J rd umReq c = decodeMessage J rd umReq c"

text \<open>The result of a body that is read and thrown away is \<open>None\<close>.\<close>

definition discardMessage ::
  "json_lib \<Rightarrow> 's reader \<Rightarrow> 's jsonCodec \<Rightarrow> ((err + 'v option) \<times> 's jsonCodec) option" where
  "discardMessage J rd c =
     (case decodeMessage J rd Inr c of
        None \<Rightarrow> None
      | Some (r, c') \<Rightarrow> Some (case r of Inl e \<Rightarrow> Inl e | Inr _ \<Rightarrow> Inr None, c'))"

definition ReadRequestBody ::
  "json_lib \<Rightarrow> 's reader \<Rightarrow> (bytes \<Rightarrow> err + 'v) option \<Rightarrow> 's jsonCodec \<Rightarrow>
   ((err + 'v option) \<times> 's jsonCodec) option" where
  "ReadRequestBody J rd body c =
     (case body of
        None \<Rightarrow> discardMessage J rd c
      | Some um \<Rightarrow>
          (case decodeMessage J rd um c of
             None \<Rightarrow> None
           | Some (r, c') \<Rightarrow> Some (case r of Inl e \<Rightarrow> Inl e | Inr v \<Rightarrow> Inr (Some v), c')))"

definition ReadResponseHeader ::
  "json_lib \<Rightarrow> 's reader \<Rightarrow> (bytes \<Rightarrow> err + 'r) \<Rightarrow> 's jsonCodec \<Rightarrow> ((err + 'r) \<times> 's jsonCodec) option" where
  "ReadResponseHeader J rd umRes c = decodeMessage J rd umRes c"

definition ReadResponseBody ::
  "json_lib \<Rightarrow> 's reader \<Rightarrow> (bytes \<Rightarrow> err + 'v) option \<Rightarrow> 's jsonCodec \<Rightarrow>
   ((err + 'v option) \<times> 's jsonCodec) option" where
  "ReadResponseBody J rd body c =
     (case body of
        None \<Rightarrow> discardMessage J rd c
      | Some um \<Rightarrow>
          (case decodeMessage J rd um c of
             None \<Rightarrow> None
           | Some (r, c') \<Rightarrow> Some (case r of Inl e \<Rightarrow> Inl e | Inr v \<Rightarrow> Inr (Some v), c')))"

subsection \<open>Writing\<close>

text \<open>\<open>json.Encoder.Encode\<close> writes the text and a newline.\<close>

definition jsonEncode :: "err + bytes \<Rightarrow> 's jsonCodec \<Rightarrow> err option \<times> 's jsonCodec" where
  "jsonEncode txt c =
     (case encodeTo (bindR txt (\<lambda>t. Inr (t @ [10]))) (jcEnc c) (jcBuf c) of
        (e, en, b) \<Rightarrow> (e, c\<lparr>jcEnc := en, jcBuf := b\<rparr>))"

definition flushCodec :: "'s jsonCodec \<Rightarrow> err option \<times> 's jsonCodec" where
  "flushCodec c = (case Flush (jcBuf c) of (e, b) \<Rightarrow> (e, c\<lparr>jcBuf := b\<rparr>))"

text \<open>\<open>Close\<close>; \<open>closeErr\<close> is what \<open>rwc.Close\<close> would return.\<close>

definition CloseServer :: "err option \<Rightarrow> 's jsonCodec \<Rightarrow> err option \<times> 's jsonCodec" where
  "CloseServer closeErr c =
     (if jcClosed c then (None, c)
      else (closeErr, c\<lparr>jcClosed := True, jcCloses := Suc (jcCloses c)\<rparr>))"

definition CloseClient :: "err option \<Rightarrow> 's jsonCodec \<Rightarrow> err option \<times> 's jsonCodec" where
  "CloseClient closeErr c =
     (if jcClosed c then (None, c)
      else (closeErr, c\<lparr>jcClosed := True, jcCloses := Suc (jcCloses c)\<rparr>))"

text \<open>After a failed \<open>Encode\<close>: if what is buffered can be flushed, the codec is closed.\<close>

definition abortWrite :: "err option \<Rightarrow> err \<Rightarrow> 's jsonCodec \<Rightarrow> err option \<times> 's jsonCodec" where
  "abortWrite closeErr e c =
     (case flushCodec c of
        (None, c') \<Rightarrow> (Some e, snd (CloseServer closeErr c'))
      | (Some _, c') \<Rightarrow> (Some e, c'))"

definition WriteResponse ::
  "err option \<Rightarrow> err + bytes \<Rightarrow> err + bytes \<Rightarrow> 's jsonCodec \<Rightarrow> err option \<times> 's jsonCodec" where
  "WriteResponse closeErr hdr body c =
     (case jsonEncode hdr c of
        (Some e, c1) \<Rightarrow> abortWrite closeErr e c1
      | (None, c1) \<Rightarrow>
          (case jsonEncode body c1 of
             (Some e, c2) \<Rightarrow> abortWrite closeErr e c2
           | (None, c2) \<Rightarrow> flushCodec c2))"

definition WriteRequest ::
  "err + bytes \<Rightarrow> err + bytes \<Rightarrow> 's jsonCodec \<Rightarrow> err option \<times> 's jsonCodec" where
  "WriteRequest hdr body c =
     (case jsonEncode hdr c of
        (Some e, c1) \<Rightarrow> (Some e, c1)
      | (None, c1) \<Rightarrow>
          (case jsonEncode body c1 of
             (Some e, c2) \<Rightarrow> (Some e, c2)
           | (None, c2) \<Rightarrow> flushCodec c2))"

subsection \<open>Reading what an encoder wrote\<close>

text \<open>One message on the wire, and what the messages of a call leave there.\<close>

definition call_text :: "bytes \<times> bytes \<Rightarrow> bytes" where
  "call_text hb = fst hb @ [10] @ snd hb @ [10]"

definition fits :: "json_lib \<Rightarrow> int \<Rightarrow> bytes \<Rightarrow> bool" where
  "fits J m t \<longleftrightarrow> json_text J t \<and> int (length t) + 2 \<le> m"

definition bodyResult :: "(bytes \<Rightarrow> err + 'v) option \<Rightarrow> bytes \<Rightarrow> err + 'v option" where
  "bodyResult body t = (case body of None \<Rightarrow> Inr None | Some um \<Rightarrow> bindR (um t) (\<lambda>v. Inr (Some v)))"

lemma bodyResult_eq:
  "(case um t of Inl e \<Rightarrow> Inl e | Inr v \<Rightarrow> Inr (Some v)) = bodyResult (Some um) t"
  by (simp add: bodyResult_def bindR_def)

text \<open>The reading side of a server: header and body of one call after the other.\<close>

fun serveReads ::
  "json_lib \<Rightarrow> 's reader \<Rightarrow> (bytes \<Rightarrow> err + 'r) \<Rightarrow> (bytes \<Rightarrow> err + 'v) option list \<Rightarrow> 's jsonCodec \<Rightarrow>
   (((err + 'r) \<times> (err + 'v option)) list \<times> 's jsonCodec) option" where
  "serveReads J rd umReq [] c = Some ([], c)"
| "serveReads J rd umReq (body # bodies) c =
     (case ReadRequestHeader J rd umReq c of
        None \<Rightarrow> None
      | Some (h, c1) \<Rightarrow>
          (case ReadRequestBody J rd body c1 of
             None \<Rightarrow> None
           | Some (v, c2) \<Rightarrow>
               (case serveReads J rd umReq bodies c2 of
                  None \<Rightarrow> None
                | Some (rs, c3) \<Rightarrow> Some ((h, v) # rs, c3))))"

fun clientReads ::
  "json_lib \<Rightarrow> 's reader \<Rightarrow> (bytes \<Rightarrow> err + 'r) \<Rightarrow> (bytes \<Rightarrow> err + 'v) option list \<Rightarrow> 's jsonCodec \<Rightarrow>
   (((err + 'r) \<times> (err + 'v option)) list \<times> 's jsonCodec) option" where
  "clientReads J rd umRes [] c = Some ([], c)"
| "clientReads J rd umRes (body # bodies) c =
     (case ReadResponseHeader J rd umRes c of
        None \<Rightarrow> None
      | Some (h, c1) \<Rightarrow>
          (case ReadResponseBody J rd body c1 of
             None \<Rightarrow> None
           | Some (v, c2) \<Rightarrow>
               (case clientReads J rd umRes bodies c2 of
                  None \<Rightarrow> None
                | Some (rs, c3) \<Rightarrow> Some ((h, v) # rs, c3))))"

lemma clientReads_eq: "clientReads J rd um bodies c = serveReads J rd um bodies c"
  by (induction bodies arbitrary: c)
    (simp_all add: ReadResponseHeader_def ReadRequestHeader_def ReadResponseBody_def ReadRequestBody_def
      split: option.split)

context byte_source begin

definition jc_stream :: "'s jsonCodec \<Rightarrow> bytes" where
  "jc_stream c = jdBuf (jcDec c) @ content (bgSrc (jcBudget c))"

definition jc_ready :: "'s jsonCodec \<Rightarrow> bool" where
  "jc_ready c \<longleftrightarrow> jdErr (jcDec c) = None \<and> ok (bgSrc (jcBudget c)) \<and> 0 \<le> jcMaxBody c"

lemma reset_frame:
  "jc_ready c \<Longrightarrow> budget_frame (drop (nat (jcMaxBody c)) (content (bgSrc (jcBudget c))))
     (final (bgSrc (jcBudget c))) (resetBudget (jcMaxBody c) (jcBudget c))"
  by (simp add: budget_frame_def resetBudget_def jc_ready_def)

lemma reset_content:
  "budget_content content (resetBudget m b) = take (nat m) (content (bgSrc b))"
  by (simp add: budget_content_def resetBudget_def)

lemma decodeMessage_text:
  assumes J: "json_lib_ok J" and r: "jc_ready c" and t: "json_text J t" "\<forall>x \<in> set ws. is_space x"
    and st: "jc_stream c = ws @ t @ 10 # rest" and len: "int (length ws + length t + 1) \<le> jcMaxBody c"
  shows "\<exists>c'. decodeMessage J rd um c = Some (um t, c') \<and> jc_ready c' \<and> jc_stream c' = 10 # rest \<and>
    jcMaxBody c' = jcMaxBody c \<and> jcBuf c' = jcBuf c"
proof -
  define m where "m = nat (jcMaxBody c)"
  define src where "src = content (bgSrc (jcBudget c))"
  define K where "K = jdBuf (jcDec c) @ take m src"
  have K: "K @ drop m src = (ws @ t @ [10]) @ rest"
    using st by (simp add: K_def jc_stream_def src_def)
  have "length (ws @ t @ [10]) \<le> length K \<or> drop m src = []"
    using len by (auto simp: K_def m_def)
  then have "length (ws @ t @ [10]) \<le> length K" using K by (metis append_Nil2 le_add1 length_append)
  then have "take (length (ws @ t @ [10])) K = ws @ t @ [10]"
    using K by (metis append_eq_conv_conj take_append diff_is_0_eq take0 append_Nil2)
  then obtain rest1 where K0: "K = (ws @ t @ [10]) @ rest1" by (metis append_take_drop_id)
  then have K1: "K = ws @ t @ 10 # rest1" "rest1 @ drop m src = rest" using K by simp_all
  have b: "budget_content content (resetBudget (jcMaxBody c) (jcBudget c)) = take m src"
    by (simp add: reset_content m_def src_def)
  have d: "jdErr (jcDec c) = None" using r by (simp add: jc_ready_def)
  obtain d' b' where dt: "decodeText J (budgetRead rd) (jcDec c) (resetBudget (jcMaxBody c) (jcBudget c)) =
      Some (Inr t, d', b')" "jdErr d' = None" "jdBuf d' @ budget_content content b' = 10 # rest1"
      "budget_frame (drop m src) (final (bgSrc (jcBudget c))) b'"
    using byte_source.decodeText_text [OF budget_frame_source J _ d t, of _ _ _ rest1] reset_frame [OF r]
      K1(1) by (force simp: b K_def m_def src_def)
  then have "jdBuf d' @ content (bgSrc b') = 10 # rest"
    using budget_frame_content [OF dt(4)] K1(2) by (metis append.assoc append_Cons)
  then show ?thesis
    using dt(2,4) r by (simp add: decodeMessage_def dt(1) jc_ready_def jc_stream_def budget_frame_def)
qed

lemma ReadRequestBody_text:
  assumes "json_lib_ok J" "jc_ready c" "json_text J t" "\<forall>x \<in> set ws. is_space x"
    and "jc_stream c = ws @ t @ 10 # rest" "int (length ws + length t + 1) \<le> jcMaxBody c"
  shows "\<exists>c'. ReadRequestBody J rd body c = Some (bodyResult body t, c') \<and> jc_ready c' \<and>
    jc_stream c' = 10 # rest \<and> jcMaxBody c' = jcMaxBody c \<and> jcBuf c' = jcBuf c"
proof (cases body)
  case None
  obtain c' where "decodeMessage J rd Inr c = Some (Inr t, c')" "jc_ready c'" "jc_stream c' = 10 # rest"
      "jcMaxBody c' = jcMaxBody c" "jcBuf c' = jcBuf c"
    using decodeMessage_text [OF assms, of Inr] by blast
  then show ?thesis by (auto simp: None ReadRequestBody_def discardMessage_def bodyResult_def)
next
  case (Some um)
  show ?thesis
    using decodeMessage_text [OF assms, of um]
    by (auto simp: Some ReadRequestBody_def bodyResult_eq)
qed

lemma serveReads_texts:
  assumes "json_lib_ok J" "jc_ready c" "length calls = length bodies"
    and "\<forall>(h, b) \<in> set calls. fits J (jcMaxBody c) h \<and> fits J (jcMaxBody c) b"
    and "ws = [] \<or> ws = [10]" "jc_stream c = ws @ concat (map call_text calls) @ rest"
  shows "\<exists>c'. serveReads J rd umReq bodies c =
      Some (map2 (\<lambda>hb body. (umReq (fst hb), bodyResult body (snd hb))) calls bodies, c') \<and>
    jc_ready c' \<and> jcMaxBody c' = jcMaxBody c \<and> jcBuf c' = jcBuf c"
  using assms(2-)
proof (induction calls arbitrary: bodies c ws)
  case Nil
  then show ?case by simp
next
  case (Cons hb calls)
  obtain h b where hb: "hb = (h, b)" by (cases hb)
  obtain body bodies' where bs: "bodies = body # bodies'" using Cons.prems(2) by (cases bodies) auto
  have f: "fits J (jcMaxBody c) h" "fits J (jcMaxBody c) b" using Cons.prems(3) by (auto simp: hb)
  have ws: "\<forall>x \<in> set ws. is_space x" "length ws \<le> 1" "\<forall>x \<in> set [10]. is_space x"
    using Cons.prems(4) by (auto simp: is_space_def)
  have s: "jc_stream c = ws @ h @ 10 # (b @ [10] @ concat (map call_text calls) @ rest)"
    using Cons.prems(5) by (simp add: hb call_text_def [of "(h, b)"])
  have l: "int (length ws + length h + 1) \<le> jcMaxBody c" using f(1) ws(2) by (simp add: fits_def)
  obtain c1 where c1: "ReadRequestHeader J rd umReq c = Some (umReq h, c1)" "jc_ready c1"
      "jc_stream c1 = 10 # (b @ [10] @ concat (map call_text calls) @ rest)" "jcMaxBody c1 = jcMaxBody c"
      "jcBuf c1 = jcBuf c"
    using decodeMessage_text [OF assms(1) Cons.prems(1) _ ws(1) s l, of umReq] f(1)
    by (auto simp: fits_def ReadRequestHeader_def)
  have s1: "jc_stream c1 = [10] @ b @ 10 # (concat (map call_text calls) @ rest)" using c1(3) by simp
  have l1: "int (length [10 :: byte] + length b + 1) \<le> jcMaxBody c1" using f(2) c1(4) by (simp add: fits_def)
  obtain c2 where c2: "ReadRequestBody J rd body c1 = Some (bodyResult body b, c2)" "jc_ready c2"
      "jc_stream c2 = 10 # (concat (map call_text calls) @ rest)" "jcMaxBody c2 = jcMaxBody c1" "jcBuf c2 = jcBuf c1"
    using ReadRequestBody_text [OF assms(1) c1(2) _ ws(3) s1 l1, of body] f(2) by (auto simp: fits_def)
  have "jcMaxBody c2 = jcMaxBody c" using c1(4) c2(4) by simp
  then obtain c3 where c3: "serveReads J rd umReq bodies' c2 =
      Some (map2 (\<lambda>hb body. (umReq (fst hb), bodyResult body (snd hb))) calls bodies', c3)"
      "jc_ready c3" "jcMaxBody c3 = jcMaxBody c2" "jcBuf c3 = jcBuf c2"
    using Cons.IH [OF c2(2), of bodies' "[10]"] Cons.prems(2,3) c2(3) by (auto simp: bs)
  show ?case
    using c1 c2 c3 by (simp add: bs hb)
qed

end

subsection \<open>What an encoder writes\<close>

lemma jsonEncode_ok:
  assumes "writer_ok (jcBuf c)" "encErr (jcEnc c) = None"
  shows "\<exists>b. jsonEncode (Inr t) c = (None, c\<lparr>jcBuf := b\<rparr>) \<and> writer_ok b \<and> written b = written (jcBuf c) @ t @ [10]"
proof -
  have "encodeTo (bindR (Inr t) (\<lambda>t. Inr (t @ [10]))) (jcEnc c) (jcBuf c) = encodeTo (Inr (t @ [10])) (jcEnc c) (jcBuf c)"
    by simp
  then show ?thesis
    using encodeTo_ok [OF assms refl, of "t @ [10]"] by (auto simp: jsonEncode_def)
qed

lemma flushCodec_ok:
  "writer_ok (jcBuf c) \<Longrightarrow> \<exists>b. flushCodec c = (None, c\<lparr>jcBuf := b\<rparr>) \<and> writer_ok b \<and>
     written b = written (jcBuf c) \<and> snkOut (bwSink b) = written (jcBuf c)"
  using Flush_ok [of "jcBuf c"] by (auto simp: flushCodec_def written_def)

lemma WriteResponse_ok:
  assumes "writer_ok (jcBuf c)" "encErr (jcEnc c) = None"
  shows "\<exists>b. WriteResponse ce (Inr h) (Inr t) c = (None, c\<lparr>jcBuf := b\<rparr>) \<and> writer_ok b \<and>
    written b = written (jcBuf c) @ call_text (h, t) \<and> snkOut (bwSink b) = written b"
proof -
  obtain b1 where b1: "jsonEncode (Inr h) c = (None, c\<lparr>jcBuf := b1\<rparr>)" "writer_ok b1"
      "written b1 = written (jcBuf c) @ h @ [10]"
    using jsonEncode_ok [OF assms] by blast
  obtain b2 where b2: "jsonEncode (Inr t) (c\<lparr>jcBuf := b1\<rparr>) = (None, c\<lparr>jcBuf := b2\<rparr>)" "writer_ok b2"
      "written b2 = written b1 @ t @ [10]"
    using jsonEncode_ok [of "c\<lparr>jcBuf := b1\<rparr>" t] b1(2) assms(2) by auto
  obtain b3 where "flushCodec (c\<lparr>jcBuf := b2\<rparr>) = (None, c\<lparr>jcBuf := b3\<rparr>)" "writer_ok b3"
      "written b3 = written b2" "snkOut (bwSink b3) = written b2"
    using flushCodec_ok [of "c\<lparr>jcBuf := b2\<rparr>"] b2(2) by auto
  then show ?thesis
    using b1 b2 by (intro exI [of _ b3]) (simp add: WriteResponse_def call_text_def)
qed

lemma abortWrite_fails: "fst (abortWrite ce e c) = Some e"
  by (auto simp: abortWrite_def split: prod.splits option.splits)

lemma WriteRequest_eq:
  "fst (WriteResponse ce h t c) = None \<Longrightarrow> WriteRequest h t c = WriteResponse ce h t c"
  by (auto simp: WriteRequest_def WriteResponse_def abortWrite_fails split: prod.splits option.splits)

lemma WriteRequest_ok:
  assumes "writer_ok (jcBuf c)" "encErr (jcEnc c) = None"
  shows "\<exists>b. WriteRequest (Inr h) (Inr t) c = (None, c\<lparr>jcBuf := b\<rparr>) \<and> writer_ok b \<and>
    written b = written (jcBuf c) @ call_text (h, t) \<and> snkOut (bwSink b) = written b"
  using WriteResponse_ok [OF assms, of None h t] WriteRequest_eq [of None "Inr h" "Inr t" c] by auto

text \<open>All requests of a client, all responses of a server, one after the other.\<close>

primrec sendRequests :: "(bytes \<times> bytes) list \<Rightarrow> 's jsonCodec \<Rightarrow> err option list \<times> 's jsonCodec" where
  "sendRequests [] c = ([], c)"
| "sendRequests (hb # calls) c =
     (case WriteRequest (Inr (fst hb)) (Inr (snd hb)) c of
        (e, c1) \<Rightarrow> (case sendRequests calls c1 of (es, c2) \<Rightarrow> (e # es, c2)))"

primrec sendResponses :: "(bytes \<times> bytes) list \<Rightarrow> 's jsonCodec \<Rightarrow> err option list \<times> 's jsonCodec" where
  "sendResponses [] c = ([], c)"
| "sendResponses (hb # calls) c =
     (case WriteResponse None (Inr (fst hb)) (Inr (snd hb)) c of
        (e, c1) \<Rightarrow> (case sendResponses calls c1 of (es, c2) \<Rightarrow> (e # es, c2)))"

lemma sendRequests_ok:
  assumes "writer_ok (jcBuf c)" "encErr (jcEnc c) = None" "bwBuf (jcBuf c) = []"
  shows "\<exists>b. sendRequests calls c = (replicate (length calls) None, c\<lparr>jcBuf := b\<rparr>) \<and> writer_ok b \<and>
    snkOut (bwSink b) = snkOut (bwSink (jcBuf c)) @ concat (map call_text calls)"
  using assms
proof (induction calls arbitrary: c)
  case Nil
  then show ?case by (intro exI [of _ "jcBuf c"]) simp
next
  case (Cons hb calls)
  obtain b where b: "WriteRequest (Inr (fst hb)) (Inr (snd hb)) c = (None, c\<lparr>jcBuf := b\<rparr>)" "writer_ok b"
      "written b = written (jcBuf c) @ call_text hb" "snkOut (bwSink b) = written b"
    using WriteRequest_ok [OF Cons.prems(1,2), of "fst hb" "snd hb"] by auto
  have "bwBuf b = []" using b(4) by (simp add: written_def)
  then obtain b2 where b2: "sendRequests calls (c\<lparr>jcBuf := b\<rparr>) = (replicate (length calls) None, c\<lparr>jcBuf := b2\<rparr>)"
      "writer_ok b2" "snkOut (bwSink b2) = snkOut (bwSink b) @ concat (map call_text calls)"
    using Cons.IH [of "c\<lparr>jcBuf := b\<rparr>"] b(2) Cons.prems(2) by auto
  have "snkOut (bwSink b) = snkOut (bwSink (jcBuf c)) @ call_text hb"
    using b(3,4) Cons.prems(3) by (simp add: written_def [of "jcBuf c"])
  with b2 show ?case by (intro exI [of _ b2]) (simp add: b(1))
qed

lemma sendResponses_eq:
  assumes "writer_ok (jcBuf c)" "encErr (jcEnc c) = None" "bwBuf (jcBuf c) = []"
  shows "sendResponses calls c = sendRequests calls c"
  using assms
proof (induction calls arbitrary: c)
  case (Cons hb calls)
  obtain b where b: "WriteRequest (Inr (fst hb)) (Inr (snd hb)) c = (None, c\<lparr>jcBuf := b\<rparr>)" "writer_ok b"
      "snkOut (bwSink b) = written b"
    using WriteRequest_ok [OF Cons.prems(1,2), of "fst hb" "snd hb"] by auto
  have "WriteResponse None (Inr (fst hb)) (Inr (snd hb)) c = (None, c\<lparr>jcBuf := b\<rparr>)"
    using b(1) WriteResponse_ok [OF Cons.prems(1,2), of None "fst hb" "snd hb"]
      WriteRequest_eq [of None "Inr (fst hb)" "Inr (snd hb)" c] by auto
  moreover have "bwBuf b = []" using b(3) by (simp add: written_def)
  ultimately show ?case using b(1,2) Cons.IH [of "c\<lparr>jcBuf := b\<rparr>"] Cons.prems(2) by simp
qed simp

subsection \<open>Limits\<close>

context byte_source begin

lemma decodeMessage_total:
  assumes "json_lib_ok J" "jc_ready c"
  shows "\<exists>r c'. decodeMessage J rd um c = Some (r, c') \<and>
    (\<exists>t. length t + length (jdBuf (jcDec c')) \<le> length (jdBuf (jcDec c)) + nat (jcMaxBody c) \<and>
         (r = um t \<or> t = [] \<and> (\<exists>e. r = Inl e)))"
proof -
  let ?b = "resetBudget (jcMaxBody c) (jcBudget c)"
  obtain r buf' b' rest where rv: "readValue J (budgetRead rd) (jdBuf (jcDec c)) ?b = Some (r, buf', b')"
      "budget_content content ?b = drop (length (jdBuf (jcDec c))) buf' @ rest"
      "length (jdBuf (jcDec c)) \<le> length buf'"
    using byte_source.readValue_total [OF budget_frame_source assms(1) reset_frame [OF assms(2)]] by blast
  have "length (budget_content content ?b) \<le> nat (jcMaxBody c)" by (simp add: reset_content)
  then have l: "length buf' \<le> length (jdBuf (jcDec c)) + nat (jcMaxBody c)" using rv(2,3) by simp
  have d: "jdErr (jcDec c) = None" using assms(2) by (simp add: jc_ready_def)
  show ?thesis
  proof (cases r)
    case (Inl e)
    then show ?thesis using l
      by (intro exI conjI exI [of _ "[]"]) (auto simp: decodeMessage_def decodeText_def d rv(1))
  next
    case (Inr n)
    have "length (dropWhile is_space (take n buf')) \<le> length (take n buf')" by (rule length_dropWhile_le)
    moreover have "length (take n buf') + length (drop n buf') = length buf'" by simp
    ultimately have "length (dropWhile is_space (take n buf')) + length (drop n buf') \<le> length buf'" by linarith
    then show ?thesis using Inr l
      by (intro exI conjI [rotated] exI [of _ "dropWhile is_space (take n buf')"])
        (auto simp: decodeMessage_def decodeText_def d rv(1))
  qed
qed

lemma decodeMessage_too_large:
  assumes "json_lib_ok J" "jc_ready c"
    and "nat (jcMaxBody c) \<le> length (content (bgSrc (jcBudget c)))"
    and "jScan J (jdBuf (jcDec c) @ take (nat (jcMaxBody c)) (content (bgSrc (jcBudget c)))) = More"
  shows "\<exists>c'. decodeMessage J rd um c = Some (Inl ErrBodyTooLarge, c') \<and>
    jdErr (jcDec c') = Some ErrBodyTooLarge"
proof -
  let ?b = "resetBudget (jcMaxBody c) (jcBudget c)"
  have f: "budget_final content final ?b = ErrBodyTooLarge"
    using assms(2,3) by (simp add: budget_final_def resetBudget_def jc_ready_def nat_le_iff)
  have m: "jScan J (jdBuf (jcDec c) @ budget_content content ?b) = More"
    using assms(4) by (simp add: reset_content)
  have "atReadError J (jdBuf (jcDec c) @ budget_content content ?b) ErrBodyTooLarge = Inl ErrBodyTooLarge"
    by (simp add: atReadError_def m) (simp add: ErrBodyTooLarge_def)
  moreover obtain b' where "readValue J (budgetRead rd) (jdBuf (jcDec c)) ?b =
      Some (atReadError J (jdBuf (jcDec c) @ budget_content content ?b) (budget_final content final ?b),
        jdBuf (jcDec c) @ budget_content content ?b, b')"
    using byte_source.readValue_starves [OF budget_frame_source assms(1) reset_frame [OF assms(2)] m] by blast
  ultimately show ?thesis
    using assms(2) by (simp add: decodeMessage_def decodeText_def f jc_ready_def)
qed

end


lemma newCodec_ready:
  "byte_source rd content final ok \<Longrightarrow> ok conn \<Longrightarrow>
     byte_source.jc_ready ok (newJSONServerCodec buf conn m) \<and>
     byte_source.jc_stream content (newJSONServerCodec buf conn m) = content conn"
  by (simp add: byte_source.jc_ready_def byte_source.jc_stream_def newJSONServerCodec_def newDecoder_def
      effectiveMaxBody_def DefaultMaxJSONBody_def Let_def)

lemma newCodec_client: "newJSONClientCodec = newJSONServerCodec"
  by (intro ext) (simp add: newJSONClientCodec_def newJSONServerCodec_def)

lemma newCodec_simps [simp]:
  "jcMaxBody (newJSONServerCodec buf conn m) = effectiveMaxBody m"
  "jcBuf (newJSONServerCodec buf conn m) = buf"
  "jcEnc (newJSONServerCodec buf conn m) = newEncoder"
  by (simp_all add: newJSONServerCodec_def Let_def)

subsection \<open>A JSON grammar for the witnesses\<close>

text \<open>Objects without nesting and without strings that hold a brace.\<close>

fun brace_scan :: "nat \<Rightarrow> bytes \<Rightarrow> scan_result" where
  "brace_scan n [] = More"
| "brace_scan n (c # cs) = (if c = 125 then Complete (Suc n) else brace_scan (Suc n) cs)"

definition brace_lib :: json_lib where
  "brace_lib = \<lparr>jScan = brace_scan 0, jRoom = (\<lambda>_. 512), jCheck = (\<lambda>_. None)\<rparr>"

lemma brace_scan_Complete:
  "brace_scan k b = Complete n \<Longrightarrow> k < n \<and> n \<le> k + length b \<and> brace_scan k (b @ c) = Complete n"
proof (induction b arbitrary: k)
  case (Cons x xs)
  show ?case
  proof (cases "x = 125")
    case False
    with Cons.prems have "brace_scan (Suc k) xs = Complete n" by simp
    from Cons.IH [OF this] False show ?thesis by simp
  qed (use Cons.prems in simp)
qed simp

lemma brace_scan_shift: "brace_scan k b = Complete n \<Longrightarrow> brace_scan (Suc k) b = Complete (Suc n)"
  by (induction k b rule: brace_scan.induct) (auto split: if_splits)

lemma brace_scan_not_Bad: "brace_scan k b \<noteq> Bad e"
  by (induction k b rule: brace_scan.induct) auto

lemma brace_lib_ok: "json_lib_ok brace_lib"
  using brace_scan_Complete [of 0]
  by (auto simp: json_lib_ok_def brace_lib_def is_space_def brace_scan_not_Bad brace_scan_shift)

definition braces :: "bytes \<Rightarrow> bytes" where
  "braces b = 123 # b @ [125]"

lemma brace_text: "125 \<notin> set b \<Longrightarrow> json_text brace_lib (braces b)"
proof -
  assume "125 \<notin> set b"
  then have "brace_scan k (b @ 125 # c) = Complete (Suc (k + length b))" for k c
    by (induction b arbitrary: k) auto
  then show ?thesis by (simp add: json_text_def braces_def brace_lib_def is_space_def)
qed

subsection \<open>Properties\<close>

text \<open>
  C38: what a server writes the client reads. When the connection takes the bytes, all
  \<open>WriteResponse\<close> calls succeed, and if the peer receives these bytes, cut into pieces in any
  way, reading header and body of each response gives exactly what unmarshalling the sent texts
  gives, in order: a body that is thrown away, or one that does not unmarshal, does not
  disturb the next message. Each message must fit the budget with the two newlines around it.
\<close>

theorem json_responses_roundtrip:
  fixes srv srv' :: "'s jsonCodec"
  assumes "json_lib_ok J" and "length calls = length bodies"
    and "\<forall>(h, b) \<in> set calls. fits J (effectiveMaxBody m) h \<and> fits J (effectiveMaxBody m) b"
    and "srv = newJSONServerCodec (newWriter \<lparr>snkOut = [], snkLimit = None\<rparr>) x m'"
    and "sendResponses calls srv = (errs, srv')"
    and "conn_ok arrivals" and "conn_content arrivals = snkOut (bwSink (jcBuf srv'))"
  shows "errs = replicate (length calls) None \<and>
    (\<exists>c'. clientReads J connRead umRes bodies (newJSONClientCodec w arrivals m) =
      Some (map2 (\<lambda>hb body. (umRes (fst hb), bodyResult body (snd hb))) calls bodies, c'))"
proof -
  have w: "writer_ok (jcBuf srv)" "encErr (jcEnc srv) = None" "bwBuf (jcBuf srv) = []"
      "snkOut (bwSink (jcBuf srv)) = []"
    by (simp_all add: assms(4) newWriter_def writer_ok_def newEncoder_def)
  have e: "errs = replicate (length calls) None" "snkOut (bwSink (jcBuf srv')) = concat (map call_text calls)"
    using sendRequests_ok [OF w(1-3), of calls] sendResponses_eq [OF w(1-3), of calls] assms(5) w(4) by auto
  have c: "cn.jc_ready (newJSONServerCodec w arrivals m)"
      "cn.jc_stream (newJSONServerCodec w arrivals m) = [] @ concat (map call_text calls) @ []"
    using newCodec_ready [OF cn.byte_source_axioms assms(6), of w m] assms(7) e(2) by simp_all
  show ?thesis
    using cn.serveReads_texts [OF assms(1) c(1) assms(2) _ _ c(2), of umRes] assms(3) e(1)
    by (auto simp: clientReads_eq newCodec_client)
qed

theorem json_responses_roundtrip_witness:
  "\<exists>errs srv' c'. sendResponses [(braces [1], braces [2])]
     (newJSONServerCodec (newWriter \<lparr>snkOut = [], snkLimit = None\<rparr>) () 0) = (errs, srv') \<and>
   clientReads brace_lib connRead Inr [Some Inr]
     (newJSONClientCodec (newWriter \<lparr>snkOut = [], snkLimit = None\<rparr>)
       [Piece [123, 1], Piece [125, 10, 123], Piece [2, 125], Piece [10]] 0) =
     Some ([(Inr (braces [1]), Inr (Some (braces [2])))], c')"
proof -
  let ?srv = "newJSONServerCodec (newWriter \<lparr>snkOut = [], snkLimit = None\<rparr>) () 0"
  let ?arr = "[Piece [123, 1], Piece [125, 10, 123], Piece [2, 125], Piece [10]] :: conn"
  obtain errs srv' where s: "sendResponses [(braces [1], braces [2])] ?srv = (errs, srv')"
    by (metis prod.exhaust)
  have w: "writer_ok (jcBuf ?srv)" "encErr (jcEnc ?srv) = None" "bwBuf (jcBuf ?srv) = []"
    by (simp_all add: newWriter_def writer_ok_def newEncoder_def)
  have o: "snkOut (bwSink (jcBuf srv')) = call_text (braces [1], braces [2])"
    using sendRequests_ok [OF w, of "[(braces [1], braces [2])]"] sendResponses_eq [OF w] s
    by (auto simp: newWriter_def)
  have f: "fits brace_lib (effectiveMaxBody 0) (braces [1])" "fits brace_lib (effectiveMaxBody 0) (braces [2])"
    using brace_text [of "[1]"] brace_text [of "[2]"]
    by (simp_all add: fits_def effectiveMaxBody_def DefaultMaxJSONBody_def braces_def)
  have "conn_ok ?arr" "conn_content ?arr = snkOut (bwSink (jcBuf srv'))"
    by (simp_all add: conn_ok_def o call_text_def braces_def)
  from json_responses_roundtrip [OF brace_lib_ok _ _ refl s this,
      of "[Some Inr]" 0 Inr "newWriter \<lparr>snkOut = [], snkLimit = None\<rparr>"] f s
  show ?thesis by (auto simp: bodyResult_def)
qed



text \<open>
  A response that cannot be encoded is not left half-sent on a live connection. If the
  header or the body does not marshal while the connection works, the error is returned and
  the connection is closed, exactly once however often the codec is closed afterwards.
\<close>

theorem json_WriteResponse_failure:
  assumes "writer_ok (jcBuf c)" and "encErr (jcEnc c) = None" and "\<not> jcClosed c"
    and "hdr = Inl e \<or> (\<exists>h. hdr = Inr h \<and> body = Inl e)"
    and "WriteResponse closeErr hdr body c = (r, c')"
  shows "r = Some e \<and> jcClosed c' \<and> jcCloses c' = Suc (jcCloses c) \<and>
    CloseServer closeErr c' = (None, c') \<and> bwBuf (jcBuf c') = []"
proof -
  have ab: "abortWrite closeErr e d = (r', d') \<Longrightarrow> r' = Some e \<and> jcClosed d' \<and> jcCloses d' = Suc (jcCloses d) \<and>
      bwBuf (jcBuf d') = []" if "writer_ok (jcBuf d)" "\<not> jcClosed d" for d d' :: "'a jsonCodec" and r'
    using Flush_ok [OF that(1)] that(2) by (auto simp: abortWrite_def flushCodec_def CloseServer_def)
  from assms(4) consider (hdr) "hdr = Inl e" | (body) h where "hdr = Inr h" "body = Inl e" by blast
  then have "r = Some e \<and> jcClosed c' \<and> jcCloses c' = Suc (jcCloses c) \<and> bwBuf (jcBuf c') = []"
  proof cases
    case hdr
    then have "abortWrite closeErr e c = (r, c')"
      using assms(2,5) by (simp add: WriteResponse_def jsonEncode_def encodeTo_fails)
    then show ?thesis using ab [OF assms(1,3)] by blast
  next
    case body
    obtain b where b: "jsonEncode (Inr h) c = (None, c\<lparr>jcBuf := b\<rparr>)" "writer_ok b"
      using jsonEncode_ok [OF assms(1,2)] by blast
    then have "abortWrite closeErr e (c\<lparr>jcBuf := b\<rparr>) = (r, c')"
      using assms(2,5) body by (simp add: WriteResponse_def) (simp add: jsonEncode_def encodeTo_fails)
    then show ?thesis using ab [of "c\<lparr>jcBuf := b\<rparr>"] b(2) assms(3) by auto
  qed
  then show ?thesis by (simp add: CloseServer_def)
qed

theorem json_WriteResponse_failure_witness:
  "jcClosed (snd (WriteResponse None (Inr (braces [1])) (Inl (New ''unsupported type''))
     (newJSONServerCodec (newWriter \<lparr>snkOut = [], snkLimit = None\<rparr>) () 0)))"
proof -
  let ?c = "newJSONServerCodec (newWriter \<lparr>snkOut = [], snkLimit = None\<rparr>) () 0"
  have c: "writer_ok (jcBuf ?c)" "encErr (jcEnc ?c) = None" "\<not> jcClosed ?c"
    by (simp_all add: newWriter_def writer_ok_def newEncoder_def newJSONServerCodec_def Let_def)
  obtain r c' where w: "WriteResponse None (Inr (braces [1])) (Inl (New ''unsupported type'')) ?c = (r, c')"
    by (metis prod.exhaust)
  show ?thesis using json_WriteResponse_failure [OF c _ w] w by simp
qed

end
