(* ===== verification/GobBlob.thy ===== *)
theory GobBlob
  imports GoBufio
begin

text \<open>
  \<open>io.ReadFull\<close>, and the framing of \<open>encoding/gob\<close>: length-prefixed messages, type definitions
  before the value that needs them, and the message of a \<open>[]byte\<close> value. What the body of a
  message means to a decoder that has seen some type definitions is an argument (\<open>gob_interp\<close>):
  one more type definition, the value, or an error.
\<close>

partial_function (option) readLoop ::
  "'s reader \<Rightarrow> nat \<Rightarrow> bytes \<Rightarrow> 's \<Rightarrow> ((bytes \<times> err option) \<times> 's) option" where
  "readLoop rd n got s =
     (if n \<le> length got then Some ((got, None), s)
      else case rd (n - length got) s of (de, s') \<Rightarrow>
        (case snd de of
           None \<Rightarrow> readLoop rd n (got @ fst de) s'
         | Some x \<Rightarrow> Some ((got @ fst de, Some x), s')))"

declare readLoop.simps [code]

definition ReadFull :: "'s reader \<Rightarrow> nat \<Rightarrow> 's \<Rightarrow> ((err + bytes) \<times> 's) option" where
  "ReadFull rd n s =
     (case readLoop rd n [] s of
        None \<Rightarrow> None
      | Some ((got, e), s') \<Rightarrow>
          Some (if n \<le> length got then Inr got
                else case e of
                       None \<Rightarrow> Inr got
                     | Some x \<Rightarrow> Inl (if got \<noteq> [] \<and> x = EOF then ErrUnexpectedEOF else x), s'))"

context byte_source begin

lemma readLoop_total:
  assumes "ok s"
  shows "\<exists>got e s'. readLoop rd n acc s = Some ((got, e), s') \<and> (n \<le> length got \<or> e \<noteq> None)"
  using assms
proof (induction "length (content s)" arbitrary: acc s rule: less_induct)
  case less
  show ?case
  proof (cases "n \<le> length acc")
    case True
    then show ?thesis by (subst readLoop.simps) simp
  next
    case False
    obtain b e s' where r: "rd (n - length acc) s = ((b, e), s')" by (metis prod.exhaust)
    show ?thesis
    proof (cases e)
      case (Some x)
      then show ?thesis using False r by (subst readLoop.simps) simp
    next
      case None
      then have b: "b \<noteq> []" "content s = b @ content s'" "ok s'"
        using rd_progress [OF less.prems, of "n - length acc"] rd_more [OF less.prems] r False by auto
      then have "length (content s') < length (content s)" by simp
      from less.hyps [OF this b(3), of "acc @ b"] show ?thesis
        using False r None by (subst readLoop.simps) simp
    qed
  qed
qed

lemma readLoop_enough:
  assumes "ok s" "length acc \<le> n" "n \<le> length acc + length (content s)"
  shows "\<exists>s'. readLoop rd n acc s = Some ((acc @ take (n - length acc) (content s), None), s') \<and>
    content s' = drop (n - length acc) (content s) \<and> final s' = final s \<and> ok s'"
  using assms
proof (induction "length (content s)" arbitrary: acc s rule: less_induct)
  case less
  show ?case
  proof (cases "n \<le> length acc")
    case True
    then show ?thesis using less.prems by (subst readLoop.simps) simp
  next
    case False
    obtain b e s' where r: "rd (n - length acc) s = ((b, e), s')" by (metis prod.exhaust)
    have e: "e = None" using rd_last [OF less.prems(1)] r False less.prems(3) by (cases e) auto
    have b: "b \<noteq> []" "content s = b @ content s'" "final s' = final s" "ok s'" "length b \<le> n - length acc"
      using rd_progress [OF less.prems(1), of "n - length acc"] rd_more [OF less.prems(1)] rd_length [OF r] r False e
      by auto
    then have l: "length (content s') < length (content s)" by simp
    have "readLoop rd n acc s = readLoop rd n (acc @ b) s'"
      using False r e by (subst readLoop.simps) simp
    moreover have "take (n - length acc) (content s) = b @ take (n - length (acc @ b)) (content s')"
        "drop (n - length acc) (content s) = drop (n - length (acc @ b)) (content s')"
      using b(5) False by (simp_all add: b(2))
    ultimately show ?thesis
      using less.hyps [OF l b(4), of "acc @ b"] less.prems(3) b False by simp
  qed
qed

lemma ReadFull_enough:
  assumes "ok s" "n \<le> length (content s)"
  shows "\<exists>s'. ReadFull rd n s = Some (Inr (take n (content s)), s') \<and>
    content s' = drop n (content s) \<and> final s' = final s \<and> ok s'"
  using readLoop_enough [OF assms(1), of "[]" n] assms(2) by (auto simp: ReadFull_def)

lemma ReadFull_total: "ok s \<Longrightarrow> \<exists>r s'. ReadFull rd n s = Some (r, s')"
  using readLoop_total [of s n "[]"] by (auto simp: ReadFull_def)

end

subsection \<open>Unsigned integers\<close>

fun be_bytes :: "nat \<Rightarrow> bytes" where
  "be_bytes n = (if n < 256 then [of_nat n] else be_bytes (n div 256) @ [of_nat (n mod 256)])"

declare be_bytes.simps [simp del]

definition be_value :: "bytes \<Rightarrow> nat" where
  "be_value bs = foldl (\<lambda>v b. v * 256 + unat b) 0 bs"

definition gobUint :: "nat \<Rightarrow> bytes" where
  "gobUint n = (if n \<le> 127 then [of_nat n] else of_nat (256 - length (be_bytes n)) # be_bytes n)"

definition errBadUint :: err where
  "errBadUint = New ''gob: encoded unsigned integer out of range''"

definition errBadCount :: err where
  "errBadCount = New ''invalid message length''"

definition noEOF :: "err \<Rightarrow> err" where
  "noEOF e = (if e = EOF then ErrUnexpectedEOF else e)"

definition decodeUintReader :: "'s reader \<Rightarrow> 's \<Rightarrow> ((err + nat) \<times> 's) option" where
  "decodeUintReader rd s =
     (case ReadFull rd 1 s of
        None \<Rightarrow> None
      | Some (Inl e, s1) \<Rightarrow> Some (Inl e, s1)
      | Some (Inr b, s1) \<Rightarrow>
          (let x = unat (hd b) in
           if x \<le> 127 then Some (Inr x, s1)
           else if 256 - x > 8 then Some (Inl errBadUint, s1)
           else case ReadFull rd (256 - x) s1 of
                  None \<Rightarrow> None
                | Some (Inl e, s2) \<Rightarrow> Some (Inl (noEOF e), s2)
                | Some (Inr w, s2) \<Rightarrow> Some (Inr (be_value w), s2)))"

lemma be_value_append: "be_value (xs @ [b]) = be_value xs * 256 + unat b"
  by (simp add: be_value_def)

lemma unat_byte: "n < 256 \<Longrightarrow> unat (of_nat n :: byte) = n"
  by (simp add: unat_of_nat)

lemma be_value_bytes [simp]: "be_value (be_bytes n) = n"
proof (induction n rule: be_bytes.induct)
  case (1 n)
  show ?case
  proof (cases "n < 256")
    case True
    then show ?thesis by (subst be_bytes.simps) (simp add: be_value_def unat_byte)
  next
    case False
    then show ?thesis using 1 by (subst be_bytes.simps) (simp add: be_value_append unat_byte)
  qed
qed

lemma be_bytes_length: "n < 256 ^ Suc k \<Longrightarrow> 1 \<le> length (be_bytes n) \<and> length (be_bytes n) \<le> Suc k"
proof (induction k arbitrary: n)
  case 0
  then show ?case by (subst be_bytes.simps, subst be_bytes.simps) simp
next
  case (Suc k)
  show ?case
  proof (cases "n < 256")
    case True
    then have "be_bytes n = [of_nat n]" by (subst be_bytes.simps) simp
    then show ?thesis by simp
  next
    case False
    have "n div 256 < 256 ^ Suc k" using Suc.prems by (simp add: less_mult_imp_div_less mult.commute)
    moreover have "be_bytes n = be_bytes (n div 256) @ [of_nat (n mod 256)]"
      using False by (subst be_bytes.simps) simp
    ultimately show ?thesis using Suc.IH [of "n div 256"] by simp
  qed
qed

context byte_source begin

lemma decodeUintReader_gobUint:
  assumes "ok s" "content s = gobUint n @ rest" "n < 2 ^ 64"
  shows "\<exists>s'. decodeUintReader rd s = Some (Inr n, s') \<and> content s' = rest \<and> final s' = final s \<and> ok s'"
proof (cases "n \<le> 127")
  case True
  then have g: "gobUint n = [of_nat n]" by (simp add: gobUint_def)
  obtain s1 where "ReadFull rd 1 s = Some (Inr [of_nat n], s1)" "content s1 = rest" "final s1 = final s" "ok s1"
    using ReadFull_enough [OF assms(1), of 1] assms(2) g by auto
  with True show ?thesis by (simp add: decodeUintReader_def unat_byte Let_def)
next
  case False
  have l: "1 \<le> length (be_bytes n)" "length (be_bytes n) \<le> 8" using be_bytes_length [of n 7] assms(3) by auto
  define k where "k = length (be_bytes n)"
  define x :: byte where "x = of_nat (256 - k)"
  have g: "gobUint n = x # be_bytes n" using False by (simp add: gobUint_def k_def x_def)
  have u: "unat x = 256 - k" unfolding x_def using l by (intro unat_byte) (simp add: k_def)
  obtain s1 where s1: "ReadFull rd 1 s = Some (Inr [x], s1)" "content s1 = be_bytes n @ rest"
      "final s1 = final s" "ok s1"
    using ReadFull_enough [OF assms(1), of 1] assms(2) g by auto
  obtain s2 where "ReadFull rd k s1 = Some (Inr (be_bytes n), s2)" "content s2 = rest" "final s2 = final s1" "ok s2"
    using ReadFull_enough [OF s1(4), of k] s1(2) by (auto simp: k_def)
  moreover have "\<not> 256 - k \<le> 127" using l(2) by (simp add: k_def)
  ultimately show ?thesis using s1 l by (simp add: decodeUintReader_def u Let_def k_def [symmetric])
qed

end

subsection \<open>Messages\<close>

datatype 'v gob_body = GobValue 'v | GobType | GobErr err

type_synonym 'v gob_interp = "bytes list \<Rightarrow> bytes \<Rightarrow> 'v gob_body"

text \<open>The body of the message of a \<open>[]byte\<close>: its type id, the zero delta, length and bytes.\<close>

definition bytesBody :: "bytes \<Rightarrow> bytes" where
  "bytesBody b = 10 # 0 # gobUint (length b) @ b"

definition gobMessage :: "bytes \<Rightarrow> bytes" where
  "gobMessage body = gobUint (length body) @ body"

definition gobEncodeBytes :: "bytes \<Rightarrow> bytes" where
  "gobEncodeBytes b = gobMessage (bytesBody b)"

definition tooBig :: nat where
  "tooBig = 2 ^ 33"

text \<open>The interpretation of a decoder whose target is a \<open>[]byte\<close>.\<close>

definition gob_bytes_ok :: "bytes gob_interp \<Rightarrow> bool" where
  "gob_bytes_ok G \<longleftrightarrow> (\<forall>ts b. length b < tooBig \<longrightarrow> G ts (bytesBody b) = GobValue b)"

definition recvMessage :: "'s reader \<Rightarrow> 's \<Rightarrow> ((err + bytes) \<times> 's) option" where
  "recvMessage rd s =
     (case decodeUintReader rd s of
        None \<Rightarrow> None
      | Some (Inl e, s1) \<Rightarrow> Some (Inl e, s1)
      | Some (Inr n, s1) \<Rightarrow>
          if tooBig \<le> n then Some (Inl errBadCount, s1)
          else case ReadFull rd n s1 of
                 None \<Rightarrow> None
               | Some (Inl e, s2) \<Rightarrow> Some (Inl (noEOF e), s2)
               | Some (Inr body, s2) \<Rightarrow> Some (Inr body, s2))"

text \<open>
  \<open>Decode\<close>: \<open>first\<close> says that no type definition has been read in this call; the result holds
  the type definitions seen so far.
\<close>

partial_function (option) gobDecode ::
  "'v gob_interp \<Rightarrow> 's reader \<Rightarrow> bool \<Rightarrow> bytes list \<Rightarrow> 's \<Rightarrow> ((err + 'v) \<times> bytes list \<times> 's) option" where
  "gobDecode G rd first types s =
     (case recvMessage rd s of
        None \<Rightarrow> None
      | Some (r, s1) \<Rightarrow>
          (case r of
             Inl e \<Rightarrow> Some (Inl (if first then e else noEOF e), types, s1)
           | Inr body \<Rightarrow>
               (case G types body of
                  GobValue v \<Rightarrow> Some (Inr v, types, s1)
                | GobErr e \<Rightarrow> Some (Inl e, types, s1)
                | GobType \<Rightarrow> gobDecode G rd False (types @ [body]) s1)))"

declare gobDecode.simps [code]

text \<open>
  A decoder made for one \<open>[]byte\<close>: \<open>gob.NewDecoder\<close> puts a \<open>bufio.Reader\<close> on a reader that
  cannot give single bytes.
\<close>

definition gobDecodeFresh :: "bytes gob_interp \<Rightarrow> 's reader \<Rightarrow> 's \<Rightarrow> ((err + bytes) \<times> 's) option" where
  "gobDecodeFresh G rd s =
     (case gobDecode G (bufRead rd) True [] (newBufio s) of
        None \<Rightarrow> None
      | Some (r, _, b) \<Rightarrow> Some (r, bioSrc b))"

text \<open>Type definitions and then the value, as an encoder sends them.\<close>

fun typed_by :: "'v gob_interp \<Rightarrow> bytes list \<Rightarrow> bytes list \<Rightarrow> bytes \<Rightarrow> 'v \<Rightarrow> bool" where
  "typed_by G types [] body v \<longleftrightarrow> G types body = GobValue v \<and> length body < tooBig"
| "typed_by G types (t # ts) body v \<longleftrightarrow>
     G types t = GobType \<and> length t < tooBig \<and> typed_by G (types @ [t]) ts body v"

context byte_source begin

lemma recvMessage_message:
  assumes "ok s" "content s = gobMessage body @ rest" "length body < tooBig"
  shows "\<exists>s'. recvMessage rd s = Some (Inr body, s') \<and> content s' = rest \<and> final s' = final s \<and> ok s'"
proof -
  have l: "length body < 2 ^ 64" using assms(3) by (simp add: tooBig_def)
  obtain s1 where s1: "decodeUintReader rd s = Some (Inr (length body), s1)"
      "content s1 = body @ rest" "final s1 = final s" "ok s1"
    using decodeUintReader_gobUint [OF assms(1) _ l, of "body @ rest"] assms(2)
    by (auto simp: gobMessage_def)
  obtain s2 where s2: "ReadFull rd (length body) s1 = Some (Inr body, s2)"
      "content s2 = rest" "final s2 = final s1" "ok s2"
    using ReadFull_enough [OF s1(4), of "length body"] s1(2) by auto
  show ?thesis using s1 s2 assms(3) by (simp add: recvMessage_def)
qed

lemma gobDecode_value:
  assumes "ok s" "content s = concat (map gobMessage defs) @ gobMessage body @ rest"
    and "typed_by G types defs body v"
  shows "\<exists>s'. gobDecode G rd first types s = Some (Inr v, types @ defs, s') \<and>
    content s' = rest \<and> final s' = final s \<and> ok s'"
  using assms
proof (induction defs arbitrary: s types first)
  case Nil
  then obtain s1 where "recvMessage rd s = Some (Inr body, s1)" "content s1 = rest" "final s1 = final s" "ok s1"
    using recvMessage_message [of s body rest] by auto
  then show ?case using Nil.prems(3) by (subst gobDecode.simps) simp
next
  case (Cons t ts)
  then obtain s1 where s1: "recvMessage rd s = Some (Inr t, s1)"
      "content s1 = concat (map gobMessage ts) @ gobMessage body @ rest" "final s1 = final s" "ok s1"
    using recvMessage_message [of s t] by auto
  have "gobDecode G rd first types s = gobDecode G rd False (types @ [t]) s1"
    using s1(1) Cons.prems(3) by (subst gobDecode.simps) simp
  then show ?case using Cons.IH [OF s1(4,2), of "types @ [t]" False] Cons.prems(3) s1(3) by auto
qed

lemma gobDecode_bytes:
  assumes "gob_bytes_ok G" "ok s" "content s = gobEncodeBytes b @ rest" "length (bytesBody b) < tooBig"
  shows "\<exists>s'. gobDecode G rd first types s = Some (Inr b, types, s') \<and> content s' = rest \<and>
    final s' = final s \<and> ok s'"
  using gobDecode_value [OF assms(2), of "[]" "bytesBody b" rest G types b] assms(1,3,4)
  by (simp add: gobEncodeBytes_def gob_bytes_ok_def bytesBody_def)

end

text \<open>
  An interpretation with the property, for the witnesses: the body of a \<open>[]byte\<close> is parsed, all
  other bodies are refused.
\<close>

definition plain_gob :: "bytes gob_interp" where
  "plain_gob _ m =
     (case decodeUintReader bytesRead (drop 2 m) of
       Some (Inr n, b) \<Rightarrow> if take 2 m = [10, 0] \<and> length b = n then GobValue b else GobErr (New ''gob'')
     | _ \<Rightarrow> GobErr (New ''gob''))"

lemma plain_gob_body: "length b < 2 ^ 64 \<Longrightarrow> plain_gob ts (bytesBody b) = GobValue b"
  using byr.decodeUintReader_gobUint [of "gobUint (length b) @ b" "length b" b]
  by (auto simp: plain_gob_def bytesBody_def)

lemma plain_gob_ok: "gob_bytes_ok plain_gob"
  by (auto simp: gob_bytes_ok_def tooBig_def intro: plain_gob_body)

end
