(* ===== verification/RpcCrypto.thy ===== *)
theory RpcCrypto
  imports GoErrors
begin

text \<open>
  The encryption of message bodies: \<open>Crypto\<close>, \<open>normalizeKey\<close>, \<open>newCrypto\<close>, \<open>Encrypt\<close> and
  \<open>Decrypt\<close> of \<open>v3/codec/json_crypto_codec.go\<close> and of \<open>v2/codec/crypto.go\<close> (the names of the
  latter end in 2). SHA-256 and the two GCM operations are arguments (\<open>crypto_lib\<close>); what the
  source relies on is \<open>crypto_lib_ok\<close>. The random source is an argument too: it is asked for a
  number of bytes and gives them or an error.
\<close>

record crypto_lib =
  Sum256 :: "bytes \<Rightarrow> bytes"
  gcmSeal :: "bytes \<Rightarrow> bytes \<Rightarrow> bytes \<Rightarrow> bytes"
  gcmOpen :: "bytes \<Rightarrow> bytes \<Rightarrow> bytes \<Rightarrow> bytes option"

definition aes_key_sizes :: "nat set" where
  "aes_key_sizes = {16, 24, 32}"

definition gcmNonceSize :: nat where
  "gcmNonceSize = 12"

definition gcmTagSize :: nat where
  "gcmTagSize = 16"

text \<open>
  A digest has 32 bytes; \<open>Open\<close> gives back what \<open>Seal\<close> sealed, and nothing else, since the tag
  is a function of key, nonce and ciphertext; \<open>Seal\<close> adds the tag to the ciphertext.
\<close>

definition crypto_lib_ok :: "crypto_lib \<Rightarrow> bool" where
  "crypto_lib_ok L \<longleftrightarrow>
     (\<forall>k. length (Sum256 L k) = 32) \<and>
     (\<forall>k n p. length k \<in> aes_key_sizes \<longrightarrow> length n = gcmNonceSize \<longrightarrow>
        length (gcmSeal L k n p) = length p + gcmTagSize \<and>
        gcmOpen L k n (gcmSeal L k n p) = Some p) \<and>
     (\<forall>k n c p. length k \<in> aes_key_sizes \<longrightarrow> length n = gcmNonceSize \<longrightarrow>
        gcmOpen L k n c = Some p \<longrightarrow> c = gcmSeal L k n p)"

definition rand_ok :: "(nat \<Rightarrow> err + bytes) \<Rightarrow> bool" where
  "rand_ok rnd \<longleftrightarrow> (\<forall>n b. rnd n = Inr b \<longrightarrow> length b = n)"

text \<open>\<open>aes.NewCipher\<close>, the block being its key, and \<open>cipher.NewGCM\<close> on an AES block.\<close>

definition aesNewCipher :: "bytes \<Rightarrow> err + bytes" where
  "aesNewCipher k =
     (if length k \<in> aes_key_sizes then Inr k
      else Inl (Errorf ''crypto/aes: invalid key size %d'' [AInt (int (length k))] None))"

definition aesBlockSize :: nat where
  "aesBlockSize = 16"

definition NewGCM :: "bytes \<Rightarrow> err + bytes" where
  "NewGCM block =
     (if aesBlockSize \<noteq> 16 then Inl (New ''cipher: NewGCM requires 128-bit block cipher'')
      else Inr block)"

definition authFailed :: err where
  "authFailed = New ''cipher: message authentication failed''"

record Crypto =
  crGcm :: bytes
  crNonceSize :: nat

definition normalizeKey :: "crypto_lib \<Rightarrow> bytes \<Rightarrow> bytes" where
  "normalizeKey L key =
     (if length key = 16 \<or> length key = 24 \<or> length key = 32 then key else Sum256 L key)"

definition newCrypto :: "crypto_lib \<Rightarrow> bytes \<Rightarrow> err + Crypto" where
  "newCrypto L key =
     (case aesNewCipher (normalizeKey L key) of
        Inl e \<Rightarrow> Inl (Errorf ''rpc: create cipher: %w'' [] (Some e))
      | Inr block \<Rightarrow>
          (case NewGCM block of
             Inl e \<Rightarrow> Inl (Errorf ''rpc: create gcm: %w'' [] (Some e))
           | Inr gcm \<Rightarrow> Inr \<lparr>crGcm = gcm, crNonceSize = gcmNonceSize\<rparr>))"

definition Encrypt :: "crypto_lib \<Rightarrow> (nat \<Rightarrow> err + bytes) \<Rightarrow> Crypto \<Rightarrow> bytes \<Rightarrow> err + bytes" where
  "Encrypt L rnd c plaintext =
     (case rnd (crNonceSize c) of
        Inl e \<Rightarrow> Inl (Errorf ''rpc: nonce generate: %w'' [] (Some e))
      | Inr nonce \<Rightarrow> Inr (nonce @ gcmSeal L (crGcm c) nonce plaintext))"

definition Decrypt :: "crypto_lib \<Rightarrow> Crypto \<Rightarrow> bytes \<Rightarrow> err + bytes" where
  "Decrypt L c ciphertext =
     (if length ciphertext < crNonceSize c then Inl (Errorf ''rpc: ciphertext is too short'' [] None)
      else case gcmOpen L (crGcm c) (take (crNonceSize c) ciphertext) (drop (crNonceSize c) ciphertext) of
             None \<Rightarrow> Inl authFailed
           | Some p \<Rightarrow> Inr p)"

subsection \<open>The v2 copy\<close>

text \<open>\<open>Inl\<close> is the value of the panic of \<open>randBytes\<close>.\<close>

definition normalizeKey2 :: "crypto_lib \<Rightarrow> bytes \<Rightarrow> bytes" where
  "normalizeKey2 L key =
     (if length key = 16 \<or> length key = 24 \<or> length key = 32 then key else Sum256 L key)"

definition newCrypto2 :: "crypto_lib \<Rightarrow> bytes \<Rightarrow> err + Crypto" where
  "newCrypto2 L key =
     (case aesNewCipher (normalizeKey2 L key) of
        Inl e \<Rightarrow> Inl (Errorf ''rpc: create cipher: %w'' [] (Some e))
      | Inr block \<Rightarrow>
          (case NewGCM block of
             Inl e \<Rightarrow> Inl (Errorf ''rpc: create gcm: %w'' [] (Some e))
           | Inr gcm \<Rightarrow> Inr \<lparr>crGcm = gcm, crNonceSize = gcmNonceSize\<rparr>))"

definition randBytes :: "(nat \<Rightarrow> err + bytes) \<Rightarrow> nat \<Rightarrow> err + bytes" where
  "randBytes rnd n = rnd n"

definition Encrypt2 :: "crypto_lib \<Rightarrow> (nat \<Rightarrow> err + bytes) \<Rightarrow> Crypto \<Rightarrow> bytes \<Rightarrow> err + bytes" where
  "Encrypt2 L rnd c plaintext =
     (case randBytes rnd (crNonceSize c) of
        Inl panic \<Rightarrow> Inl panic
      | Inr nonce \<Rightarrow> Inr (nonce @ gcmSeal L (crGcm c) nonce plaintext))"

definition Decrypt2 :: "crypto_lib \<Rightarrow> Crypto \<Rightarrow> bytes \<Rightarrow> err + bytes" where
  "Decrypt2 L c ciphertext =
     (if length ciphertext < crNonceSize c then Inl (Errorf ''ciphertext is too short'' [] None)
      else case gcmOpen L (crGcm c) (take (crNonceSize c) ciphertext) (drop (crNonceSize c) ciphertext) of
             None \<Rightarrow> Inl authFailed
           | Some p \<Rightarrow> Inr p)"

subsection \<open>Lemmas\<close>

definition crypto_wf :: "Crypto \<Rightarrow> bool" where
  "crypto_wf c \<longleftrightarrow> length (crGcm c) \<in> aes_key_sizes \<and> crNonceSize c = gcmNonceSize"

lemma crypto_lib_digest: "crypto_lib_ok L \<Longrightarrow> length (Sum256 L k) = 32"
  by (simp add: crypto_lib_ok_def)

lemma crypto_lib_seal:
  "crypto_lib_ok L \<Longrightarrow> crypto_wf c \<Longrightarrow> length n = gcmNonceSize \<Longrightarrow>
     length (gcmSeal L (crGcm c) n p) = length p + gcmTagSize \<and>
     gcmOpen L (crGcm c) n (gcmSeal L (crGcm c) n p) = Some p"
  by (simp add: crypto_lib_ok_def crypto_wf_def)

lemma crypto_lib_open:
  "crypto_lib_ok L \<Longrightarrow> crypto_wf c \<Longrightarrow> length n = gcmNonceSize \<Longrightarrow>
     gcmOpen L (crGcm c) n ct = Some p \<Longrightarrow> ct = gcmSeal L (crGcm c) n p"
  by (simp add: crypto_lib_ok_def crypto_wf_def)

lemma normalizeKey_size: "crypto_lib_ok L \<Longrightarrow> length (normalizeKey L key) \<in> aes_key_sizes"
  by (simp add: normalizeKey_def crypto_lib_digest aes_key_sizes_def)

lemma newCrypto_Inr:
  "crypto_lib_ok L \<Longrightarrow> newCrypto L key = Inr \<lparr>crGcm = normalizeKey L key, crNonceSize = gcmNonceSize\<rparr>"
  using normalizeKey_size [of L key]
  by (simp add: newCrypto_def aesNewCipher_def NewGCM_def aesBlockSize_def)

lemma newCrypto_wf: "crypto_lib_ok L \<Longrightarrow> newCrypto L key = Inr c \<Longrightarrow> crypto_wf c"
  using newCrypto_Inr [of L key] normalizeKey_size [of L key] by (auto simp: crypto_wf_def)

lemma newCrypto2_eq: "newCrypto2 = newCrypto"
  by (intro ext) (simp add: newCrypto2_def newCrypto_def normalizeKey2_def normalizeKey_def)

lemma Encrypt_Inr:
  assumes "rand_ok rnd" "crypto_wf c" "Encrypt L rnd c p = Inr ct"
  obtains n where "length n = gcmNonceSize" "ct = n @ gcmSeal L (crGcm c) n p"
  using assms by (auto simp: Encrypt_def rand_ok_def crypto_wf_def split: sum.splits)

lemma Decrypt_sealed:
  assumes "crypto_lib_ok L" "crypto_wf c" "length n = gcmNonceSize"
  shows "Decrypt L c (n @ gcmSeal L (crGcm c) n p) = Inr p"
  using crypto_lib_seal [OF assms] assms(2,3) by (simp add: Decrypt_def crypto_wf_def)

lemma Decrypt_Inr:
  assumes "crypto_lib_ok L" "crypto_wf c" "Decrypt L c ct = Inr p"
  obtains n where "length n = gcmNonceSize" "ct = n @ gcmSeal L (crGcm c) n p"
proof -
  have l: "length (take (crNonceSize c) ct) = gcmNonceSize"
    and o: "gcmOpen L (crGcm c) (take (crNonceSize c) ct) (drop (crNonceSize c) ct) = Some p"
    using assms(2,3) by (auto simp: Decrypt_def crypto_wf_def split: if_splits option.splits)
  have "drop (crNonceSize c) ct = gcmSeal L (crGcm c) (take (crNonceSize c) ct) p"
    by (rule crypto_lib_open [OF assms(1,2) l o])
  then show ?thesis using that [OF l] by (metis append_take_drop_id)
qed

text \<open>A library with these properties, for the witnesses: the tag is sixteen zero bytes.\<close>

definition plain_crypto_lib :: crypto_lib where
  "plain_crypto_lib = \<lparr>Sum256 = (\<lambda>_. replicate 32 0), gcmSeal = (\<lambda>_ _ p. p @ replicate 16 0),
     gcmOpen = (\<lambda>_ _ c. if 16 \<le> length c \<and> drop (length c - 16) c = replicate 16 0
                         then Some (take (length c - 16) c) else None)\<rparr>"

lemma plain_crypto_lib_ok: "crypto_lib_ok plain_crypto_lib"
proof -
  have "c = take (length c - 16) c @ replicate 16 0" if "drop (length c - 16) c = replicate 16 (0 :: byte)" for c
    using that by (metis append_take_drop_id)
  then show ?thesis
    by (auto simp: crypto_lib_ok_def plain_crypto_lib_def gcmTagSize_def split: if_splits)
qed

definition zero_rand :: "nat \<Rightarrow> err + bytes" where
  "zero_rand n = Inr (replicate n 0)"

lemma zero_rand_ok: "rand_ok zero_rand"
  by (simp add: rand_ok_def zero_rand_def)

lemma plain_newCrypto:
  "newCrypto plain_crypto_lib [1] = Inr \<lparr>crGcm = replicate 32 0, crNonceSize = 12\<rparr>"
proof -
  have "normalizeKey plain_crypto_lib [1] = replicate 32 0"
    by (simp add: normalizeKey_def plain_crypto_lib_def)
  then show ?thesis using newCrypto_Inr [OF plain_crypto_lib_ok, of "[1]"] by (simp add: gcmNonceSize_def)
qed

subsection \<open>Properties\<close>

text \<open>
  Any secret makes a cipher, in either version and the same one: keys of 16, 24 and 32
  bytes are used as they are, all others are hashed, and neither of the two error branches of
  \<open>newCrypto\<close> can be taken.
\<close>

theorem newCrypto_total:
  assumes "crypto_lib_ok L"
  shows "newCrypto L key = Inr \<lparr>crGcm = (if length key \<in> {16, 24, 32} then key else Sum256 L key),
      crNonceSize = 12\<rparr> \<and> newCrypto2 L key = newCrypto L key"
  using newCrypto_Inr [OF assms, of key] by (simp add: newCrypto2_eq normalizeKey_def gcmNonceSize_def)

theorem newCrypto_total_witness:
  "newCrypto plain_crypto_lib [1, 2, 3] = Inr \<lparr>crGcm = replicate 32 0, crNonceSize = 12\<rparr>"
  using newCrypto_total [OF plain_crypto_lib_ok, of "[1, 2, 3]"] by (simp add: plain_crypto_lib_def)

text \<open>
  Encryption under one secret is undone by decryption under the same secret, between the
  two versions as well; the message grows by the nonce and the tag, 28 bytes.
\<close>

theorem crypto_roundtrip:
  assumes "crypto_lib_ok L" and "rand_ok rnd" and "newCrypto L key = Inr c"
    and "Encrypt L rnd c p = Inr ct \<or> Encrypt2 L rnd c p = Inr ct"
  shows "Decrypt L c ct = Inr p \<and> Decrypt2 L c ct = Inr p \<and> length ct = length p + 28"
proof -
  have wf: "crypto_wf c" by (rule newCrypto_wf [OF assms(1,3)])
  have "Encrypt L rnd c p = Inr ct"
    using assms(4) by (auto simp: Encrypt_def Encrypt2_def randBytes_def split: sum.splits)
  then obtain n where n: "length n = gcmNonceSize" "ct = n @ gcmSeal L (crGcm c) n p"
    by (rule Encrypt_Inr [OF assms(2) wf])
  have d: "Decrypt L c ct = Inr p" using Decrypt_sealed [OF assms(1) wf n(1)] n(2) by simp
  then have "Decrypt2 L c ct = Inr p" by (auto simp: Decrypt_def Decrypt2_def split: if_splits option.splits)
  with d show ?thesis
    using crypto_lib_seal [OF assms(1) wf n(1), of p] n by (simp add: gcmNonceSize_def gcmTagSize_def)
qed

theorem crypto_roundtrip_witness:
  "Decrypt plain_crypto_lib \<lparr>crGcm = replicate 32 0, crNonceSize = 12\<rparr>
     (replicate 12 0 @ [7, 8] @ replicate 16 0) = Inr [7, 8]"
proof -
  let ?c = "\<lparr>crGcm = replicate 32 (0 :: byte), crNonceSize = 12\<rparr>"
  have c: "newCrypto plain_crypto_lib [1] = Inr ?c"
    by (rule plain_newCrypto)
  have "Encrypt plain_crypto_lib zero_rand ?c [7, 8] = Inr (replicate 12 0 @ [7, 8] @ replicate 16 0)"
    by (simp add: Encrypt_def zero_rand_def plain_crypto_lib_def)
  with crypto_roundtrip [OF plain_crypto_lib_ok zero_rand_ok c] show ?thesis by blast
qed

text \<open>
  C39: sealing and opening. With any secret \<open>Decrypt\<close> gives a plaintext for exactly the messages
  that are a nonce followed by the sealing of that plaintext: one that is shorter than 28 bytes,
  truncated or changed gives an error. What \<open>Encrypt\<close> makes is 28 bytes longer than the plaintext and is
  opened to it. The v2 copy accepts the same messages.
\<close>

theorem Decrypt_accepts_iff:
  assumes "crypto_lib_ok L" and "newCrypto L key = Inr c"
  shows "(Decrypt L c msg = Inr p \<longleftrightarrow> (\<exists>n. length n = 12 \<and> msg = n @ gcmSeal L (crGcm c) n p)) \<and>
    (length msg < 28 \<longrightarrow> (\<exists>e. Decrypt L c msg = Inl e)) \<and>
    (rand_ok rnd \<longrightarrow> Encrypt L rnd c p = Inr ct \<longrightarrow> length ct = length p + 28 \<and> Decrypt L c ct = Inr p) \<and>
    (Decrypt2 L c msg = Inr p \<longleftrightarrow> Decrypt L c msg = Inr p)"
proof (intro conjI impI)
  note wf = newCrypto_wf [OF assms]
  have sealed: "Decrypt L c msg = Inr q \<longleftrightarrow> (\<exists>n. length n = 12 \<and> msg = n @ gcmSeal L (crGcm c) n q)" for msg q
    using Decrypt_Inr [OF assms(1) wf, of msg q] Decrypt_sealed [OF assms(1) wf]
    by (metis gcmNonceSize_def)
  show "Decrypt L c msg = Inr p \<longleftrightarrow> (\<exists>n. length n = 12 \<and> msg = n @ gcmSeal L (crGcm c) n p)" by (rule sealed)
  have len: "length (n @ gcmSeal L (crGcm c) n q) = length q + 28" if "length n = 12" for n q
    using crypto_lib_seal [OF assms(1) wf, of n q] that by (simp add: gcmNonceSize_def gcmTagSize_def)
  show "\<exists>e. Decrypt L c msg = Inl e" if "length msg < 28"
  proof (cases "Decrypt L c msg")
    case (Inr q)
    then obtain n where "length n = 12" "msg = n @ gcmSeal L (crGcm c) n q" by (auto simp: sealed)
    then have "length msg = length q + 28" using len [of n q] by metis
    then show ?thesis using that by simp
  qed simp
  assume r: "rand_ok rnd" "Encrypt L rnd c p = Inr ct"
  obtain n where n: "length n = gcmNonceSize" "ct = n @ gcmSeal L (crGcm c) n p" by (rule Encrypt_Inr [OF r(1) wf r(2)])
  then have n': "length n = 12" "ct = n @ gcmSeal L (crGcm c) n p" by (simp_all add: gcmNonceSize_def)
  then show "length ct = length p + 28" using len [of n p] by simp
  show "Decrypt L c ct = Inr p" using n Decrypt_sealed [OF assms(1) wf] by simp
next
  show "Decrypt2 L c msg = Inr p \<longleftrightarrow> Decrypt L c msg = Inr p" by (simp add: Decrypt_def Decrypt2_def split: option.split)
qed

theorem Decrypt_accepts_iff_witness:
  "(\<exists>e. Decrypt plain_crypto_lib \<lparr>crGcm = replicate 32 0, crNonceSize = 12\<rparr> [1, 2, 3] = Inl e) \<and>
   Decrypt plain_crypto_lib \<lparr>crGcm = replicate 32 0, crNonceSize = 12\<rparr>
     (replicate 12 0 @ gcmSeal plain_crypto_lib (replicate 32 0) (replicate 12 0) [7]) = Inr [7]"
proof
  show "\<exists>e. Decrypt plain_crypto_lib \<lparr>crGcm = replicate 32 0, crNonceSize = 12\<rparr> [1, 2, 3] = Inl e"
    using Decrypt_accepts_iff [OF plain_crypto_lib_ok plain_newCrypto, of "[1, 2, 3]"] by simp
  have "length (replicate 12 (0::byte)) = 12" by simp
  then show "Decrypt plain_crypto_lib \<lparr>crGcm = replicate 32 0, crNonceSize = 12\<rparr>
     (replicate 12 0 @ gcmSeal plain_crypto_lib (replicate 32 0) (replicate 12 0) [7]) = Inr [7]"
    using Decrypt_accepts_iff [OF plain_crypto_lib_ok plain_newCrypto, THEN conjunct1] by (metis Crypto.select_convs(1))
qed

end
