(* ===== verification/JsonCryptoCodec.thy ===== *)
theory JsonCryptoCodec
  imports JsonCodec GobBlob RpcCrypto
begin

text \<open>
  The encrypted JSON codecs (\<open>v3/codec/json_crypto_codec.go\<close>): a clear JSON header, then the
  prefix \<open>CRYPT\<close> and a gob message whose bytes are the sealed JSON text of the body. Reading a
  body takes what the JSON decoder has buffered first, then the connection, and makes a new
  decoder over what is left. Arguments and conventions are those of \<open>JsonCodec\<close>.
\<close>

definition magicPrefix :: bytes where
  "magicPrefix = [67, 82, 89, 80, 84]"

definition ErrInvalidMagic :: err where
  "ErrInvalidMagic = New ''rpc: invalid magic prefix''"

subsection \<open>Writing a body\<close>

definition wrapErr :: "string \<Rightarrow> err \<Rightarrow> err" where
  "wrapErr msg e = Errorf msg [] (Some e)"

definition writeCryptoBody ::
  "crypto_lib \<Rightarrow> (nat \<Rightarrow> err + bytes) \<Rightarrow> Crypto \<Rightarrow> err + bytes \<Rightarrow> bufw \<Rightarrow> err option \<times> bufw" where
  "writeCryptoBody L rnd crypto body b =
     (case body of
        Inl e \<Rightarrow> (Some (wrapErr ''rpc: json body marshal: %w'' e), b)
      | Inr plaintext \<Rightarrow>
          (case Encrypt L rnd crypto plaintext of
             Inl e \<Rightarrow> (Some e, b)
           | Inr encrypted \<Rightarrow>
               (case Write magicPrefix b of
                  (Some e, b1) \<Rightarrow> (Some (wrapErr ''rpc: crypto prefix write: %w'' e), b1)
                | (None, b1) \<Rightarrow>
                    (case Write (gobEncodeBytes encrypted) b1 of
                       (Some e, b2) \<Rightarrow> (Some (wrapErr ''rpc: crypto blob encode: %w'' e), b2)
                     | (None, b2) \<Rightarrow> (None, b2)))))"

subsection \<open>Reading a body\<close>

text \<open>One byte by \<open>io.ReadFull\<close>; \<open>matched\<close> is the number of prefix bytes read so far.\<close>

partial_function (option) readMagic :: "'s reader \<Rightarrow> nat \<Rightarrow> 's \<Rightarrow> ((err + unit) \<times> 's) option" where
  "readMagic rd matched s =
     (if length magicPrefix \<le> matched then Some (Inr (), s)
      else case ReadFull rd 1 s of
             None \<Rightarrow> None
           | Some (r, s') \<Rightarrow>
               (case r of
                  Inl e \<Rightarrow> Some (Inl (wrapErr ''rpc: crypto prefix read: %w'' e), s')
                | Inr one \<Rightarrow>
                    if matched = 0 \<and> is_space (hd one) then readMagic rd matched s'
                    else if hd one \<noteq> magicPrefix ! matched
                    then Some (Inl (wrapErr ''rpc: invalid crypto prefix: %w'' ErrInvalidMagic), s')
                    else readMagic rd (Suc matched) s'))"

declare readMagic.simps [code]

definition readCryptoBodySource ::
  "crypto_lib \<Rightarrow> bytes gob_interp \<Rightarrow> 's reader \<Rightarrow> Crypto \<Rightarrow> int \<Rightarrow> 's \<Rightarrow> ((err + bytes) \<times> 's) option" where
  "readCryptoBodySource L G rd crypto maxBody src =
     (case readMagic (budgetRead rd) 0 \<lparr>bgLeft = maxBody, bgSrc = src\<rparr> of
        None \<Rightarrow> None
      | Some (Inl e, b1) \<Rightarrow> Some (Inl e, bgSrc b1)
      | Some (Inr _, b1) \<Rightarrow>
          (case gobDecodeFresh G (budgetRead rd) b1 of
             None \<Rightarrow> None
           | Some (Inl e, b2) \<Rightarrow> Some (Inl (wrapErr ''rpc: crypto blob decode: %w'' e), bgSrc b2)
           | Some (Inr blob, b2) \<Rightarrow>
               Some (case Decrypt L crypto blob of
                       Inl e \<Rightarrow> Inl (wrapErr ''rpc: body decrypt: %w'' e)
                     | Inr plaintext \<Rightarrow> Inr plaintext, bgSrc b2)))"

definition unmarshalBody ::
  "json_lib \<Rightarrow> (bytes \<Rightarrow> err + 'v) option \<Rightarrow> bytes \<Rightarrow> err + 'v option" where
  "unmarshalBody J body plaintext =
     (case body of
        None \<Rightarrow> (case jCheck J plaintext of
                   Some e \<Rightarrow> Inl (wrapErr ''rpc: json body discard: %w'' e)
                 | None \<Rightarrow> Inr None)
      | Some um \<Rightarrow> (case um plaintext of
                      Inl e \<Rightarrow> Inl (wrapErr ''rpc: json body unmarshal: %w'' e)
                    | Inr v \<Rightarrow> Inr (Some v)))"

definition decodeCryptoBodySource ::
  "json_lib \<Rightarrow> crypto_lib \<Rightarrow> bytes gob_interp \<Rightarrow> 's reader \<Rightarrow> Crypto \<Rightarrow> int \<Rightarrow> (bytes \<Rightarrow> err + 'v) option \<Rightarrow> 's \<Rightarrow>
   ((err + 'v option) \<times> 's) option" where
  "decodeCryptoBodySource J L G rd crypto maxBody body src =
     (case readCryptoBodySource L G rd crypto maxBody src of
        None \<Rightarrow> None
      | Some (r, src') \<Rightarrow> Some (bindR r (unmarshalBody J body), src'))"

subsection \<open>The codecs\<close>

text \<open>
  \<open>jySrc\<close> holds the reader of the current decoder: until the first body the budget itself
  (\<open>jyDirect\<close>), later the bytes left over and then the budget.
\<close>

record 's jsonCryptoCodec =
  jyCrypto :: Crypto
  jyDirect :: bool
  jySrc :: "(bytes, 's budgetReader) multi"
  jyDec :: jsonDecoder
  jyBuf :: bufw
  jyEnc :: encoder
  jyMaxBody :: int
  jyClosed :: bool
  jyCloses :: nat

definition decRead :: "'s reader \<Rightarrow> bool \<Rightarrow> (bytes, 's budgetReader) multi reader" where
  "decRead rd direct n m =
     (if direct then (case budgetRead rd n (mSnd m) of (r, b) \<Rightarrow> (r, m\<lparr>mSnd := b\<rparr>))
      else multiRead bytesRead (budgetRead rd) n m)"

definition newJSONCryptoServerCodec ::
  "crypto_lib \<Rightarrow> bufw \<Rightarrow> 's \<Rightarrow> bytes \<Rightarrow> int \<Rightarrow> err + 's jsonCryptoCodec" where
  "newJSONCryptoServerCodec L buf conn key maxBody =
     bindR (newCrypto L key) (\<lambda>crypto.
       let m = effectiveMaxBody maxBody
       in Inr \<lparr>jyCrypto = crypto, jyDirect = True,
            jySrc = \<lparr>mFst = [], mSnd = \<lparr>bgLeft = m, bgSrc = conn\<rparr>, mGone = 1\<rparr>,
            jyDec = newDecoder, jyBuf = buf, jyEnc = newEncoder, jyMaxBody = m,
            jyClosed = False, jyCloses = 0\<rparr>)"

definition newJSONCryptoClientCodec ::
  "crypto_lib \<Rightarrow> bufw \<Rightarrow> 's \<Rightarrow> bytes \<Rightarrow> int \<Rightarrow> err + 's jsonCryptoCodec" where
  "newJSONCryptoClientCodec L buf conn key maxBody =
     bindR (newCrypto L key) (\<lambda>crypto.
       let m = effectiveMaxBody maxBody
       in Inr \<lparr>jyCrypto = crypto, jyDirect = True,
            jySrc = \<lparr>mFst = [], mSnd = \<lparr>bgLeft = m, bgSrc = conn\<rparr>, mGone = 1\<rparr>,
            jyDec = newDecoder, jyBuf = buf, jyEnc = newEncoder, jyMaxBody = m,
            jyClosed = False, jyCloses = 0\<rparr>)"

definition resetCodec :: "'s jsonCryptoCodec \<Rightarrow> 's jsonCryptoCodec" where
  "resetCodec c = c\<lparr>jySrc := (jySrc c)\<lparr>mSnd := resetBudget (jyMaxBody c) (mSnd (jySrc c))\<rparr>\<rparr>"

definition cryptoReadHeader ::
  "json_lib \<Rightarrow> 's reader \<Rightarrow> (bytes \<Rightarrow> err + 'r) \<Rightarrow> 's jsonCryptoCodec \<Rightarrow>
   ((err + 'r) \<times> 's jsonCryptoCodec) option" where
  "cryptoReadHeader J rd um c =
     (let c1 = resetCodec c in
      case decodeText J (decRead rd (jyDirect c1)) (jyDec c1) (jySrc c1) of
        None \<Rightarrow> None
      | Some (r, d, src) \<Rightarrow> Some (bindR r um, c1\<lparr>jyDec := d, jySrc := src\<rparr>))"

definition cryptoReadBody ::
  "json_lib \<Rightarrow> crypto_lib \<Rightarrow> bytes gob_interp \<Rightarrow> 's reader \<Rightarrow> (bytes \<Rightarrow> err + 'v) option \<Rightarrow> 's jsonCryptoCodec \<Rightarrow>
   ((err + 'v option) \<times> 's jsonCryptoCodec) option" where
  "cryptoReadBody J L G rd body c =
     (let c1 = resetCodec c;
          src = \<lparr>mFst = jdBuf (jyDec c1), mSnd = mSnd (jySrc c1), mGone = 0\<rparr>
      in case decodeCryptoBodySource J L G (multiRead bytesRead (budgetRead rd)) (jyCrypto c1)
                (jyMaxBody c1) body src of
           None \<Rightarrow> None
         | Some (r, src') \<Rightarrow>
             Some (r, c1\<lparr>jyDec := newDecoder, jyDirect := False,
                        jySrc := \<lparr>mFst = mFst src', mSnd = mSnd src', mGone = 0\<rparr>\<rparr>))"

definition CryptoReadRequestHeader ::
  "json_lib \<Rightarrow> 's reader \<Rightarrow> (bytes \<Rightarrow> err + 'r) \<Rightarrow> 's jsonCryptoCodec \<Rightarrow>
   ((err + 'r) \<times> 's jsonCryptoCodec) option" where
  "CryptoReadRequestHeader J rd umReq c = cryptoReadHeader J rd umReq c"

definition CryptoReadRequestBody ::
  "json_lib \<Rightarrow> crypto_lib \<Rightarrow> bytes gob_interp \<Rightarrow> 's reader \<Rightarrow> (bytes \<Rightarrow> err + 'v) option \<Rightarrow> 's jsonCryptoCodec \<Rightarrow>
   ((err + 'v option) \<times> 's jsonCryptoCodec) option" where
  "CryptoReadRequestBody J L G rd body c = cryptoReadBody J L G rd body c"

definition CryptoReadResponseHeader ::
  "json_lib \<Rightarrow> 's reader \<Rightarrow> (bytes \<Rightarrow> err + 'r) \<Rightarrow> 's jsonCryptoCodec \<Rightarrow>
   ((err + 'r) \<times> 's jsonCryptoCodec) option" where
  "CryptoReadResponseHeader J rd umRes c = cryptoReadHeader J rd umRes c"

definition CryptoReadResponseBody ::
  "json_lib \<Rightarrow> crypto_lib \<Rightarrow> bytes gob_interp \<Rightarrow> 's reader \<Rightarrow> (bytes \<Rightarrow> err + 'v) option \<Rightarrow> 's jsonCryptoCodec \<Rightarrow>
   ((err + 'v option) \<times> 's jsonCryptoCodec) option" where
  "CryptoReadResponseBody J L G rd body c = cryptoReadBody J L G rd body c"

definition cryptoEncode :: "err + bytes \<Rightarrow> 's jsonCryptoCodec \<Rightarrow> err option \<times> 's jsonCryptoCodec" where
  "cryptoEncode txt c =
     (case encodeTo (bindR txt (\<lambda>t. Inr (t @ [10]))) (jyEnc c) (jyBuf c) of
        (e, en, b) \<Rightarrow> (e, c\<lparr>jyEnc := en, jyBuf := b\<rparr>))"

definition cryptoFlush :: "'s jsonCryptoCodec \<Rightarrow> err option \<times> 's jsonCryptoCodec" where
  "cryptoFlush c = (case Flush (jyBuf c) of (e, b) \<Rightarrow> (e, c\<lparr>jyBuf := b\<rparr>))"

definition cryptoBody ::
  "crypto_lib \<Rightarrow> (nat \<Rightarrow> err + bytes) \<Rightarrow> err + bytes \<Rightarrow> 's jsonCryptoCodec \<Rightarrow> err option \<times> 's jsonCryptoCodec" where
  "cryptoBody L rnd body c =
     (case writeCryptoBody L rnd (jyCrypto c) body (jyBuf c) of (e, b) \<Rightarrow> (e, c\<lparr>jyBuf := b\<rparr>))"

definition CryptoClose :: "err option \<Rightarrow> 's jsonCryptoCodec \<Rightarrow> err option \<times> 's jsonCryptoCodec" where
  "CryptoClose closeErr c =
     (if jyClosed c then (None, c)
      else (closeErr, c\<lparr>jyClosed := True, jyCloses := Suc (jyCloses c)\<rparr>))"

definition CryptoCloseClient :: "err option \<Rightarrow> 's jsonCryptoCodec \<Rightarrow> err option \<times> 's jsonCryptoCodec" where
  "CryptoCloseClient closeErr c =
     (if jyClosed c then (None, c)
      else (closeErr, c\<lparr>jyClosed := True, jyCloses := Suc (jyCloses c)\<rparr>))"

definition cryptoAbort :: "err option \<Rightarrow> err \<Rightarrow> 's jsonCryptoCodec \<Rightarrow> err option \<times> 's jsonCryptoCodec" where
  "cryptoAbort closeErr e c =
     (case cryptoFlush c of
        (None, c') \<Rightarrow> (Some e, snd (CryptoClose closeErr c'))
      | (Some _, c') \<Rightarrow> (Some e, c'))"

definition CryptoWriteResponse ::
  "crypto_lib \<Rightarrow> (nat \<Rightarrow> err + bytes) \<Rightarrow> err option \<Rightarrow> err + bytes \<Rightarrow> err + bytes \<Rightarrow> 's jsonCryptoCodec \<Rightarrow>
   err option \<times> 's jsonCryptoCodec" where
  "CryptoWriteResponse L rnd closeErr hdr body c =
     (case cryptoEncode hdr c of
        (Some e, c1) \<Rightarrow> cryptoAbort closeErr e c1
      | (None, c1) \<Rightarrow>
          (case cryptoBody L rnd body c1 of
             (Some e, c2) \<Rightarrow> cryptoAbort closeErr e c2
           | (None, c2) \<Rightarrow> cryptoFlush c2))"

definition CryptoWriteRequest ::
  "crypto_lib \<Rightarrow> (nat \<Rightarrow> err + bytes) \<Rightarrow> err + bytes \<Rightarrow> err + bytes \<Rightarrow> 's jsonCryptoCodec \<Rightarrow>
   err option \<times> 's jsonCryptoCodec" where
  "CryptoWriteRequest L rnd hdr body c =
     (case cryptoEncode hdr c of
        (Some e, c1) \<Rightarrow> (Some e, c1)
      | (None, c1) \<Rightarrow>
          (case cryptoBody L rnd body c1 of
             (Some e, c2) \<Rightarrow> (Some e, c2)
           | (None, c2) \<Rightarrow> cryptoFlush c2))"

subsection \<open>Reading what was written\<close>

lemma magicPrefix_length [simp]: "length magicPrefix = 5"
  by (simp add: magicPrefix_def)

lemma magicPrefix_not_space: "k < 5 \<Longrightarrow> \<not> is_space (magicPrefix ! k)"
proof -
  assume "k < 5"
  then have "magicPrefix ! k \<in> set magicPrefix" by (intro nth_mem) simp
  then show ?thesis by (auto simp: magicPrefix_def is_space_def)
qed

context byte_source begin

lemma readMagic_rest:
  assumes "ok s" "k \<le> 5" "content s = drop k magicPrefix @ rest"
  shows "\<exists>s'. readMagic rd k s = Some (Inr (), s') \<and> content s' = rest \<and> final s' = final s \<and> ok s'"
  using assms
proof (induction "5 - k" arbitrary: k s)
  case 0
  then show ?case by (subst readMagic.simps) simp
next
  case (Suc n)
  then have k: "k < 5" by simp
  then have c: "content s = magicPrefix ! k # drop (Suc k) magicPrefix @ rest"
    using Suc.prems(3) by (simp add: Cons_nth_drop_Suc [symmetric])
  then obtain s1 where s1: "ReadFull rd 1 s = Some (Inr [magicPrefix ! k], s1)"
      "content s1 = drop (Suc k) magicPrefix @ rest" "final s1 = final s" "ok s1"
    using ReadFull_enough [OF Suc.prems(1), of 1] by auto
  have "readMagic rd k s = readMagic rd (Suc k) s1"
    using k s1(1) magicPrefix_not_space [OF k] by (subst readMagic.simps) simp
  then show ?case using Suc.hyps(1) [of "Suc k" s1] Suc.hyps(2) k s1 by auto
qed

lemma readMagic_prefix:
  assumes "ok s" "\<forall>c \<in> set ws. is_space c" "content s = ws @ magicPrefix @ rest"
  shows "\<exists>s'. readMagic rd 0 s = Some (Inr (), s') \<and> content s' = rest \<and> final s' = final s \<and> ok s'"
  using assms
proof (induction ws arbitrary: s)
  case Nil
  then show ?case using readMagic_rest [of s 0 rest] by simp
next
  case (Cons c ws)
  obtain s1 where s1: "ReadFull rd 1 s = Some (Inr [c], s1)" "content s1 = ws @ magicPrefix @ rest"
      "final s1 = final s" "ok s1"
    using ReadFull_enough [OF Cons.prems(1), of 1] Cons.prems(3) by auto
  have "readMagic rd 0 s = readMagic rd 0 s1"
    using s1(1) Cons.prems(2) by (subst readMagic.simps) simp
  then show ?case using Cons.IH [OF s1(4)] Cons.prems(2) s1 by auto
qed

text \<open>A body that is all there is, within the limit, is read to its end and decrypted.\<close>

lemma readCryptoBodySource_blob:
  assumes "gob_bytes_ok G" "ok s" "content s = ws @ magicPrefix @ gobEncodeBytes blob"
    and "\<forall>c \<in> set ws. is_space c" "int (length ws + 5 + length (gobEncodeBytes blob)) \<le> m"
    and "length (bytesBody blob) < tooBig" "Decrypt L crypto blob = Inr t"
  shows "\<exists>s'. readCryptoBodySource L G rd crypto m s = Some (Inr t, s') \<and>
    content s' = [] \<and> final s' = final s \<and> ok s'"
proof -
  let ?b = "\<lparr>bgLeft = m, bgSrc = s\<rparr>"
  have "length (content s) \<le> nat m" using assms(3,5) by simp
  then have c: "budget_content content ?b = ws @ magicPrefix @ gobEncodeBytes blob"
    and f: "budget_frame [] (final s) ?b"
    using assms(2,3,5) by (simp_all add: budget_content_def budget_frame_def)
  note src = budget_frame_source [of "[]" "final s"]
  obtain b1 where b1: "readMagic (budgetRead rd) 0 ?b = Some (Inr (), b1)"
      "budget_content content b1 = gobEncodeBytes blob" "budget_frame [] (final s) b1"
    using byte_source.readMagic_prefix [OF src f assms(4) c] by blast
  have "byte_source.bio_clean (budget_frame [] (final s)) (newBufio b1)"
    using b1(3) by (simp add: byte_source.bio_clean_def [OF src] newBufio_def)
  moreover have "bio_content (budget_content content) (newBufio b1) = gobEncodeBytes blob @ []"
    using b1(2) by simp
  ultimately obtain b2 where b2: "gobDecode G (bufRead (budgetRead rd)) True [] (newBufio b1) = Some (Inr blob, [], b2)"
      "bio_content (budget_content content) b2 = []" "byte_source.bio_clean (budget_frame [] (final s)) b2"
    using byte_source.gobDecode_bytes [OF byte_source.bufRead_clean_source [OF src] assms(1) _ _ assms(6)] by blast
  then have cl: "bioErr b2 = None" "budget_frame [] (final s) (bioSrc b2)"
    by (simp_all add: byte_source.bio_clean_def [OF src])
  moreover have "budget_content content (bioSrc b2) = []"
    using b2(2) cl(1) by (simp add: bio_content_def)
  ultimately have "content (bgSrc (bioSrc b2)) = []"
    using budget_frame_content [OF cl(2)] by simp
  moreover have "final (bgSrc (bioSrc b2)) = final s" "ok (bgSrc (bioSrc b2))"
    using cl(2) by (simp_all add: budget_frame_def)
  ultimately show ?thesis using b1(1) b2(1) assms(7) by (simp add: readCryptoBodySource_def gobDecodeFresh_def)
qed

text \<open>The reader of a decoder with no bytes left over is the budget.\<close>

definition no_rest :: "bool \<Rightarrow> (bytes, 's budgetReader) multi \<Rightarrow> bool" where
  "no_rest direct m \<longleftrightarrow> direct \<or> mFst m = [] \<and> mGone m \<le> 1"

lemma decRead_no_rest:
  assumes "no_rest direct m" "budgetRead rd n (mSnd m) = ((d, e), b)"
  shows "\<exists>m'. decRead rd direct n m = ((d, e), m') \<and> mSnd m' = b \<and> (e \<noteq> Some EOF \<longrightarrow> no_rest direct m')"
proof (cases direct)
  case True
  then show ?thesis using assms(2) by (simp add: decRead_def no_rest_def)
next
  case False
  then have m: "mFst m = []" "mGone m = 0 \<or> mGone m = 1" using assms(1) by (auto simp: no_rest_def)
  define m1 where "m1 = m\<lparr>mFst := [], mGone := 1\<rparr>"
  have "decRead rd direct n m = readSecond (budgetRead rd) n m1"
  proof (cases "mGone m = 0")
    case True
    then show ?thesis using m False by (simp add: decRead_def multiRead_def bytesRead_def m1_def Let_def)
  next
    case no: False
    then have "m1 = m" using m by (cases m) (auto simp: m1_def)
    then show ?thesis using no m False by (simp add: decRead_def multiRead_def)
  qed
  moreover have "mSnd m1 = mSnd m" "mFst m1 = []" "mGone m1 = 1" by (simp_all add: m1_def)
  ultimately show ?thesis
    using assms(2) by (cases "e = Some EOF") (simp_all add: readSecond_def no_rest_def)
qed

lemma decRead_source:
  "byte_source (decRead rd direct) (\<lambda>m. budget_content content (mSnd m))
     (\<lambda>m. budget_final content final (mSnd m)) (\<lambda>m. budget_frame tail f (mSnd m) \<and> no_rest direct m)"
proof
  fix n b r and s s' :: "(bytes, 's budgetReader) multi" assume "decRead rd direct n s = ((b, r), s')"
  then show "length b \<le> n"
    using byte_source.rd_length [OF budget_source]
      byte_source.rd_length [OF multi_source [OF byr.byte_source_axioms budget_source]]
    by (auto simp: decRead_def split: if_splits prod.splits)
next
  fix n b s s' assume s: "budget_frame tail f (mSnd s) \<and> no_rest direct s"
    and r: "decRead rd direct n s = ((b, None), s')"
  obtain d e t where t: "budgetRead rd n (mSnd s) = ((d, e), t)" by (metis prod.exhaust)
  with decRead_no_rest [of direct s n d e t] s r have "d = b" "e = None" "mSnd s' = t" "no_rest direct s'" by auto
  then show "budget_content content (mSnd s) = b @ budget_content content (mSnd s') \<and>
      budget_final content final (mSnd s') = budget_final content final (mSnd s) \<and>
      budget_frame tail f (mSnd s') \<and> no_rest direct s'"
    using byte_source.rd_more [OF budget_frame_source, of tail f "mSnd s" n b t] s t by auto
next
  fix n b e s s' assume s: "budget_frame tail f (mSnd s) \<and> no_rest direct s"
    and r: "decRead rd direct n s = ((b, Some e), s')"
  obtain d e' t where t: "budgetRead rd n (mSnd s) = ((d, e'), t)" by (metis prod.exhaust)
  with decRead_no_rest [of direct s n d e' t] s r have "d = b" "e' = Some e" by auto
  then show "b = [] \<and> budget_content content (mSnd s) = [] \<and> budget_final content final (mSnd s) = e"
    using byte_source.rd_last [OF budget_frame_source, of tail f "mSnd s" n b e t] s t by auto
next
  fix n :: nat and b s s' assume s: "budget_frame tail f (mSnd s) \<and> no_rest direct s" and n: "0 < n"
    and r: "decRead rd direct n s = ((b, None), s')"
  obtain d e t where t: "budgetRead rd n (mSnd s) = ((d, e), t)" by (metis prod.exhaust)
  with decRead_no_rest [of direct s n d e t] s r have "d = b" "e = None" by auto
  then show "b \<noteq> []"
    using byte_source.rd_progress [OF budget_frame_source, of tail f "mSnd s" n b t] s n t by auto
qed

text \<open>A codec between two calls: nothing buffered, nothing left over.\<close>

definition jy_idle :: "'s jsonCryptoCodec \<Rightarrow> bool" where
  "jy_idle c \<longleftrightarrow> jdBuf (jyDec c) = [] \<and> jdErr (jyDec c) = None \<and> no_rest (jyDirect c) (jySrc c)"

end

definition crypto_call :: "bytes \<Rightarrow> bytes \<Rightarrow> bytes" where
  "crypto_call h blob = h @ [10] @ magicPrefix @ gobEncodeBytes blob"

context byte_source begin

lemma cryptoReadHeader_call:
  assumes J: "json_lib_ok J" "fits J (jyMaxBody c) h" and idle: "jy_idle c"
    and src: "ok (bgSrc (mSnd (jySrc c)))" "content (bgSrc (mSnd (jySrc c))) = h @ 10 # rest"
  shows "\<exists>c1. cryptoReadHeader J rd um c = Some (um h, c1) \<and> jyMaxBody c1 = jyMaxBody c \<and>
    jyCrypto c1 = jyCrypto c \<and> ok (bgSrc (mSnd (jySrc c1))) \<and>
    jdBuf (jyDec c1) @ content (bgSrc (mSnd (jySrc c1))) = 10 # rest"
proof -
  let ?bud = "mSnd (jySrc (resetCodec c))"
  define m where "m = nat (jyMaxBody c)"
  have l: "length h + 1 \<le> m" "0 \<le> jyMaxBody c" and t: "json_text J h"
    using J(2) by (auto simp: fits_def m_def)
  have fr: "budget_frame (drop m (h @ 10 # rest)) (final (bgSrc (mSnd (jySrc c)))) ?bud"
    using src l(2) by (simp add: budget_frame_def resetCodec_def resetBudget_def m_def)
  have nr: "no_rest (jyDirect c) (jySrc (resetCodec c))"
    using idle by (simp add: jy_idle_def no_rest_def resetCodec_def)
  have d: "jdErr (jyDec c) = None" "jdBuf (jyDec c) = []" using idle by (simp_all add: jy_idle_def)
  have tk: "take m (h @ 10 # rest) = h @ 10 # take (m - Suc (length h)) rest"
    using l(1) by (simp add: take_Cons' Suc_diff_le)
  have bc: "jdBuf (jyDec c) @ budget_content content ?bud = [] @ h @ 10 # take (m - Suc (length h)) rest"
    using tk by (simp add: d budget_content_def resetCodec_def resetBudget_def src(2) m_def)
  obtain d' m' where dt: "decodeText J (decRead rd (jyDirect c)) (jyDec c) (jySrc (resetCodec c)) =
      Some (Inr h, d', m')" "jdBuf d' @ budget_content content (mSnd m') = 10 # take (m - Suc (length h)) rest"
      "budget_frame (drop m (h @ 10 # rest)) (final (bgSrc (mSnd (jySrc c)))) (mSnd m')"
    using byte_source.decodeText_text [OF decRead_source J(1) conjI [OF fr nr] d(1) t _ bc] by auto
  have "drop m (h @ 10 # rest) = drop (m - Suc (length h)) rest"
    using l(1) by (simp add: drop_Cons' Suc_diff_le)
  then have "jdBuf d' @ content (bgSrc (mSnd m')) = 10 # rest"
    using budget_frame_content [OF dt(3)] dt(2) by (metis append.assoc append_Cons append_take_drop_id)
  moreover have "jyDirect (resetCodec c) = jyDirect c" "jyDec (resetCodec c) = jyDec c"
      "jyMaxBody (resetCodec c) = jyMaxBody c" "jyCrypto (resetCodec c) = jyCrypto c"
    by (simp_all add: resetCodec_def)
  ultimately show ?thesis
    using dt(1,3) by (simp add: cryptoReadHeader_def Let_def budget_frame_def)
qed

lemma cryptoReadBody_call:
  assumes "gob_bytes_ok G" "ok (bgSrc (mSnd (jySrc c)))"
    and "jdBuf (jyDec c) @ content (bgSrc (mSnd (jySrc c))) = 10 # magicPrefix @ gobEncodeBytes blob"
    and "int (6 + length (gobEncodeBytes blob)) \<le> jyMaxBody c"
    and "length (bytesBody blob) < tooBig" "Decrypt L (jyCrypto c) blob = Inr t"
  shows "\<exists>c1. cryptoReadBody J L G rd body c = Some (unmarshalBody J body t, c1) \<and> jy_idle c1 \<and>
    jyMaxBody c1 = jyMaxBody c \<and> jyCrypto c1 = jyCrypto c \<and>
    ok (bgSrc (mSnd (jySrc c1))) \<and> content (bgSrc (mSnd (jySrc c1))) = []"
proof -
  let ?s0 = "bgSrc (mSnd (jySrc c))"
  let ?bud = "resetBudget (jyMaxBody c) (mSnd (jySrc c))"
  let ?src = "\<lparr>mFst = jdBuf (jyDec c), mSnd = ?bud, mGone = 0\<rparr>"
  have "length (jdBuf (jyDec c) @ content ?s0) = 6 + length (gobEncodeBytes blob)"
    unfolding assms(3) by simp
  then have "length (content ?s0) \<le> nat (jyMaxBody c)" "0 \<le> jyMaxBody c" using assms(4) by simp_all
  then have fr: "budget_frame [] (final ?s0) ?bud" and bc: "budget_content content ?bud = content ?s0"
    using assms(2) by (simp_all add: budget_frame_def budget_content_def resetBudget_def)
  note ms = multi_bytes_source [OF budget_frame_source [of "[]" "final ?s0"]]
  have o: "multi_bytes_ok (budget_frame [] (final ?s0)) ?src"
    using fr by (simp add: multi_bytes_ok_def multi_ok_def)
  have c: "multi_content (\<lambda>s. s) (\<lambda>_. EOF) (budget_content content) ?src = [10] @ magicPrefix @ gobEncodeBytes blob"
    using assms(3) by (simp add: multi_content_def bc)
  have sp: "\<forall>x \<in> set [10 :: byte]. is_space x" by (simp add: is_space_def)
  have ln: "int (length [10 :: byte] + 5 + length (gobEncodeBytes blob)) \<le> jyMaxBody c" using assms(4) by simp
  obtain s' where s': "readCryptoBodySource L G (multiRead bytesRead (budgetRead rd)) (jyCrypto c) (jyMaxBody c) ?src =
      Some (Inr t, s')" "multi_content (\<lambda>s. s) (\<lambda>_. EOF) (budget_content content) s' = []"
      "multi_bytes_ok (budget_frame [] (final ?s0)) s'"
    using byte_source.readCryptoBodySource_blob [OF ms assms(1) o c sp ln assms(5,6)] by blast
  then have e: "mFst s' = []" "budget_content content (mSnd s') = []" "budget_frame [] (final ?s0) (mSnd s')"
    by (auto simp: multi_content_def multi_bytes_ok_def multi_ok_def le_Suc_eq split: if_splits)
  have "content (bgSrc (mSnd s')) = []" using budget_frame_content [OF e(3)] e(2) by simp
  then show ?thesis
    using s'(1) e(1,3)
    by (simp add: cryptoReadBody_def decodeCryptoBodySource_def resetCodec_def Let_def jy_idle_def
        newDecoder_def no_rest_def budget_frame_def)
qed

end

end
