(* ===== verification/JsonCryptoSession.thy ===== *)
theory JsonCryptoSession
  imports JsonCryptoCodec
begin

text \<open>
  Sessions of the encrypted JSON codecs of \<open>JsonCryptoCodec\<close>: a client that sends its calls one
  at a time is understood, and a client that sends the next call before the server has read the
  last one is not.
\<close>

subsection \<open>Sizes\<close>

lemma gobUint_length: "n < 2 ^ 64 \<Longrightarrow> 1 \<le> length (gobUint n) \<and> length (gobUint n) \<le> 9"
  using be_bytes_length [of n 7] by (simp add: gobUint_def)

lemma bytesBody_length: "length b < 2 ^ 63 \<Longrightarrow> length (bytesBody b) \<le> length b + 11"
  using gobUint_length [of "length b"] by (simp add: bytesBody_def)

lemma gobEncodeBytes_length: "length b < 2 ^ 63 \<Longrightarrow> length (gobEncodeBytes b) \<le> length b + 20"
proof -
  assume b: "length b < 2 ^ 63"
  then have "length (bytesBody b) \<le> length b + 11" by (rule bytesBody_length)
  moreover have "length (gobUint (length (bytesBody b))) \<le> 9"
    using gobUint_length [of "length (bytesBody b)"] bytesBody_length [OF b] b by simp
  ultimately show ?thesis by (simp add: gobEncodeBytes_def gobMessage_def)
qed

lemma Encrypt_length:
  assumes "crypto_lib_ok L" "crypto_wf c" "rand_ok rnd" "Encrypt L rnd c t = Inr ct"
  shows "length ct = length t + 28"
proof -
  obtain n where n: "length n = gcmNonceSize" "ct = n @ gcmSeal L (crGcm c) n t"
    by (rule Encrypt_Inr [OF assms(3,2,4)])
  then show ?thesis using crypto_lib_seal [OF assms(1,2) n(1), of t]
    by (simp add: gcmNonceSize_def gcmTagSize_def)
qed

lemma Decrypt_Encrypt:
  assumes "crypto_lib_ok L" "crypto_wf c" "rand_ok rnd" "Encrypt L rnd c t = Inr ct"
  shows "Decrypt L c ct = Inr t"
proof -
  obtain n where n: "length n = gcmNonceSize" "ct = n @ gcmSeal L (crGcm c) n t"
    by (rule Encrypt_Inr [OF assms(3,2,4)])
  then show ?thesis using Decrypt_sealed [OF assms(1,2) n(1)] by simp
qed

subsection \<open>Writing\<close>

lemma CryptoWriteRequest_ok:
  assumes "writer_ok (jyBuf c)" "encErr (jyEnc c) = None" "Encrypt L rnd (jyCrypto c) t = Inr ct"
  shows "\<exists>b. CryptoWriteRequest L rnd (Inr h) (Inr t) c = (None, c\<lparr>jyBuf := b\<rparr>) \<and> writer_ok b \<and>
    snkOut (bwSink b) = written (jyBuf c) @ crypto_call h ct \<and> bwBuf b = []"
proof -
  have e: "encodeTo (bindR (Inr h) (\<lambda>t. Inr (t @ [10]))) (jyEnc c) (jyBuf c) =
      encodeTo (Inr (h @ [10])) (jyEnc c) (jyBuf c)" by simp
  obtain b1 where b1: "cryptoEncode (Inr h) c = (None, c\<lparr>jyBuf := b1\<rparr>)" "writer_ok b1"
      "written b1 = written (jyBuf c) @ h @ [10]"
    using encodeTo_ok [OF assms(1,2) refl, of "h @ [10]"] by (auto simp: cryptoEncode_def e simp del: bindR_Inr)
  obtain b2 where b2: "Write magicPrefix b1 = (None, b2)" "writer_ok b2" "written b2 = written b1 @ magicPrefix"
    using Write_ok [OF b1(2)] by blast
  obtain b3 where b3: "Write (gobEncodeBytes ct) b2 = (None, b3)" "writer_ok b3"
      "written b3 = written b2 @ gobEncodeBytes ct"
    using Write_ok [OF b2(2)] by blast
  obtain b4 where b4: "Flush b3 = (None, b4)" "writer_ok b4" "bwBuf b4 = []" "snkOut (bwSink b4) = written b3"
    using Flush_ok [OF b3(2)] by blast
  have "cryptoBody L rnd (Inr t) (c\<lparr>jyBuf := b1\<rparr>) = (None, c\<lparr>jyBuf := b3\<rparr>)"
    using assms(3) by (simp add: cryptoBody_def writeCryptoBody_def b2(1) b3(1))
  then have "CryptoWriteRequest L rnd (Inr h) (Inr t) c = (None, c\<lparr>jyBuf := b4\<rparr>)"
    using b1(1) b4(1) by (simp add: CryptoWriteRequest_def cryptoFlush_def)
  then show ?thesis using b1 b2 b3 b4 by (intro exI [of _ b4]) (simp add: crypto_call_def)
qed

text \<open>What a client sends for each of its calls: the random source, the header, the body.\<close>

type_synonym outgoing = "(nat \<Rightarrow> err + bytes) \<times> bytes \<times> bytes"

primrec cryptoSends ::
  "crypto_lib \<Rightarrow> outgoing list \<Rightarrow> 's jsonCryptoCodec \<Rightarrow> (err option \<times> bytes) list" where
  "cryptoSends L [] c = []"
| "cryptoSends L (m # msgs) c =
     (case CryptoWriteRequest L (fst m) (Inr (fst (snd m))) (Inr (snd (snd m))) c of
        (e, c') \<Rightarrow> (e, drop (length (snkOut (bwSink (jyBuf c)))) (snkOut (bwSink (jyBuf c')))) # cryptoSends L msgs c')"

lemma cryptoSends_ok:
  assumes "crypto_lib_ok L" "crypto_wf (jyCrypto c)" "writer_ok (jyBuf c)" "encErr (jyEnc c) = None" "bwBuf (jyBuf c) = []"
    and "\<forall>(rnd, h, t) \<in> set msgs. \<exists>n. rnd 12 = Inr n"
  shows "\<exists>blobs. cryptoSends L msgs c = map2 (\<lambda>m ct. (None, crypto_call (fst (snd m)) ct)) msgs blobs \<and>
    list_all2 (\<lambda>m ct. Encrypt L (fst m) (jyCrypto c) (snd (snd m)) = Inr ct) msgs blobs"
  using assms(2-)
proof (induction msgs arbitrary: c)
  case Nil
  then show ?case by simp
next
  case (Cons m msgs)
  obtain rnd h t where m: "m = (rnd, h, t)" by (cases m) auto
  obtain n where "rnd 12 = Inr n" using Cons.prems(5) by (auto simp: m)
  then have "Encrypt L rnd (jyCrypto c) t = Inr (n @ gcmSeal L (crGcm (jyCrypto c)) n t)"
    using Cons.prems(1) by (simp add: Encrypt_def crypto_wf_def gcmNonceSize_def)
  then obtain ct where ct: "Encrypt L rnd (jyCrypto c) t = Inr ct" by blast
  obtain b where b: "CryptoWriteRequest L rnd (Inr h) (Inr t) c = (None, c\<lparr>jyBuf := b\<rparr>)" "writer_ok b"
      "snkOut (bwSink b) = written (jyBuf c) @ crypto_call h ct" "bwBuf b = []"
    using CryptoWriteRequest_ok [OF Cons.prems(2,3) ct] by blast
  obtain blobs where "cryptoSends L msgs (c\<lparr>jyBuf := b\<rparr>) =
      map2 (\<lambda>m ct. (None, crypto_call (fst (snd m)) ct)) msgs blobs"
      "list_all2 (\<lambda>m ct. Encrypt L (fst m) (jyCrypto c) (snd (snd m)) = Inr ct) msgs blobs"
    using Cons.IH [of "c\<lparr>jyBuf := b\<rparr>"] Cons.prems b(2,4) by auto
  then show ?case
    using b(1,3) ct Cons.prems(4) by (intro exI [of _ "ct # blobs"]) (simp add: m written_def)
qed

subsection \<open>One call at a time\<close>

text \<open>The bytes of a call reach a server that is waiting for them.\<close>

definition arrive :: "'s \<Rightarrow> 's jsonCryptoCodec \<Rightarrow> 's jsonCryptoCodec" where
  "arrive s c = c\<lparr>jySrc := (jySrc c)\<lparr>mSnd := (mSnd (jySrc c))\<lparr>bgSrc := s\<rparr>\<rparr>\<rparr>"

fun cryptoServe ::
  "json_lib \<Rightarrow> crypto_lib \<Rightarrow> bytes gob_interp \<Rightarrow> (bytes \<Rightarrow> err + 'r) \<Rightarrow> (conn \<times> (bytes \<Rightarrow> err + 'v) option) list \<Rightarrow>
   conn jsonCryptoCodec \<Rightarrow> (((err + 'r) \<times> (err + 'v option)) list \<times> conn jsonCryptoCodec) option" where
  "cryptoServe J L G umReq [] c = Some ([], c)"
| "cryptoServe J L G umReq ((arrivals, body) # calls) c =
     (case CryptoReadRequestHeader J connRead umReq (arrive arrivals c) of
        None \<Rightarrow> None
      | Some (h, c1) \<Rightarrow>
          (case CryptoReadRequestBody J L G connRead body c1 of
             None \<Rightarrow> None
           | Some (v, c2) \<Rightarrow>
               (case cryptoServe J L G umReq calls c2 of
                  None \<Rightarrow> None
                | Some (rs, c3) \<Rightarrow> Some ((h, v) # rs, c3))))"

context byte_source begin

lemma crypto_call_read:
  assumes "json_lib_ok J" "crypto_lib_ok L" "gob_bytes_ok G" "crypto_wf (jyCrypto c)" "rand_ok rnd"
    and "fits J (jyMaxBody c) h" "int (length t) + 54 \<le> jyMaxBody c" "length t + 39 < tooBig"
    and "Encrypt L rnd (jyCrypto c) t = Inr ct" "jy_idle c"
    and "ok (bgSrc (mSnd (jySrc c)))" "content (bgSrc (mSnd (jySrc c))) = crypto_call h ct"
  shows "\<exists>c1 c2. CryptoReadRequestHeader J rd um c = Some (um h, c1) \<and>
    CryptoReadRequestBody J L G rd body c1 = Some (unmarshalBody J body t, c2) \<and>
    jy_idle c2 \<and> jyMaxBody c2 = jyMaxBody c \<and> jyCrypto c2 = jyCrypto c \<and>
    ok (bgSrc (mSnd (jySrc c2))) \<and> content (bgSrc (mSnd (jySrc c2))) = []"
proof -
  obtain c1 where c1: "cryptoReadHeader J rd um c = Some (um h, c1)"
      "jyMaxBody c1 = jyMaxBody c" "jyCrypto c1 = jyCrypto c" "ok (bgSrc (mSnd (jySrc c1)))"
      "jdBuf (jyDec c1) @ content (bgSrc (mSnd (jySrc c1))) = 10 # magicPrefix @ gobEncodeBytes ct"
    using cryptoReadHeader_call [OF assms(1,6,10,11), of "magicPrefix @ gobEncodeBytes ct" um] assms(12)
    by (auto simp: crypto_call_def)
  have l: "length ct = length t + 28" by (rule Encrypt_length [OF assms(2,4,5,9)])
  then have b: "length (gobEncodeBytes ct) \<le> length t + 48" "length (bytesBody ct) \<le> length t + 39"
    using gobEncodeBytes_length [of ct] bytesBody_length [of ct] assms(8) by (simp_all add: tooBig_def)
  have "\<exists>c2. cryptoReadBody J L G rd body c1 = Some (unmarshalBody J body t, c2) \<and>
      jy_idle c2 \<and> jyMaxBody c2 = jyMaxBody c1 \<and> jyCrypto c2 = jyCrypto c1 \<and>
      ok (bgSrc (mSnd (jySrc c2))) \<and> content (bgSrc (mSnd (jySrc c2))) = []"
  proof (rule cryptoReadBody_call [OF assms(3) c1(4,5)])
    show "int (6 + length (gobEncodeBytes ct)) \<le> jyMaxBody c1" using b(1) assms(7) c1(2) by simp
    show "length (bytesBody ct) < tooBig" using b(2) assms(8) by simp
    show "Decrypt L (jyCrypto c1) ct = Inr t"
      unfolding c1(3) by (rule Decrypt_Encrypt [OF assms(2,4,5,9)])
  qed
  with c1 show ?thesis by (auto simp: CryptoReadRequestHeader_def CryptoReadRequestBody_def)
qed

end

lemma cryptoServe_call:
  assumes "json_lib_ok J" "crypto_lib_ok L" "gob_bytes_ok G" "crypto_wf (jyCrypto c)" "rand_ok rnd"
    and "fits J (jyMaxBody c) h" "int (length t) + 54 \<le> jyMaxBody c" "length t + 39 < tooBig"
    and "Encrypt L rnd (jyCrypto c) t = Inr ct" "cn.jy_idle c"
    and "conn_ok arrivals" "conn_content arrivals = crypto_call h ct"
  shows "\<exists>c1 c2. CryptoReadRequestHeader J connRead um (arrive arrivals c) = Some (um h, c1) \<and>
    CryptoReadRequestBody J L G connRead body c1 = Some (unmarshalBody J body t, c2) \<and>
    cn.jy_idle c2 \<and> jyMaxBody c2 = jyMaxBody c \<and> jyCrypto c2 = jyCrypto c"
proof -
  have "cn.jy_idle (arrive arrivals c)"
    using assms(10) by (simp add: cn.jy_idle_def cn.no_rest_def arrive_def)
  then show ?thesis
    using cn.crypto_call_read [of J L G "arrive arrivals c" rnd h t ct um body] assms by (auto simp: arrive_def)
qed

lemma cryptoServe_calls:
  assumes "json_lib_ok J" "crypto_lib_ok L" "gob_bytes_ok G"
    and "crypto_wf (jyCrypto c)" "cn.jy_idle c"
    and "\<forall>(rnd, h, t) \<in> set msgs. rand_ok rnd \<and> fits J (jyMaxBody c) h \<and>
      int (length t) + 54 \<le> jyMaxBody c \<and> length t + 39 < tooBig"
    and "list_all2 (\<lambda>m ct. Encrypt L (fst m) (jyCrypto c) (snd (snd m)) = Inr ct) msgs blobs"
    and "length arrs = length msgs" "length bodies = length msgs" "\<forall>a \<in> set arrs. conn_ok a"
    and "map conn_content arrs = map2 (\<lambda>m ct. crypto_call (fst (snd m)) ct) msgs blobs"
  shows "\<exists>c'. cryptoServe J L G umReq (zip arrs bodies) c =
    Some (map2 (\<lambda>m body. (umReq (fst (snd m)), unmarshalBody J body (snd (snd m)))) msgs bodies, c')"
  using assms(4-)
proof (induction msgs arbitrary: c blobs arrs bodies)
  case Nil
  then show ?case by simp
next
  case (Cons m msgs)
  obtain rnd h t where m: "m = (rnd, h, t)" by (cases m) auto
  obtain ct blobs' where bl: "blobs = ct # blobs'" using Cons.prems(4) by (cases blobs) auto
  obtain arr arrs' where ar: "arrs = arr # arrs'" using Cons.prems(5) by (cases arrs) auto
  obtain body bodies' where bo: "bodies = body # bodies'" using Cons.prems(6) by (cases bodies) auto
  have p: "rand_ok rnd" "fits J (jyMaxBody c) h" "int (length t) + 54 \<le> jyMaxBody c" "length t + 39 < tooBig"
      "Encrypt L rnd (jyCrypto c) t = Inr ct" "conn_ok arr" "conn_content arr = crypto_call h ct"
    using Cons.prems by (simp_all add: m bl ar)
  obtain c1 c2 where c: "CryptoReadRequestHeader J connRead umReq (arrive arr c) = Some (umReq h, c1)"
      "CryptoReadRequestBody J L G connRead body c1 = Some (unmarshalBody J body t, c2)"
      "cn.jy_idle c2" "jyMaxBody c2 = jyMaxBody c" "jyCrypto c2 = jyCrypto c"
    using cryptoServe_call [OF assms(1-3) Cons.prems(1) p(1-5) Cons.prems(2) p(6,7)] by blast
  obtain c3 where "cryptoServe J L G umReq (zip arrs' bodies') c2 =
      Some (map2 (\<lambda>m body. (umReq (fst (snd m)), unmarshalBody J body (snd (snd m)))) msgs bodies', c3)"
    using Cons.IH [OF _ c(3), of blobs' arrs' bodies'] Cons.prems c(4,5) by (auto simp: bl ar bo)
  then show ?case by (simp add: m ar bo c(1,2))
qed

lemma newJSONCryptoServerCodec_idle:
  assumes "crypto_lib_ok L" "newJSONCryptoServerCodec L buf conn key m = Inr c"
  shows "crypto_wf (jyCrypto c) \<and> cn.jy_idle c \<and> jyMaxBody c = effectiveMaxBody m \<and> jyBuf c = buf \<and>
    jyEnc c = newEncoder \<and> newCrypto L key = Inr (jyCrypto c)"
  using assms newCrypto_Inr [OF assms(1), of key] newCrypto_wf [OF assms(1), of key]
  by (auto simp: newJSONCryptoServerCodec_def cn.jy_idle_def cn.no_rest_def newDecoder_def Let_def)

lemma newJSONCryptoClientCodec_eq: "newJSONCryptoClientCodec = newJSONCryptoServerCodec"
  by (intro ext) (simp add: newJSONCryptoClientCodec_def newJSONCryptoServerCodec_def)

subsection \<open>Calls that arrive together\<close>

text \<open>
  \<open>gob.NewDecoder\<close> reads through a \<open>bufio.Reader\<close> of its own, which takes all that is there up
  to its size; what it has taken and not used is gone with it.
\<close>

lemma readLoop_buffered:
  assumes "n \<le> length (bioBuf b)" "0 < n"
  shows "readLoop (bufRead rd) n [] b = Some ((take n (bioBuf b), None), b\<lparr>bioBuf := drop n (bioBuf b)\<rparr>)"
proof -
  have "bioBuf b \<noteq> []" using assms by auto
  then have "bufRead rd n b = ((take n (bioBuf b), None), b\<lparr>bioBuf := drop n (bioBuf b)\<rparr>)"
    using assms(2) by (simp add: bufRead_def)
  then show ?thesis using assms by (subst readLoop.simps, simp) (subst readLoop.simps, simp)
qed

lemma ReadFull_buffered:
  assumes "n \<le> length (bioBuf b)"
  shows "ReadFull (bufRead rd) n b = Some (Inr (take n (bioBuf b)), b\<lparr>bioBuf := drop n (bioBuf b)\<rparr>)"
proof (cases "n = 0")
  case True
  have "readLoop (bufRead rd) 0 [] b = Some (([], None), b)" by (subst readLoop.simps) simp
  with True show ?thesis by (simp add: ReadFull_def)
next
  case False
  then show ?thesis using assms by (simp add: ReadFull_def readLoop_buffered)
qed

lemma decodeUintReader_buffered:
  assumes "bioBuf b = gobUint n @ rest" "n < 2 ^ 64"
  shows "decodeUintReader (bufRead rd) b = Some (Inr n, b\<lparr>bioBuf := rest\<rparr>)"
proof (cases "n \<le> 127")
  case True
  then show ?thesis using assms
    by (simp add: decodeUintReader_def ReadFull_buffered gobUint_def unat_byte Let_def)
next
  case False
  define k where "k = length (be_bytes n)"
  define x :: byte where "x = of_nat (256 - k)"
  have l: "1 \<le> k" "k \<le> 8" using be_bytes_length [of n 7] assms(2) by (auto simp: k_def)
  have g: "bioBuf b = x # be_bytes n @ rest" using False assms(1) by (simp add: gobUint_def k_def x_def)
  have "256 - k < 256" using l by simp
  then have u: "unat x = 256 - k" unfolding x_def by (rule unat_byte)
  have u': "\<not> 256 - k \<le> 127" using l by simp
  have "ReadFull (bufRead rd) 1 b = Some (Inr [x], b\<lparr>bioBuf := be_bytes n @ rest\<rparr>)"
    by (simp add: ReadFull_buffered g)
  moreover have "ReadFull (bufRead rd) k (b\<lparr>bioBuf := be_bytes n @ rest\<rparr>) = Some (Inr (be_bytes n), b\<lparr>bioBuf := rest\<rparr>)"
    by (simp add: ReadFull_buffered k_def)
  ultimately show ?thesis using u u' l by (simp add: decodeUintReader_def Let_def)
qed

lemma gobDecode_buffered:
  assumes "gob_bytes_ok G" "bioBuf b = gobEncodeBytes blob @ rest" "length (bytesBody blob) < tooBig"
  shows "gobDecode G (bufRead rd) first types b = Some (Inr blob, types, b\<lparr>bioBuf := rest\<rparr>)"
proof -
  have "decodeUintReader (bufRead rd) b = Some (Inr (length (bytesBody blob)), b\<lparr>bioBuf := bytesBody blob @ rest\<rparr>)"
    using assms(2,3) by (intro decodeUintReader_buffered) (simp_all add: gobEncodeBytes_def gobMessage_def tooBig_def)
  then have "recvMessage (bufRead rd) b = Some (Inr (bytesBody blob), b\<lparr>bioBuf := rest\<rparr>)"
    using assms(3) by (simp add: recvMessage_def ReadFull_buffered)
  moreover have "G types (bytesBody blob) = GobValue blob"
    using assms(1,3) by (simp add: gob_bytes_ok_def bytesBody_def)
  ultimately show ?thesis by (subst gobDecode.simps) simp
qed

text \<open>The reader of a body whose bytes the JSON decoder had buffered.\<close>

definition buffered_src :: "'b \<Rightarrow> int \<Rightarrow> bytes \<Rightarrow> (bytes, 'b) multi budgetReader" where
  "buffered_src b l xs = \<lparr>bgLeft = l, bgSrc = \<lparr>mFst = xs, mSnd = b, mGone = 0\<rparr>\<rparr>"

lemma read_buffered:
  assumes "xs \<noteq> []" "0 < n" "0 < l"
  shows "budgetRead (multiRead bytesRead rb) n (buffered_src b l xs) =
    ((take (min n (nat l)) xs, None),
     buffered_src b (l - int (min (min n (nat l)) (length xs))) (drop (min n (nat l)) xs))"
proof -
  have "(if int n > l then nat l else n) = min n (nat l)" using assms(3) by (auto simp: min_def)
  then show ?thesis
    using assms by (simp add: budgetRead_def buffered_src_def multiRead_def bytesRead_def Let_def min.commute)
qed

lemma ReadFull_one:
  assumes "0 < l"
  shows "ReadFull (budgetRead (multiRead bytesRead rb)) 1 (buffered_src b l (x # xs)) =
    Some (Inr [x], buffered_src b (l - 1) xs)"
proof -
  have m: "min (Suc 0) (nat l) = Suc 0" using assms by simp
  have "budgetRead (multiRead bytesRead rb) (Suc 0) (buffered_src b l (x # xs)) =
      (([x], None), buffered_src b (l - 1) xs)"
    using assms by (subst read_buffered) (simp_all add: m)
  then have "readLoop (budgetRead (multiRead bytesRead rb)) (Suc 0) [] (buffered_src b l (x # xs)) =
      Some (([x], None), buffered_src b (l - 1) xs)"
    by (subst readLoop.simps, simp) (subst readLoop.simps, simp)
  then show ?thesis by (simp add: ReadFull_def)
qed

lemma readMagic_buffered:
  assumes "k \<le> 5" "int (5 - k) < l"
  shows "readMagic (budgetRead (multiRead bytesRead rb)) k (buffered_src b l (drop k magicPrefix @ rest)) =
    Some (Inr (), buffered_src b (l - int (5 - k)) rest)"
  using assms
proof (induction "5 - k" arbitrary: k l)
  case 0
  then show ?case by (subst readMagic.simps) simp
next
  case (Suc n)
  then have k: "k < 5" by simp
  then have d: "drop k magicPrefix @ rest = magicPrefix ! k # drop (Suc k) magicPrefix @ rest"
    by (simp add: Cons_nth_drop_Suc [symmetric])
  have "readMagic (budgetRead (multiRead bytesRead rb)) k (buffered_src b l (drop k magicPrefix @ rest)) =
      readMagic (budgetRead (multiRead bytesRead rb)) (Suc k) (buffered_src b (l - 1) (drop (Suc k) magicPrefix @ rest))"
    unfolding d using k Suc.prems(2) magicPrefix_not_space [OF k]
    by (subst readMagic.simps) (simp add: ReadFull_one [unfolded One_nat_def])
  also have "\<dots> = Some (Inr (), buffered_src b (l - 1 - int (5 - Suc k)) rest)"
    using Suc.hyps k Suc.prems(2) by (intro Suc.hyps(1)) auto
  also have "l - 1 - int (5 - Suc k) = l - int (5 - k)" using k by simp
  finally show ?case .
qed

lemma gobDecodeFresh_buffered:
  assumes "gob_bytes_ok G" "length (bytesBody blob) < tooBig"
    and "length (gobEncodeBytes blob @ rest) \<le> 4096" "int (length (gobEncodeBytes blob @ rest)) \<le> l"
  shows "gobDecodeFresh G (budgetRead (multiRead bytesRead rb)) (buffered_src b l (gobEncodeBytes blob @ rest)) =
    Some (Inr blob, buffered_src b (l - int (length (gobEncodeBytes blob @ rest))) [])"
proof -
  define D where "D = gobEncodeBytes blob @ rest"
  let ?rd = "budgetRead (multiRead bytesRead rb)"
  let ?rest0 = "buffered_src b (l - int (length D)) []"
  let ?full = "\<lparr>bioBuf = D, bioErr = None, bioSrc = ?rest0\<rparr>"
  have "gobEncodeBytes blob \<noteq> []" by (simp add: gobEncodeBytes_def gobMessage_def bytesBody_def)
  then have ne: "D \<noteq> []" "0 < length D" by (simp_all add: D_def)
  have "int (length D) \<le> l" using assms(4) by (simp add: D_def)
  then have l: "0 < l" using ne(2) by linarith
  have "min bufSize (nat l) \<ge> length D" using assms(3,4) by (simp add: D_def bufSize_def)
  then have r: "?rd bufSize (buffered_src b l D) = ((D, None), ?rest0)"
    using ne l by (subst read_buffered) (simp_all add: bufSize_def min.absorb2)
  have "bufRead ?rd 1 (newBufio (buffered_src b l D)) = bufRead ?rd 1 ?full"
    using ne r by (simp add: bufRead_def newBufio_def bufSize_def)
  then have "readLoop (bufRead ?rd) 1 [] (newBufio (buffered_src b l D)) = readLoop (bufRead ?rd) 1 [] ?full"
    by (subst (1 2) readLoop.simps) simp
  then have "gobDecode G (bufRead ?rd) True [] (newBufio (buffered_src b l D)) = gobDecode G (bufRead ?rd) True [] ?full"
    by (subst (1 2) gobDecode.simps) (simp add: recvMessage_def decodeUintReader_def ReadFull_def)
  also have "\<dots> = Some (Inr blob, [], ?full\<lparr>bioBuf := rest\<rparr>)"
    by (rule gobDecode_buffered [OF assms(1) _ assms(2)]) (simp add: D_def)
  finally show ?thesis by (simp add: gobDecodeFresh_def D_def)
qed

lemma jScan_short:
  assumes "json_lib_ok J" "json_text J h"
  shows "jScan J [] = More" "jScan J [32] \<noteq> Complete 0"
proof -
  have h: "jScan J ([] @ h @ [10]) = Complete (length h)" "h \<noteq> []" using assms(2) by (simp_all add: json_text_def)
  show "jScan J [] = More"
    using json_Complete [OF assms(1), of "[]" _ "h @ [10]"] json_Bad [OF assms(1), of "[]" _ "h @ [10]"] h
    by (cases "jScan J []") auto
  have "jScan J (32 # h @ [10]) = Complete (Suc (length h))"
    using json_space [OF assms(1), of 32] h(1) by (simp add: is_space_def)
  then show "jScan J [32] \<noteq> Complete 0"
    using json_Complete [OF assms(1), of "[32]" 0 "h @ [10]"] by auto
qed

text \<open>A header and more that arrive in one piece: the decoder has it all.\<close>

lemma cryptoReadHeader_piece:
  assumes "json_lib_ok J" "json_text J h" "cn.jy_idle c" "bgSrc (mSnd (jySrc c)) = [Piece (h @ 10 # rest)]"
    and "length (h @ 10 # rest) \<le> jRoom J []" "int (length (h @ 10 # rest)) \<le> jyMaxBody c"
  shows "\<exists>c1. cryptoReadHeader J connRead um c = Some (um h, c1) \<and> jdBuf (jyDec c1) = 10 # rest \<and>
    bgSrc (mSnd (jySrc c1)) = [] \<and> jyMaxBody c1 = jyMaxBody c \<and> jyCrypto c1 = jyCrypto c"
proof -
  let ?P = "h @ 10 # rest"
  let ?m = "jySrc (resetCodec c)"
  have sel: "bgLeft (mSnd ?m) = jyMaxBody c" "bgSrc (mSnd ?m) = [Piece ?P]" "cn.no_rest (jyDirect c) ?m"
    using assms(3,4) by (simp_all add: resetCodec_def resetBudget_def cn.jy_idle_def cn.no_rest_def)
  have "budgetRead connRead (jRoom J []) (mSnd ?m) =
      ((?P, None), (mSnd ?m)\<lparr>bgLeft := jyMaxBody c - int (length ?P), bgSrc := []\<rparr>)"
    using assms(5,6) nat_mono [OF assms(6)] by (auto simp: budgetRead_def sel)
  from cn.decRead_no_rest [OF sel(3) this] obtain m' where m':
    "decRead connRead (jyDirect c) (jRoom J []) ?m = ((?P, None), m')" "bgSrc (mSnd m') = []"
    by auto
  have sc: "jScan J ?P = Complete (length h)"
    using json_text_scan [OF assms(1,2), of "[]" rest] by simp
  have "readValue J (decRead connRead (jyDirect c)) [] ?m = Some (Inr (length h), ?P, m')"
    using jScan_short(1) [OF assms(1,2)] m'(1) sc
    by (subst readValue.simps, simp) (subst readValue.simps, simp)
  moreover have "dropWhile is_space h = h" using dropWhile_spaces [OF assms(2), of "[]"] by simp
  ultimately have "decodeText J (decRead connRead (jyDirect c)) (jyDec c) ?m =
      Some (Inr h, (jyDec c)\<lparr>jdBuf := 10 # rest\<rparr>, m')"
    using assms(3) by (simp add: decodeText_def cn.jy_idle_def)
  then show ?thesis
    using m'(2) by (simp add: cryptoReadHeader_def Let_def resetCodec_def)
qed

text \<open>Reading the body then throws away what came behind it.\<close>

lemma cryptoReadBody_piece:
  assumes "gob_bytes_ok G" "length (bytesBody blob) < tooBig" "Decrypt L (jyCrypto c) blob = Inr t"
    and "jdBuf (jyDec c) = 10 # magicPrefix @ gobEncodeBytes blob @ behind" "bgSrc (mSnd (jySrc c)) = []"
    and "length (gobEncodeBytes blob @ behind) \<le> 4096" "int (length (gobEncodeBytes blob @ behind)) + 6 \<le> jyMaxBody c"
  shows "\<exists>c1. cryptoReadBody J L G connRead body c = Some (unmarshalBody J body t, c1) \<and>
    cn.jy_idle c1 \<and> bgSrc (mSnd (jySrc c1)) = []"
proof -
  let ?rb = "budgetRead connRead"
  let ?bud = "resetBudget (jyMaxBody c) (mSnd (jySrc c))"
  let ?D = "gobEncodeBytes blob @ behind"
  define m where "m = jyMaxBody c"
  have pos: "0 < m" "int (5 - 0) < m - 1" using assms(7) by (simp_all add: m_def gobEncodeBytes_def gobMessage_def bytesBody_def)
  have start: "readMagic (budgetRead (multiRead bytesRead ?rb)) 0 (buffered_src ?bud m (10 # magicPrefix @ ?D)) =
      readMagic (budgetRead (multiRead bytesRead ?rb)) 0 (buffered_src ?bud (m - 1) (magicPrefix @ ?D))"
    by (subst readMagic.simps) (simp add: ReadFull_one [unfolded One_nat_def, OF pos(1)] is_space_def)
  also have "\<dots> = Some (Inr (), buffered_src ?bud (m - 1 - int (5 - 0)) ?D)"
    using readMagic_buffered [of 0 "m - 1" ?rb ?bud ?D] pos(2) by simp
  finally have magic: "readMagic (budgetRead (multiRead bytesRead ?rb)) 0
      \<lparr>bgLeft = m, bgSrc = \<lparr>mFst = 10 # magicPrefix @ ?D, mSnd = ?bud, mGone = 0\<rparr>\<rparr> =
      Some (Inr (), buffered_src ?bud (m - 6) ?D)"
    by (simp add: buffered_src_def)
  have "gobDecodeFresh G (budgetRead (multiRead bytesRead ?rb)) (buffered_src ?bud (m - 6) ?D) =
      Some (Inr blob, buffered_src ?bud (m - 6 - int (length ?D)) [])"
    by (rule gobDecodeFresh_buffered [OF assms(1,2,6)]) (use assms(7) in \<open>simp add: m_def\<close>)
  then have "readCryptoBodySource L G (multiRead bytesRead ?rb) (jyCrypto c) m
      \<lparr>mFst = 10 # magicPrefix @ ?D, mSnd = ?bud, mGone = 0\<rparr> =
      Some (Inr t, \<lparr>mFst = [], mSnd = ?bud, mGone = 0\<rparr>)"
    using assms(3) by (simp add: readCryptoBodySource_def magic del: append_assoc) (simp add: buffered_src_def)
  then show ?thesis
    using assms(4,5)
    by (simp add: cryptoReadBody_def decodeCryptoBodySource_def resetCodec_def Let_def m_def cn.jy_idle_def
        newDecoder_def cn.no_rest_def resetBudget_def)
qed

lemma cryptoReadHeader_empty:
  assumes "json_lib_ok J" "json_text J h" "cn.jy_idle c" "bgSrc (mSnd (jySrc c)) = []" "0 < jyMaxBody c"
  shows "\<exists>c1. cryptoReadHeader J connRead um c = Some (Inl EOF, c1)"
proof -
  let ?m = "jySrc (resetCodec c)"
  have sel: "bgLeft (mSnd ?m) = jyMaxBody c" "bgSrc (mSnd ?m) = []" "cn.no_rest (jyDirect c) ?m"
    using assms(3,4) by (simp_all add: resetCodec_def resetBudget_def cn.jy_idle_def cn.no_rest_def)
  obtain b where "budgetRead connRead (jRoom J []) (mSnd ?m) = (([], Some EOF), b)"
    using assms(5) by (simp add: budgetRead_def sel)
  from cn.decRead_no_rest [OF sel(3) this] obtain m' where
    "decRead connRead (jyDirect c) (jRoom J []) ?m = (([], Some EOF), m')" by auto
  moreover have "atReadError J [] EOF = Inl EOF"
    using jScan_short [OF assms(1,2)] by (simp add: atReadError_def nonSpace_def)
  ultimately have "readValue J (decRead connRead (jyDirect c)) [] ?m = Some (Inl EOF, [], m')"
    using jScan_short(1) [OF assms(1,2)] by (subst readValue.simps) simp
  then show ?thesis
    using assms(3) by (simp add: cryptoReadHeader_def decodeText_def Let_def resetCodec_def cn.jy_idle_def)
qed

text \<open>The two sessions below, for every property that speaks of one.\<close>

lemma json_crypto_session:
  fixes cl :: "'s jsonCryptoCodec"
  assumes "json_lib_ok J" and "crypto_lib_ok L" and "gob_bytes_ok G"
    and "newJSONCryptoClientCodec L (newWriter \<lparr>snkOut = [], snkLimit = None\<rparr>) x key m' = Inr cl"
    and "newJSONCryptoServerCodec L w conn0 key m = Inr srv"
    and "\<forall>(rnd, h, t) \<in> set msgs. rand_ok rnd \<and> (\<exists>n. rnd 12 = Inr n) \<and> fits J (effectiveMaxBody m) h \<and>
      int (length t) + 54 \<le> effectiveMaxBody m \<and> length t + 39 < tooBig"
    and "length arrs = length msgs" and "length bodies = length msgs" and "\<forall>a \<in> set arrs. conn_ok a"
    and "map conn_content arrs = map snd (cryptoSends L msgs cl)"
  shows "map fst (cryptoSends L msgs cl) = replicate (length msgs) None \<and>
    (\<exists>c'. cryptoServe J L G umReq (zip arrs bodies) srv =
      Some (map2 (\<lambda>m body. (umReq (fst (snd m)), unmarshalBody J body (snd (snd m)))) msgs bodies, c'))"
proof -
  have srv: "crypto_wf (jyCrypto srv)" "cn.jy_idle srv" "jyMaxBody srv = effectiveMaxBody m"
      "newCrypto L key = Inr (jyCrypto srv)"
    using newJSONCryptoServerCodec_idle [OF assms(2,5)] by auto
  have cl: "jyCrypto cl = jyCrypto srv" "writer_ok (jyBuf cl)" "encErr (jyEnc cl) = None" "bwBuf (jyBuf cl) = []"
    using assms(4) srv(4)
    by (auto simp: newJSONCryptoClientCodec_def Let_def newWriter_def writer_ok_def newEncoder_def)
  have r: "\<forall>(rnd, h, t) \<in> set msgs. \<exists>n. rnd 12 = Inr n" using assms(6) by auto
  obtain blobs where b: "cryptoSends L msgs cl = map2 (\<lambda>m ct. (None, crypto_call (fst (snd m)) ct)) msgs blobs"
      "list_all2 (\<lambda>m ct. Encrypt L (fst m) (jyCrypto cl) (snd (snd m)) = Inr ct) msgs blobs"
    using cryptoSends_ok [OF assms(2) _ cl(2-4) r] srv(1) by (auto simp: cl(1))
  have len: "length blobs = length msgs" using b(2) by (simp add: list_all2_lengthD)
  have c: "map conn_content arrs = map2 (\<lambda>m ct. crypto_call (fst (snd m)) ct) msgs blobs"
    using assms(10) by (simp add: b(1) case_prod_beta comp_def)
  have f: "map fst (cryptoSends L msgs cl) = replicate (length msgs) None"
    using len by (simp add: b(1) case_prod_beta comp_def map_replicate_const)
  have "\<exists>c'. cryptoServe J L G umReq (zip arrs bodies) srv =
      Some (map2 (\<lambda>m body. (umReq (fst (snd m)), unmarshalBody J body (snd (snd m)))) msgs bodies, c')"
    by (rule cryptoServe_calls [OF assms(1-3) srv(1,2) _ _ assms(7,8,9) c])
      (use assms(6) b(2) srv(3) cl(1) in auto)
  with f show ?thesis by blast
qed

lemma json_crypto_loss:
  assumes "json_lib_ok J" and "crypto_lib_ok L" and "gob_bytes_ok G"
    and "newJSONCryptoServerCodec L w [Piece (crypto_call h ct @ behind)] key m = Inr srv"
    and "rand_ok rnd" and "Encrypt L rnd (jyCrypto srv) t = Inr ct" and "json_text J h"
    and "length (crypto_call h ct @ behind) \<le> jRoom J []" and "length (crypto_call h ct @ behind) \<le> 4096"
    and "int (length (crypto_call h ct @ behind)) \<le> effectiveMaxBody m"
  shows "\<exists>c1 c2 c3. CryptoReadRequestHeader J connRead um srv = Some (um h, c1) \<and>
    CryptoReadRequestBody J L G connRead body c1 = Some (unmarshalBody J body t, c2) \<and>
    CryptoReadRequestHeader J connRead um c2 = Some (Inl EOF, c3)"
proof -
  have srv: "crypto_wf (jyCrypto srv)" "cn.jy_idle srv" "jyMaxBody srv = effectiveMaxBody m"
    using newJSONCryptoServerCodec_idle [OF assms(2,4)] by auto
  have s0: "bgSrc (mSnd (jySrc srv)) = [Piece (h @ 10 # (magicPrefix @ gobEncodeBytes ct @ behind))]"
    using assms(4) by (auto simp: newJSONCryptoServerCodec_def bindR_eq_Inr Let_def crypto_call_def)
  have len: "length (h @ 10 # (magicPrefix @ gobEncodeBytes ct @ behind)) = length (crypto_call h ct @ behind)"
    by (simp add: crypto_call_def)
  obtain c1 where c1: "cryptoReadHeader J connRead um srv = Some (um h, c1)"
      "jdBuf (jyDec c1) = 10 # magicPrefix @ gobEncodeBytes ct @ behind" "bgSrc (mSnd (jySrc c1)) = []"
      "jyMaxBody c1 = effectiveMaxBody m" "jyCrypto c1 = jyCrypto srv"
    using cryptoReadHeader_piece [OF assms(1,7) srv(2) s0, of um] assms(8,10) unfolding len srv(3) by blast
  have d: "Decrypt L (jyCrypto c1) ct = Inr t"
    unfolding c1(5) by (rule Decrypt_Encrypt [OF assms(2) srv(1) assms(5,6)])
  have l: "length (gobEncodeBytes ct @ behind) + 6 \<le> length (crypto_call h ct @ behind)"
    by (simp add: crypto_call_def)
  have b: "length (bytesBody ct) < tooBig"
    using l assms(9) by (simp add: gobEncodeBytes_def gobMessage_def tooBig_def)
  have "length (gobEncodeBytes ct @ behind) \<le> 4096" "int (length (gobEncodeBytes ct @ behind)) + 6 \<le> jyMaxBody c1"
    using l assms(9,10) unfolding c1(4) by linarith+
  from cryptoReadBody_piece [OF assms(3) b d c1(2,3) this] obtain c2 where
    c2: "cryptoReadBody J L G connRead body c1 = Some (unmarshalBody J body t, c2)" "cn.jy_idle c2"
      "bgSrc (mSnd (jySrc c2)) = []" by blast
  have m2: "jyMaxBody c2 = effectiveMaxBody m"
    using c2(1) c1(4) by (auto simp: cryptoReadBody_def resetCodec_def Let_def split: option.splits)
  have "0 < jyMaxBody c2" by (simp add: m2 effectiveMaxBody_def DefaultMaxJSONBody_def)
  from cryptoReadHeader_empty [OF assms(1,7) c2(2,3) this] c1(1) c2(1) show ?thesis
    by (simp add: CryptoReadRequestHeader_def CryptoReadRequestBody_def)
qed

subsection \<open>Properties\<close>

text \<open>
  An encrypted session, one call at a time. A client and a server made with the same
  secret: the client's requests are all written, and if each arrives, cut into pieces in any
  way, while the server waits for it, reading header and body gives exactly what unmarshalling
  the sent texts gives, in order. Each message must fit the server's limit (a body with 54
  bytes of framing).
\<close>

theorem json_crypto_session_roundtrip:
  fixes cl :: "'s jsonCryptoCodec"
  assumes "json_lib_ok J" and "crypto_lib_ok L" and "gob_bytes_ok G"
    and "newJSONCryptoClientCodec L (newWriter \<lparr>snkOut = [], snkLimit = None\<rparr>) x key m' = Inr cl"
    and "newJSONCryptoServerCodec L w conn0 key m = Inr srv"
    and "\<forall>(rnd, h, t) \<in> set msgs. rand_ok rnd \<and> (\<exists>n. rnd 12 = Inr n) \<and> fits J (effectiveMaxBody m) h \<and>
      int (length t) + 54 \<le> effectiveMaxBody m \<and> length t + 39 < tooBig"
    and "length arrs = length msgs" and "length bodies = length msgs" and "\<forall>a \<in> set arrs. conn_ok a"
    and "map conn_content arrs = map snd (cryptoSends L msgs cl)"
  shows "map fst (cryptoSends L msgs cl) = replicate (length msgs) None \<and>
    (\<exists>c'. cryptoServe J L G umReq (zip arrs bodies) srv =
      Some (map2 (\<lambda>m body. (umReq (fst (snd m)), unmarshalBody J body (snd (snd m)))) msgs bodies, c'))"
  by (rule json_crypto_session [OF assms])

text \<open>
  C22: two encrypted calls that reach the server in one piece (a client may send the next call
  before the answer to the last one): the first is read and decrypted, and whatever came
  behind it is thrown away. The next header read gives EOF although the peer has sent more. A client
  made over the same bytes loses the second of two responses in the same way.
\<close>

theorem json_crypto_pipelined_loss:
  assumes "json_lib_ok J" and "crypto_lib_ok L" and "gob_bytes_ok G"
    and "newJSONCryptoServerCodec L w [Piece (crypto_call h ct @ behind)] key m = Inr srv"
    and "rand_ok rnd" and "Encrypt L rnd (jyCrypto srv) t = Inr ct" and "json_text J h"
    and "length (crypto_call h ct @ behind) \<le> jRoom J []" and "length (crypto_call h ct @ behind) \<le> 4096"
    and "int (length (crypto_call h ct @ behind)) \<le> effectiveMaxBody m"
  shows "\<exists>c1 c2 c3. CryptoReadRequestHeader J connRead um srv = Some (um h, c1) \<and>
    CryptoReadRequestBody J L G connRead body c1 = Some (unmarshalBody J body t, c2) \<and>
    CryptoReadRequestHeader J connRead um c2 = Some (Inl EOF, c3) \<and>
    newJSONCryptoClientCodec L w [Piece (crypto_call h ct @ behind)] key m = Inr srv \<and>
    CryptoReadResponseHeader J connRead um srv = Some (um h, c1) \<and>
    CryptoReadResponseBody J L G connRead body c1 = Some (unmarshalBody J body t, c2) \<and>
    CryptoReadResponseHeader J connRead um c2 = Some (Inl EOF, c3)"
  using json_crypto_loss [OF assms, of um body] assms(4)
  by (auto simp: newJSONCryptoClientCodec_eq CryptoReadResponseHeader_def CryptoReadResponseBody_def
      CryptoReadRequestHeader_def CryptoReadRequestBody_def)

subsection \<open>Witnesses\<close>

definition sink0 :: sink where
  "sink0 = \<lparr>snkOut = [], snkLimit = None\<rparr>"

lemma newJSONCrypto_exists:
  obtains c where "newJSONCryptoServerCodec plain_crypto_lib buf conn key m = Inr c"
    "jyCrypto c = \<lparr>crGcm = normalizeKey plain_crypto_lib key, crNonceSize = gcmNonceSize\<rparr>"
  by (simp add: newJSONCryptoServerCodec_def newCrypto_Inr [OF plain_crypto_lib_ok] Let_def)

theorem json_crypto_session_roundtrip_witness:
  "\<exists>cl srv c'. newJSONCryptoClientCodec plain_crypto_lib (newWriter sink0) () [1] 0 = Inr cl \<and>
    newJSONCryptoServerCodec plain_crypto_lib (newWriter sink0) [] [1] 0 = Inr srv \<and>
    cryptoServe brace_lib plain_crypto_lib plain_gob Inr
      (zip [[Piece (concat (map snd (cryptoSends plain_crypto_lib [(zero_rand, braces [1], braces [2])] cl)))]]
         [Some Inr]) srv =
    Some ([(Inr (braces [1]), Inr (Some (braces [2])))], c')"
proof -
  obtain cl :: "unit jsonCryptoCodec" where cl:
    "newJSONCryptoClientCodec plain_crypto_lib (newWriter sink0) () [1] 0 = Inr cl"
    unfolding newJSONCryptoClientCodec_eq by (rule newJSONCrypto_exists)
  obtain srv :: "conn jsonCryptoCodec" where srv:
    "newJSONCryptoServerCodec plain_crypto_lib (newWriter sink0) [] [1] 0 = Inr srv"
    by (rule newJSONCrypto_exists)
  let ?msgs = "[(zero_rand, braces [1], braces [2])]"
  let ?out = "concat (map snd (cryptoSends plain_crypto_lib ?msgs cl))"
  have cw: "crypto_wf (jyCrypto cl)" "writer_ok (jyBuf cl)" "encErr (jyEnc cl) = None" "bwBuf (jyBuf cl) = []"
    using cl newCrypto_wf [OF plain_crypto_lib_ok, of "[1]"]
    by (auto simp: newJSONCryptoClientCodec_def bindR_eq_Inr Let_def newWriter_def writer_ok_def newEncoder_def sink0_def)
  obtain blobs where b: "cryptoSends plain_crypto_lib ?msgs cl =
      map2 (\<lambda>m ct. (None, crypto_call (fst (snd m)) ct)) ?msgs blobs"
      "list_all2 (\<lambda>m ct. Encrypt plain_crypto_lib (fst m) (jyCrypto cl) (snd (snd m)) = Inr ct) ?msgs blobs"
    using cryptoSends_ok [OF plain_crypto_lib_ok cw, of ?msgs] by (auto simp: zero_rand_def)
  obtain ct where ct: "blobs = [ct]" using b(2) by (cases blobs) auto
  have out: "map snd (cryptoSends plain_crypto_lib ?msgs cl) = [?out]" "?out \<noteq> []"
    using b(1) by (simp_all add: ct crypto_call_def magicPrefix_def del: cryptoSends.simps)
  have f: "fits brace_lib (effectiveMaxBody 0) (braces [1])" "json_text brace_lib (braces [2])"
    using brace_text [of "[1]"] brace_text [of "[2]"]
    by (simp_all add: fits_def effectiveMaxBody_def DefaultMaxJSONBody_def braces_def)
  have side: "\<forall>(rnd, h, t) \<in> set ?msgs. rand_ok rnd \<and> (\<exists>n. rnd 12 = Inr n) \<and>
      fits brace_lib (effectiveMaxBody 0) h \<and> int (length t) + 54 \<le> effectiveMaxBody 0 \<and> length t + 39 < tooBig"
    using f zero_rand_ok
    by (simp add: zero_rand_def effectiveMaxBody_def DefaultMaxJSONBody_def braces_def tooBig_def)
  have arr: "\<forall>a \<in> set [[Piece ?out]]. conn_ok a" "map conn_content [[Piece ?out]] =
      map snd (cryptoSends plain_crypto_lib ?msgs cl)"
    using out by (simp_all add: conn_ok_def del: cryptoSends.simps)
  have cl': "newJSONCryptoClientCodec plain_crypto_lib (newWriter \<lparr>snkOut = [], snkLimit = None\<rparr>) () [1] 0 = Inr cl"
    using cl by (simp add: sink0_def)
  have "length [[Piece ?out]] = length ?msgs" "length [Some Inr] = length ?msgs" by simp_all
  from json_crypto_session_roundtrip [OF brace_lib_ok plain_crypto_lib_ok plain_gob_ok cl' srv side this arr,
      of "Inr :: bytes \<Rightarrow> err + bytes"]
  obtain c' where "cryptoServe brace_lib plain_crypto_lib plain_gob Inr (zip [[Piece ?out]] [Some Inr]) srv =
      Some (map2 (\<lambda>m body. (Inr (fst (snd m)), unmarshalBody brace_lib body (snd (snd m)))) ?msgs [Some Inr], c')"
    by blast
  then show ?thesis using cl srv by (auto simp: unmarshalBody_def simp del: cryptoSends.simps)
qed

theorem json_crypto_pipelined_loss_witness:
  "\<exists>ct srv c1 c2 c3. newJSONCryptoServerCodec plain_crypto_lib (newWriter sink0)
      [Piece (crypto_call (braces [1]) ct @ crypto_call (braces [3]) ct)] [1] 0 = Inr srv \<and>
    CryptoReadRequestHeader brace_lib connRead Inr srv = Some (Inr (braces [1]), c1) \<and>
    CryptoReadRequestBody brace_lib plain_crypto_lib plain_gob connRead (Some Inr) c1 =
      Some (Inr (Some (braces [2])), c2) \<and>
    CryptoReadRequestHeader brace_lib connRead Inr c2 = Some (Inl EOF, c3)"
proof -
  define c where "c = \<lparr>crGcm = normalizeKey plain_crypto_lib [1], crNonceSize = gcmNonceSize\<rparr>"
  obtain ct where ct: "Encrypt plain_crypto_lib zero_rand c (braces [2]) = Inr ct"
    by (simp add: Encrypt_def zero_rand_def)
  have "crypto_wf c"
    using normalizeKey_size [OF plain_crypto_lib_ok, of "[1]"] by (simp add: c_def crypto_wf_def)
  then have l: "length ct = 31"
    using Encrypt_length [OF plain_crypto_lib_ok _ zero_rand_ok ct] by (simp add: braces_def)
  then have n: "length (gobEncodeBytes ct) \<le> 51" using gobEncodeBytes_length [of ct] by simp
  let ?in = "crypto_call (braces [1]) ct @ crypto_call (braces [3]) ct"
  have len: "length ?in \<le> 300" using n by (simp add: crypto_call_def braces_def)
  obtain srv where srv: "newJSONCryptoServerCodec plain_crypto_lib (newWriter sink0) [Piece ?in] [1] 0 = Inr srv"
      "jyCrypto srv = c"
    unfolding c_def by (rule newJSONCrypto_exists)
  have e: "Encrypt plain_crypto_lib zero_rand (jyCrypto srv) (braces [2]) = Inr ct" using ct srv(2) by simp
  have "length ?in \<le> jRoom brace_lib []" "length ?in \<le> 4096" "int (length ?in) \<le> effectiveMaxBody 0"
    using len by (simp_all add: brace_lib_def effectiveMaxBody_def DefaultMaxJSONBody_def)
  from json_crypto_pipelined_loss [OF brace_lib_ok plain_crypto_lib_ok plain_gob_ok srv(1) zero_rand_ok e
      brace_text this, of "Inr :: bytes \<Rightarrow> err + bytes" "Some (Inr :: bytes \<Rightarrow> err + bytes)"]
  obtain c1 c2 c3 where "CryptoReadRequestHeader brace_lib connRead Inr srv = Some (Inr (braces [1]), c1)"
    "CryptoReadRequestBody brace_lib plain_crypto_lib plain_gob connRead (Some Inr) c1 =
      Some (unmarshalBody brace_lib (Some Inr) (braces [2]), c2)"
    "CryptoReadRequestHeader brace_lib connRead Inr c2 = Some (Inl EOF, c3)" by auto
  moreover have "unmarshalBody brace_lib (Some Inr) (braces [2]) = Inr (Some (braces [2]))"
    by (simp add: unmarshalBody_def)
  ultimately show ?thesis using srv(1) by metis
qed

end
