(* ===== verification/GobCodec.thy ===== *)
theory GobCodec
  imports GobBlob GoWriter RpcCrypto
begin

text \<open>
  The codecs of v2 (\<open>v2/codec/server_gob_codec.go\<close>, \<open>client_gob_codec.go\<close>,
  \<open>server_crypto_codec.go\<close>, \<open>client_crypto_codec.go\<close>, \<open>buffer.go\<close>, \<open>util.go\<close>): gob streams, and gob
  streams whose bodies are sealed behind the prefix \<open>CRYPT\<close>. What gob makes of a value is an
  argument: the bodies of the type definitions it sends first and the body of the value, or
  the error it meets (after the definitions); what a decoder makes of bodies is a
  \<open>gob_interp\<close>, which for a nil target yields \<open>None\<close>. Logging is left out.
\<close>

subsection \<open>util.go, errors.go, const.go\<close>

text \<open>The loop compares index by index; the first test makes the lengths equal.\<close>

fun slicesLoop :: "bytes \<Rightarrow> bytes \<Rightarrow> bool" where
  "slicesLoop (x # xs) (y # ys) \<longleftrightarrow> (if x \<noteq> y then False else slicesLoop xs ys)"
| "slicesLoop _ _ \<longleftrightarrow> True"

definition slicesEqual :: "bytes \<Rightarrow> bytes \<Rightarrow> bool" where
  "slicesEqual a b = (if length a \<noteq> length b then False else slicesLoop a b)"

lemma slicesEqual_iff: "slicesEqual a b \<longleftrightarrow> a = b"
  by (induction a b rule: slicesLoop.induct) (auto simp: slicesEqual_def)

text \<open>\<open>%c\<close> of a byte is the UTF-8 text of the rune with its number.\<close>

definition Sprintf_c :: "byte \<Rightarrow> string" where
  "Sprintf_c c =
     (if unat c < 128 then [char_of (unat c)]
      else [char_of (192 + unat c div 64), char_of (128 + unat c mod 64)])"

fun Join :: "string list \<Rightarrow> string \<Rightarrow> string" where
  "Join [] sep = []"
| "Join [s] sep = s"
| "Join (s # ss) sep = s @ sep @ Join ss sep"

definition chars :: "bytes \<Rightarrow> string" where
  "chars b = Join (foldl (\<lambda>res c. res @ [Sprintf_c c]) [] b) '', ''"

definition InvalidDataErr :: err where
  "InvalidDataErr = New ''invalid input data''"

definition InvalidPrefixErr :: err where
  "InvalidPrefixErr = New ''invalid data prefix''"

definition PrefixReadErr :: err where
  "PrefixReadErr = New ''prefix read error''"

definition magicPrefix2 :: bytes where
  "magicPrefix2 = [67, 82, 89, 80, 84]"

text \<open>\<open>errors.Wrap\<close> of \<open>github.com/pkg/errors\<close>: the text in front, the error behind.\<close>

definition Wrap :: "err \<Rightarrow> string \<Rightarrow> err" where
  "Wrap e msg = Errorf (msg @ '': %w'') [] (Some e)"

subsection \<open>gob.Encoder\<close>

type_synonym gob_out = "bytes list \<times> (err + bytes)"

primrec writeMessages :: "bytes list \<Rightarrow> bufw \<Rightarrow> err option \<times> bufw" where
  "writeMessages [] b = (None, b)"
| "writeMessages (m # ms) b =
     (case Write (gobMessage m) b of
        (Some e, b') \<Rightarrow> (Some e, b')
      | (None, b') \<Rightarrow> writeMessages ms b')"

definition gobEncodeTo :: "gob_out \<Rightarrow> bufw \<Rightarrow> err option \<times> bufw" where
  "gobEncodeTo v b =
     (case writeMessages (fst v) b of
        (Some e, b') \<Rightarrow> (Some e, b')
      | (None, b') \<Rightarrow> (case snd v of Inl e \<Rightarrow> (Some e, b') | Inr body \<Rightarrow> Write (gobMessage body) b'))"

text \<open>An encoder of its own, into memory.\<close>

definition gobEncodeFresh :: "gob_out \<Rightarrow> err + bytes" where
  "gobEncodeFresh v =
     (case snd v of
        Inl e \<Rightarrow> Inl e
      | Inr body \<Rightarrow> Inr (concat (map gobMessage (fst v)) @ gobMessage body))"

definition gob_text :: "gob_out \<Rightarrow> bytes" where
  "gob_text v = concat (map gobMessage (fst v)) @ (case snd v of Inl _ \<Rightarrow> [] | Inr body \<Rightarrow> gobMessage body)"

lemma writeMessages_ok:
  "writer_ok b \<Longrightarrow> \<exists>b'. writeMessages ms b = (None, b') \<and> writer_ok b' \<and>
     written b' = written b @ concat (map gobMessage ms)"
proof (induction ms arbitrary: b)
  case (Cons m ms)
  obtain b1 where b1: "Write (gobMessage m) b = (None, b1)" "writer_ok b1" "written b1 = written b @ gobMessage m"
    using Write_ok [OF Cons.prems] by blast
  then show ?case using Cons.IH [OF b1(2)] by auto
qed simp

lemma gobEncodeTo_ok:
  assumes "writer_ok b" "snd v = Inr body"
  shows "\<exists>b'. gobEncodeTo v b = (None, b') \<and> writer_ok b' \<and> written b' = written b @ gob_text v"
proof -
  obtain b1 where b1: "writeMessages (fst v) b = (None, b1)" "writer_ok b1"
      "written b1 = written b @ concat (map gobMessage (fst v))"
    using writeMessages_ok [OF assms(1)] by blast
  obtain b2 where "Write (gobMessage body) b1 = (None, b2)" "writer_ok b2" "written b2 = written b1 @ gobMessage body"
    using Write_ok [OF b1(2)] by blast
  then show ?thesis using b1 assms(2) by (simp add: gobEncodeTo_def gob_text_def)
qed

subsection \<open>The plain gob codecs\<close>

text \<open>
  \<open>gcSrc\<close> is the reader the decoder reads from: the connection itself when it can give single
  bytes, otherwise the \<open>bufio.Reader\<close> \<open>gob.NewDecoder\<close> puts on it.
\<close>

record 's gobCodec =
  gcSrc :: 's
  gcTypes :: "bytes list"
  gcBuf :: bufw
  gcClosed :: bool
  gcCloses :: nat

definition newGobServerCodec :: "bufw \<Rightarrow> 's \<Rightarrow> 's gobCodec" where
  "newGobServerCodec buf src = \<lparr>gcSrc = src, gcTypes = [], gcBuf = buf, gcClosed = False, gcCloses = 0\<rparr>"

definition newGobClientCodec :: "bufw \<Rightarrow> 's \<Rightarrow> 's gobCodec" where
  "newGobClientCodec buf src = \<lparr>gcSrc = src, gcTypes = [], gcBuf = buf, gcClosed = False, gcCloses = 0\<rparr>"

definition gcDecode :: "'s reader \<Rightarrow> 'v gob_interp \<Rightarrow> 's gobCodec \<Rightarrow> ((err + 'v) \<times> 's gobCodec) option" where
  "gcDecode rd G c =
     (case gobDecode G rd True (gcTypes c) (gcSrc c) of
        None \<Rightarrow> None
      | Some (r, ts, s) \<Rightarrow> Some (r, c\<lparr>gcTypes := ts, gcSrc := s\<rparr>))"

definition GobReadRequestHeader :: "'s reader \<Rightarrow> 'r gob_interp \<Rightarrow> 's gobCodec \<Rightarrow> ((err + 'r) \<times> 's gobCodec) option" where
  "GobReadRequestHeader rd G c = gcDecode rd G c"

definition GobReadRequestBody :: "'s reader \<Rightarrow> 'v gob_interp \<Rightarrow> 's gobCodec \<Rightarrow> ((err + 'v) \<times> 's gobCodec) option" where
  "GobReadRequestBody rd G c = gcDecode rd G c"

definition GobReadResponseHeader :: "'s reader \<Rightarrow> 'r gob_interp \<Rightarrow> 's gobCodec \<Rightarrow> ((err + 'r) \<times> 's gobCodec) option" where
  "GobReadResponseHeader rd G c = gcDecode rd G c"

definition GobReadResponseBody :: "'s reader \<Rightarrow> 'v gob_interp \<Rightarrow> 's gobCodec \<Rightarrow> ((err + 'v) \<times> 's gobCodec) option" where
  "GobReadResponseBody rd G c = gcDecode rd G c"

definition gcEncode :: "gob_out \<Rightarrow> 's gobCodec \<Rightarrow> err option \<times> 's gobCodec" where
  "gcEncode v c = (case gobEncodeTo v (gcBuf c) of (e, b) \<Rightarrow> (e, c\<lparr>gcBuf := b\<rparr>))"

definition gcFlush :: "'s gobCodec \<Rightarrow> err option \<times> 's gobCodec" where
  "gcFlush c = (case Flush (gcBuf c) of (e, b) \<Rightarrow> (e, c\<lparr>gcBuf := b\<rparr>))"

definition GobCloseServer :: "err option \<Rightarrow> 's gobCodec \<Rightarrow> err option \<times> 's gobCodec" where
  "GobCloseServer closeErr c =
     (if gcClosed c then (None, c)
      else (closeErr, c\<lparr>gcClosed := True, gcCloses := Suc (gcCloses c)\<rparr>))"

definition GobCloseClient :: "err option \<Rightarrow> 's gobCodec \<Rightarrow> err option \<times> 's gobCodec" where
  "GobCloseClient closeErr c = (closeErr, c\<lparr>gcCloses := Suc (gcCloses c)\<rparr>)"

definition gobAbort :: "err option \<Rightarrow> err \<Rightarrow> 's gobCodec \<Rightarrow> err option \<times> 's gobCodec" where
  "gobAbort closeErr e c =
     (case gcFlush c of
        (None, c') \<Rightarrow> (Some e, snd (GobCloseServer closeErr c'))
      | (Some _, c') \<Rightarrow> (Some e, c'))"

definition GobWriteResponse ::
  "err option \<Rightarrow> gob_out \<Rightarrow> gob_out \<Rightarrow> 's gobCodec \<Rightarrow> err option \<times> 's gobCodec" where
  "GobWriteResponse closeErr hdr body c =
     (case gcEncode hdr c of
        (Some e, c1) \<Rightarrow> gobAbort closeErr e c1
      | (None, c1) \<Rightarrow>
          (case gcEncode body c1 of
             (Some e, c2) \<Rightarrow> gobAbort closeErr e c2
           | (None, c2) \<Rightarrow> gcFlush c2))"

definition GobWriteRequest :: "gob_out \<Rightarrow> gob_out \<Rightarrow> 's gobCodec \<Rightarrow> err option \<times> 's gobCodec" where
  "GobWriteRequest hdr body c =
     (case gcEncode hdr c of
        (Some e, c1) \<Rightarrow> (Some e, c1)
      | (None, c1) \<Rightarrow>
          (case gcEncode body c1 of
             (Some e, c2) \<Rightarrow> (Some e, c2)
           | (None, c2) \<Rightarrow> gcFlush c2))"

subsection \<open>BufferedReadWriteCloser\<close>

text \<open>
  The connection under a \<open>bufio.Reader\<close>; the crypto codecs read through it only. \<open>Read\<close>,
  \<open>Peek\<close> and \<open>Discard\<close> are those of the reader, \<open>Write\<close> and \<open>Close\<close> those of the connection.
\<close>

definition newBufferedReadWriteCloser :: "'s \<Rightarrow> 's bufio" where
  "newBufferedReadWriteCloser r = newBufio r"

definition BufReadRWC :: "'s reader \<Rightarrow> 's bufio reader" where
  "BufReadRWC rd = bufRead rd"

definition BufWrite :: "bytes \<Rightarrow> sink \<Rightarrow> (nat \<times> err option) \<times> sink" where
  "BufWrite p s = connWrite p s"

text \<open>\<open>closeErr\<close> is what closing the connection returns.\<close>

definition BufClose :: "err option \<Rightarrow> err option" where
  "BufClose closeErr = closeErr"

definition BufPeek :: "'s reader \<Rightarrow> int \<Rightarrow> 's bufio \<Rightarrow> (bytes \<times> err option) \<times> 's bufio" where
  "BufPeek rd n rw = Peek rd n rw"

definition BufDiscard :: "'s reader \<Rightarrow> int \<Rightarrow> 's bufio \<Rightarrow> (nat \<times> err option) \<times> 's bufio" where
  "BufDiscard rd n rw = Discard rd n rw"

definition BufSize :: "'s bufio \<Rightarrow> nat" where
  "BufSize rw = Buffered rw"

partial_function (option) BufReadAll :: "'s reader \<Rightarrow> bytes \<Rightarrow> 's bufio \<Rightarrow> (bytes \<times> 's bufio) option" where
  "BufReadAll rd result rw =
     (case ReadByte rd rw of (r, rw') \<Rightarrow>
        (case r of
           Inl _ \<Rightarrow> Some (result, rw')
         | Inr x \<Rightarrow> BufReadAll rd (result @ [x]) rw'))"

subsection \<open>The crypto codecs\<close>

text \<open>The outcome of a write: a return, or the panic of \<open>randBytes\<close>.\<close>

datatype outcome = Returns "err option" | Panics err

record 's cryptoCodec =
  ccCrypto :: Crypto
  ccRwc :: "'s bufio"
  ccTypes :: "bytes list"
  ccBuf :: bufw
  ccClosed :: bool
  ccCloses :: nat

definition newCryptoServerCodec :: "crypto_lib \<Rightarrow> bufw \<Rightarrow> 's \<Rightarrow> bytes \<Rightarrow> err + 's cryptoCodec" where
  "newCryptoServerCodec L buf conn key =
     bindR (newCrypto2 L key) (\<lambda>crypto.
       Inr \<lparr>ccCrypto = crypto, ccRwc = newBufferedReadWriteCloser conn, ccTypes = [], ccBuf = buf,
            ccClosed = False, ccCloses = 0\<rparr>)"

definition newCryptoClientCodec :: "crypto_lib \<Rightarrow> bufw \<Rightarrow> 's \<Rightarrow> bytes \<Rightarrow> err + 's cryptoCodec" where
  "newCryptoClientCodec L buf conn key =
     bindR (newCrypto2 L key) (\<lambda>crypto.
       Inr \<lparr>ccCrypto = crypto, ccRwc = newBufferedReadWriteCloser conn, ccTypes = [], ccBuf = buf,
            ccClosed = False, ccCloses = 0\<rparr>)"

definition ccDecode :: "'s reader \<Rightarrow> 'v gob_interp \<Rightarrow> 's cryptoCodec \<Rightarrow> ((err + 'v) \<times> 's cryptoCodec) option" where
  "ccDecode rd G c =
     (case gobDecode G (BufReadRWC rd) True (ccTypes c) (ccRwc c) of
        None \<Rightarrow> None
      | Some (r, ts, s) \<Rightarrow> Some (r, c\<lparr>ccTypes := ts, ccRwc := s\<rparr>))"

text \<open>
  Reading a body, the name of the message in the errors apart: peek, compare, skip, read the
  sealed bytes, open them, and decode what is inside with a decoder of its own.
\<close>

definition readSealedBody ::
  "string \<Rightarrow> crypto_lib \<Rightarrow> bytes gob_interp \<Rightarrow> 's reader \<Rightarrow> 'v gob_interp \<Rightarrow> 's cryptoCodec \<Rightarrow>
   ((err + 'v) \<times> 's cryptoCodec) option" where
  "readSealedBody what L B rd G c =
     (case BufPeek rd (int (length magicPrefix2)) (ccRwc c) of
        ((_, Some e), rw) \<Rightarrow> Some (Inl (Wrap e ''prefix peeking error''), c\<lparr>ccRwc := rw\<rparr>)
      | ((magicRead, None), rw) \<Rightarrow>
          if \<not> slicesEqual magicRead magicPrefix2
          then Some (Inl (Wrap InvalidPrefixErr ''invalid magic number''), c\<lparr>ccRwc := rw\<rparr>)
          else
            (case BufDiscard rd (int (length magicPrefix2)) rw of
               ((_, Some e), rw2) \<Rightarrow> Some (Inl (Wrap e ''prefix discarding error''), c\<lparr>ccRwc := rw2\<rparr>)
             | ((_, None), rw2) \<Rightarrow>
                 (case ccDecode rd B (c\<lparr>ccRwc := rw2\<rparr>) of
                    None \<Rightarrow> None
                  | Some (Inl e, c1) \<Rightarrow> Some (Inl (Wrap e (what @ '' body decoding error'')), c1)
                  | Some (Inr sealed, c1) \<Rightarrow>
                      (case Decrypt2 L (ccCrypto c1) sealed of
                         Inl e \<Rightarrow> Some (Inl (Wrap e (what @ '' body decrypt error'')), c1)
                       | Inr plaintext \<Rightarrow>
                           (case gobDecode G bytesRead True [] plaintext of
                              None \<Rightarrow> None
                            | Some (Inl e, _) \<Rightarrow> Some (Inl (Wrap e ''decrypted body decoding error''), c1)
                            | Some (Inr v, _) \<Rightarrow> Some (Inr v, c1))))))"

definition SealedReadRequestHeader ::
  "'s reader \<Rightarrow> 'r gob_interp \<Rightarrow> 's cryptoCodec \<Rightarrow> ((err + 'r) \<times> 's cryptoCodec) option" where
  "SealedReadRequestHeader rd G c = ccDecode rd G c"

definition SealedReadRequestBody ::
  "crypto_lib \<Rightarrow> bytes gob_interp \<Rightarrow> 's reader \<Rightarrow> 'v gob_interp \<Rightarrow> 's cryptoCodec \<Rightarrow>
   ((err + 'v) \<times> 's cryptoCodec) option" where
  "SealedReadRequestBody L B rd G c = readSealedBody ''request'' L B rd G c"

definition SealedReadResponseHeader ::
  "'s reader \<Rightarrow> 'r gob_interp \<Rightarrow> 's cryptoCodec \<Rightarrow> ((err + 'r) \<times> 's cryptoCodec) option" where
  "SealedReadResponseHeader rd G c = ccDecode rd G c"

definition SealedReadResponseBody ::
  "crypto_lib \<Rightarrow> bytes gob_interp \<Rightarrow> 's reader \<Rightarrow> 'v gob_interp \<Rightarrow> 's cryptoCodec \<Rightarrow>
   ((err + 'v) \<times> 's cryptoCodec) option" where
  "SealedReadResponseBody L B rd G c = readSealedBody ''response'' L B rd G c"

definition SealedClose :: "err option \<Rightarrow> 's cryptoCodec \<Rightarrow> err option \<times> 's cryptoCodec" where
  "SealedClose closeErr c =
     (if ccClosed c then (None, c)
      else (closeErr, c\<lparr>ccClosed := True, ccCloses := Suc (ccCloses c)\<rparr>))"

definition SealedCloseClient :: "err option \<Rightarrow> 's cryptoCodec \<Rightarrow> err option \<times> 's cryptoCodec" where
  "SealedCloseClient closeErr c =
     (if ccClosed c then (None, c)
      else (closeErr, c\<lparr>ccClosed := True, ccCloses := Suc (ccCloses c)\<rparr>))"

text \<open>The body is encoded and sealed before anything is written.\<close>

definition writeSealed ::
  "crypto_lib \<Rightarrow> (nat \<Rightarrow> err + bytes) \<Rightarrow> gob_out \<Rightarrow> gob_out \<Rightarrow> 's cryptoCodec \<Rightarrow> outcome \<times> 's cryptoCodec" where
  "writeSealed L rnd hdr body c =
     (case gobEncodeFresh body of
        Inl e \<Rightarrow> (Returns (Some e), c)
      | Inr plaintext \<Rightarrow>
          (case Encrypt2 L rnd (ccCrypto c) plaintext of
             Inl e \<Rightarrow> (Panics e, c)
           | Inr sealed \<Rightarrow>
               (case gobEncodeTo hdr (ccBuf c) of
                  (Some e, b1) \<Rightarrow> (Returns (Some e), c\<lparr>ccBuf := b1\<rparr>)
                | (None, b1) \<Rightarrow>
                    (case Write magicPrefix2 b1 of
                       (Some e, b2) \<Rightarrow> (Returns (Some e), c\<lparr>ccBuf := b2\<rparr>)
                     | (None, b2) \<Rightarrow>
                         (case gobEncodeTo ([], Inr (bytesBody sealed)) b2 of
                            (Some e, b3) \<Rightarrow> (Returns (Some e), c\<lparr>ccBuf := b3\<rparr>)
                          | (None, b3) \<Rightarrow>
                              (case Flush b3 of (e, b4) \<Rightarrow> (Returns e, c\<lparr>ccBuf := b4\<rparr>)))))))"

definition SealedWriteRequest ::
  "crypto_lib \<Rightarrow> (nat \<Rightarrow> err + bytes) \<Rightarrow> gob_out \<Rightarrow> gob_out \<Rightarrow> 's cryptoCodec \<Rightarrow> outcome \<times> 's cryptoCodec" where
  "SealedWriteRequest L rnd hdr body c = writeSealed L rnd hdr body c"

definition SealedWriteResponse ::
  "crypto_lib \<Rightarrow> (nat \<Rightarrow> err + bytes) \<Rightarrow> err option \<Rightarrow> gob_out \<Rightarrow> gob_out \<Rightarrow> 's cryptoCodec \<Rightarrow>
   outcome \<times> 's cryptoCodec" where
  "SealedWriteResponse L rnd closeErr hdr body c =
     (case writeSealed L rnd hdr body c of
        (Returns (Some e), c1) \<Rightarrow> (Returns (Some e), snd (SealedClose closeErr c1))
      | r \<Rightarrow> r)"

subsection \<open>A stream of sealed calls\<close>

text \<open>
  What a client writes for one call: the header with the type definitions it needs, the prefix
  and the sealed body.
\<close>

definition sealed_call :: "gob_out \<Rightarrow> bytes \<Rightarrow> bytes" where
  "sealed_call hdr sealed = gob_text hdr @ magicPrefix2 @ gobEncodeBytes sealed"

text \<open>
  The values a decoder finds in a list of calls: \<open>H\<close> interprets headers, after the type
  definitions of all earlier calls, \<open>G\<close> interprets each body from scratch.
\<close>

type_synonym sealed_out = "(nat \<Rightarrow> err + bytes) \<times> gob_out \<times> gob_out"

fun typed_calls :: "'r gob_interp \<Rightarrow> 'v gob_interp \<Rightarrow> bytes list \<Rightarrow> sealed_out list \<Rightarrow> ('r \<times> 'v) list \<Rightarrow> bool" where
  "typed_calls H G types [] [] \<longleftrightarrow> True"
| "typed_calls H G types ((rnd, hdr, body) # ms) ((h, v) # vs) \<longleftrightarrow>
     (\<exists>hb bb. snd hdr = Inr hb \<and> typed_by H types (fst hdr) hb h \<and>
        snd body = Inr bb \<and> typed_by G [] (fst body) bb v) \<and>
     typed_calls H G (types @ fst hdr) ms vs"
| "typed_calls H G types _ _ \<longleftrightarrow> False"

primrec sealedSends :: "crypto_lib \<Rightarrow> sealed_out list \<Rightarrow> 's cryptoCodec \<Rightarrow> outcome list \<times> 's cryptoCodec" where
  "sealedSends L [] c = ([], c)"
| "sealedSends L (m # ms) c =
     (case SealedWriteRequest L (fst m) (fst (snd m)) (snd (snd m)) c of
        (r, c1) \<Rightarrow> (case sealedSends L ms c1 of (rs, c2) \<Rightarrow> (r # rs, c2)))"

primrec sealedServe ::
  "crypto_lib \<Rightarrow> bytes gob_interp \<Rightarrow> 's reader \<Rightarrow> 'r gob_interp \<Rightarrow> 'v gob_interp \<Rightarrow> nat \<Rightarrow> 's cryptoCodec \<Rightarrow>
   (((err + 'r) \<times> (err + 'v)) list \<times> 's cryptoCodec) option" where
  "sealedServe L B rd H G 0 c = Some ([], c)"
| "sealedServe L B rd H G (Suc n) c =
     (case SealedReadRequestHeader rd H c of
        None \<Rightarrow> None
      | Some (h, c1) \<Rightarrow>
          (case SealedReadRequestBody L B rd G c1 of
             None \<Rightarrow> None
           | Some (v, c2) \<Rightarrow>
               (case sealedServe L B rd H G n c2 of
                  None \<Rightarrow> None
                | Some (rs, c3) \<Rightarrow> Some ((h, v) # rs, c3))))"

lemma magicPrefix2_length [simp]: "length magicPrefix2 = 5"
  by (simp add: magicPrefix2_def)

context byte_source begin

definition cc_ready :: "'s cryptoCodec \<Rightarrow> bytes \<Rightarrow> bool" where
  "cc_ready c stream \<longleftrightarrow> bio_ready (ccRwc c) \<and> bio_content content (ccRwc c) = stream"

lemma ccDecode_value:
  assumes "cc_ready c (concat (map gobMessage defs) @ gobMessage body @ rest)" "typed_by G (ccTypes c) defs body v"
  shows "\<exists>c'. ccDecode rd G c = Some (Inr v, c') \<and> cc_ready c' rest \<and> ccTypes c' = ccTypes c @ defs \<and>
    ccCrypto c' = ccCrypto c"
  using byte_source.gobDecode_value [OF bufRead_ready_source _ _ assms(2), of "ccRwc c" rest True] assms(1)
  by (auto simp: ccDecode_def cc_ready_def BufReadRWC_def)

text \<open>The prefix is found and skipped.\<close>

lemma BufPeek_magic:
  assumes "bio_ready rw" "bio_content content rw = p @ rest" "length p = 5"
  shows "\<exists>rw'. BufPeek rd 5 rw = ((p, None), rw') \<and> bio_ready rw' \<and> bio_content content rw' = p @ rest"
proof -
  obtain d e rw' where k: "Peek rd 5 rw = ((d, e), rw')" by (metis prod.exhaust)
  from Peek_source [OF _ _ _ _ k] assms show ?thesis
    using k by (auto simp: BufPeek_def bio_ready_def bufSize_def)
qed

lemma BufDiscard_magic:
  assumes "bio_ready rw" "bio_content content rw = p @ rest" "length p = 5"
  shows "\<exists>rw'. BufDiscard rd 5 rw = ((5, None), rw') \<and> bio_ready rw' \<and> bio_content content rw' = rest"
proof -
  have "\<exists>b'. discardLoop rd 5 5 rw = ((5, None), b') \<and> bio_content content b' = drop 5 (bio_content content rw) \<and>
      bio_final final b' = bio_final final rw \<and> bio_ready b'"
    by (rule discardLoop_within) (use assms in simp_all)
  then show ?thesis using assms(2,3) by (auto simp: BufDiscard_def Discard_def)
qed

lemma readSealedBody_value:
  assumes "gob_bytes_ok B" "cc_ready c (magicPrefix2 @ gobEncodeBytes sealed @ rest)"
    and "length (bytesBody sealed) < tooBig"
    and "Decrypt2 L (ccCrypto c) sealed = Inr (concat (map gobMessage defs) @ gobMessage body)"
    and "typed_by G [] defs body v"
  shows "\<exists>c'. readSealedBody what L B rd G c = Some (Inr v, c') \<and> cc_ready c' rest \<and>
    ccTypes c' = ccTypes c \<and> ccCrypto c' = ccCrypto c"
proof -
  have c: "bio_ready (ccRwc c)" "bio_content content (ccRwc c) = magicPrefix2 @ gobEncodeBytes sealed @ rest"
    using assms(2) by (simp_all add: cc_ready_def)
  obtain rw where rw: "BufPeek rd 5 (ccRwc c) = ((magicPrefix2, None), rw)" "bio_ready rw"
      "bio_content content rw = magicPrefix2 @ gobEncodeBytes sealed @ rest"
    using BufPeek_magic [OF c] by auto
  obtain rw2 where rw2: "BufDiscard rd 5 rw = ((5, None), rw2)" "bio_ready rw2"
      "bio_content content rw2 = gobEncodeBytes sealed @ rest"
    using BufDiscard_magic [OF rw(2,3)] by auto
  have "cc_ready (c\<lparr>ccRwc := rw2\<rparr>) (concat (map gobMessage []) @ gobMessage (bytesBody sealed) @ rest)"
    using rw2(2,3) by (simp add: cc_ready_def gobEncodeBytes_def)
  moreover have "typed_by B (ccTypes (c\<lparr>ccRwc := rw2\<rparr>)) [] (bytesBody sealed) sealed"
    using assms(1,3) by (simp add: gob_bytes_ok_def bytesBody_def)
  ultimately obtain c1 where c1: "ccDecode rd B (c\<lparr>ccRwc := rw2\<rparr>) = Some (Inr sealed, c1)"
      "cc_ready c1 rest" "ccTypes c1 = ccTypes c" "ccCrypto c1 = ccCrypto c"
    using ccDecode_value [of "c\<lparr>ccRwc := rw2\<rparr>" "[]" "bytesBody sealed" rest B sealed] by auto
  obtain s where "gobDecode G bytesRead True [] (concat (map gobMessage defs) @ gobMessage body) =
      Some (Inr v, defs, s)"
    using byr.gobDecode_value [of "concat (map gobMessage defs) @ gobMessage body" defs body "[]" G "[]" v True]
      assms(5) by auto
  then show ?thesis
    using rw(1) rw2(1) c1 assms(4) by (simp add: readSealedBody_def slicesEqual_iff)
qed

text \<open>Anything else in its place is refused, and left where it is.\<close>

lemma readSealedBody_bad_prefix:
  assumes "bio_ready (ccRwc c)" "5 \<le> length (bio_content content (ccRwc c))"
    and "take 5 (bio_content content (ccRwc c)) \<noteq> magicPrefix2"
  shows "\<exists>c'. readSealedBody what L B rd G c = Some (Inl (Wrap InvalidPrefixErr ''invalid magic number''), c') \<and>
    bio_content content (ccRwc c') = bio_content content (ccRwc c)"
proof -
  let ?p = "take 5 (bio_content content (ccRwc c))"
  have "bio_content content (ccRwc c) = ?p @ drop 5 (bio_content content (ccRwc c))" by simp
  moreover have "length ?p = 5" using assms(2) by simp
  ultimately obtain rw where "BufPeek rd 5 (ccRwc c) = ((?p, None), rw)"
      "bio_content content rw = ?p @ drop 5 (bio_content content (ccRwc c))"
    using BufPeek_magic [OF assms(1)] by blast
  then show ?thesis using assms(3) by (simp add: readSealedBody_def slicesEqual_iff)
qed

lemma sealedServe_calls:
  assumes "gob_bytes_ok B" "cc_ready c (concat (map2 (\<lambda>m s. sealed_call (fst (snd m)) s) ms blobs) @ rest)"
    and "typed_calls H G (ccTypes c) ms vs"
    and "list_all2 (\<lambda>m s. length (bytesBody s) < tooBig \<and>
      Decrypt2 L (ccCrypto c) s = Inr (gob_text (snd (snd m)))) ms blobs"
  shows "\<exists>c'. sealedServe L B rd H G (length ms) c = Some (map (\<lambda>(h, v). (Inr h, Inr v)) vs, c') \<and> cc_ready c' rest"
  using assms(2-)
proof (induction ms arbitrary: c blobs vs)
  case Nil
  then show ?case by (cases vs) auto
next
  case (Cons m ms)
  obtain rnd hdr body where m: "m = (rnd, hdr, body)" by (cases m) auto
  obtain s blobs' where bl: "blobs = s # blobs'" using Cons.prems(3) by (cases blobs) auto
  obtain h v vs' where vs: "vs = (h, v) # vs'" using Cons.prems(2) by (cases vs) (auto simp: m)
  obtain hb bb where t: "snd hdr = Inr hb" "typed_by H (ccTypes c) (fst hdr) hb h"
      "snd body = Inr bb" "typed_by G [] (fst body) bb v" "typed_calls H G (ccTypes c @ fst hdr) ms vs'"
    using Cons.prems(2) by (auto simp: m vs)
  let ?rest = "concat (map2 (\<lambda>m s. sealed_call (fst (snd m)) s) ms blobs') @ rest"
  have "cc_ready c (concat (map gobMessage (fst hdr)) @ gobMessage hb @ (magicPrefix2 @ gobEncodeBytes s @ ?rest))"
    using Cons.prems(1) t(1) by (simp add: m bl sealed_call_def gob_text_def)
  from ccDecode_value [OF this t(2)] obtain c1 where c1: "ccDecode rd H c = Some (Inr h, c1)"
      "cc_ready c1 (magicPrefix2 @ gobEncodeBytes s @ ?rest)" "ccTypes c1 = ccTypes c @ fst hdr"
      "ccCrypto c1 = ccCrypto c" by blast
  have p: "length (bytesBody s) < tooBig"
      "Decrypt2 L (ccCrypto c1) s = Inr (concat (map gobMessage (fst body)) @ gobMessage bb)"
    using Cons.prems(3) t(3) by (simp_all add: m bl c1(4) gob_text_def)
  obtain c2 where c2: "readSealedBody ''request'' L B rd G c1 = Some (Inr v, c2)" "cc_ready c2 ?rest"
      "ccTypes c2 = ccTypes c1" "ccCrypto c2 = ccCrypto c1"
    using readSealedBody_value [OF assms(1) c1(2) p t(4)] by blast
  obtain c3 where "sealedServe L B rd H G (length ms) c2 = Some (map (\<lambda>(h, v). (Inr h, Inr v)) vs', c3)"
      "cc_ready c3 rest"
    using Cons.IH [OF c2(2), of vs'] t(5) Cons.prems(3) by (auto simp: bl c1(3,4) c2(3,4))
  then show ?case
    using c1(1) c2(1) by (simp add: vs SealedReadRequestHeader_def SealedReadRequestBody_def)
qed

end

end
