(* ===== verification/GobSession.thy ===== *)
theory GobSession
  imports GobCodec
begin

text \<open>
  Sessions of the v2 codecs of \<open>GobCodec\<close>: what one side writes, however many calls ahead, the
  other side reads back call by call, in whatever pieces it arrives.
\<close>

subsection \<open>Sealed calls\<close>

lemma gob_text_fresh: "snd body = Inr bb \<Longrightarrow> gobEncodeFresh body = Inr (gob_text body)"
  by (simp add: gobEncodeFresh_def gob_text_def)

lemma SealedWriteRequest_ok:
  assumes "writer_ok (ccBuf c)" "snd hdr = Inr hb" "snd body = Inr bb"
    and "Encrypt2 L rnd (ccCrypto c) (gob_text body) = Inr sealed"
  shows "\<exists>b. SealedWriteRequest L rnd hdr body c = (Returns None, c\<lparr>ccBuf := b\<rparr>) \<and> writer_ok b \<and>
    snkOut (bwSink b) = written (ccBuf c) @ sealed_call hdr sealed \<and> bwBuf b = []"
proof -
  obtain b1 where b1: "gobEncodeTo hdr (ccBuf c) = (None, b1)" "writer_ok b1"
      "written b1 = written (ccBuf c) @ gob_text hdr"
    using gobEncodeTo_ok [OF assms(1,2)] by blast
  obtain b2 where b2: "Write magicPrefix2 b1 = (None, b2)" "writer_ok b2" "written b2 = written b1 @ magicPrefix2"
    using Write_ok [OF b1(2)] by blast
  obtain b3 where b3: "gobEncodeTo ([], Inr (bytesBody sealed)) b2 = (None, b3)" "writer_ok b3"
      "written b3 = written b2 @ gob_text ([], Inr (bytesBody sealed))"
    using gobEncodeTo_ok [OF b2(2), of "([], Inr (bytesBody sealed))"] by auto
  obtain b4 where b4: "Flush b3 = (None, b4)" "writer_ok b4" "bwBuf b4 = []" "snkOut (bwSink b4) = written b3"
    using Flush_ok [OF b3(2)] by blast
  have t: "gob_text ([], Inr (bytesBody sealed)) = gobEncodeBytes sealed"
    by (simp add: gob_text_def gobEncodeBytes_def)
  have "SealedWriteRequest L rnd hdr body c = (Returns None, c\<lparr>ccBuf := b4\<rparr>)"
    by (simp add: SealedWriteRequest_def writeSealed_def gob_text_fresh [OF assms(3)] assms(4) b1(1) b2(1) b3(1) b4(1))
  then show ?thesis using b1 b2 b3 b4 by (intro exI [of _ b4]) (simp add: t sealed_call_def)
qed

lemma sealedSends_ok:
  assumes "writer_ok (ccBuf c)" "bwBuf (ccBuf c) = []" "crypto_wf (ccCrypto c)"
    and "\<forall>(rnd, hdr, body) \<in> set ms. (\<exists>n. rnd 12 = Inr n) \<and> (\<exists>hb. snd hdr = Inr hb) \<and> (\<exists>bb. snd body = Inr bb)"
  shows "\<exists>b blobs. sealedSends L ms c = (replicate (length ms) (Returns None), c\<lparr>ccBuf := b\<rparr>) \<and>
    snkOut (bwSink b) = snkOut (bwSink (ccBuf c)) @ concat (map2 (\<lambda>m s. sealed_call (fst (snd m)) s) ms blobs) \<and>
    list_all2 (\<lambda>m s. Encrypt2 L (fst m) (ccCrypto c) (gob_text (snd (snd m))) = Inr s) ms blobs"
  using assms
proof (induction ms arbitrary: c)
  case Nil
  then show ?case by (intro exI [of _ "ccBuf c"]) simp
next
  case (Cons m ms)
  obtain rnd hdr body where m: "m = (rnd, hdr, body)" by (cases m) auto
  obtain n hb bb where p: "rnd 12 = Inr n" "snd hdr = Inr hb" "snd body = Inr bb"
    using Cons.prems(4) by (auto simp: m)
  obtain s where s: "Encrypt2 L rnd (ccCrypto c) (gob_text body) = Inr s"
    using Cons.prems(3) p(1) by (simp add: Encrypt2_def randBytes_def crypto_wf_def gcmNonceSize_def)
  obtain b where b: "SealedWriteRequest L rnd hdr body c = (Returns None, c\<lparr>ccBuf := b\<rparr>)" "writer_ok b"
      "snkOut (bwSink b) = written (ccBuf c) @ sealed_call hdr s" "bwBuf b = []"
    using SealedWriteRequest_ok [OF Cons.prems(1) p(2,3) s] by blast
  obtain b2 blobs where h: "sealedSends L ms (c\<lparr>ccBuf := b\<rparr>) = (replicate (length ms) (Returns None), c\<lparr>ccBuf := b2\<rparr>)"
      "snkOut (bwSink b2) = snkOut (bwSink b) @ concat (map2 (\<lambda>m s. sealed_call (fst (snd m)) s) ms blobs)"
      "list_all2 (\<lambda>m s. Encrypt2 L (fst m) (ccCrypto c) (gob_text (snd (snd m))) = Inr s) ms blobs"
    using Cons.IH [of "c\<lparr>ccBuf := b\<rparr>"] Cons.prems b(2,4) by auto
  show ?case
    using b(1,3) h s Cons.prems(2)
    by (intro exI [of _ b2] exI [of _ "s # blobs"]) (simp add: m written_def)
qed

lemma newCryptoServerCodec_ready:
  assumes "crypto_lib_ok L" "newCryptoServerCodec L buf arrivals key = Inr c" "conn_ok arrivals"
  shows "cn.cc_ready c (conn_content arrivals) \<and> ccTypes c = [] \<and> crypto_wf (ccCrypto c) \<and>
    newCrypto L key = Inr (ccCrypto c)"
  using assms newCrypto_wf [OF assms(1), of key]
  by (auto simp: newCryptoServerCodec_def bindR_eq_Inr newCrypto2_eq newBufferedReadWriteCloser_def
      cn.cc_ready_def cn.bio_ready_def newBufio_def bio_defs bufSize_def)

lemma typed_calls_values:
  "typed_calls H G types ms vs \<Longrightarrow>
     length ms = length vs \<and> (\<forall>(rnd, hdr, body) \<in> set ms. (\<exists>hb. snd hdr = Inr hb) \<and> (\<exists>bb. snd body = Inr bb))"
  by (induction H G types ms vs rule: typed_calls.induct) auto

lemma Encrypt2_Decrypt2:
  assumes "crypto_lib_ok L" "crypto_wf c" "rand_ok rnd" "Encrypt2 L rnd c t = Inr ct"
  shows "Decrypt2 L c ct = Inr t \<and> length ct = length t + 28"
proof -
  obtain n where n: "length n = gcmNonceSize" "ct = n @ gcmSeal L (crGcm c) n t"
    using assms(2-) by (auto simp: Encrypt2_def randBytes_def rand_ok_def crypto_wf_def split: sum.splits)
  then have "Decrypt L c ct = Inr t" using Decrypt_sealed [OF assms(1,2)] by simp
  then have "Decrypt2 L c ct = Inr t" by (auto simp: Decrypt_def Decrypt2_def split: if_splits option.splits)
  then show ?thesis using crypto_lib_seal [OF assms(1,2) n(1), of t] n
    by (simp add: gcmNonceSize_def gcmTagSize_def)
qed

lemma sealed_size: "length s < 2 ^ 63 \<Longrightarrow> length (bytesBody s) \<le> length s + 11"
  using be_bytes_length [of "length s" 7] by (simp add: bytesBody_def gobUint_def)

lemma sealed_blobs:
  assumes "crypto_lib_ok L" "crypto_wf crypto"
    and "\<forall>(rnd, hdr, body) \<in> set msgs. rand_ok rnd \<and> length (gob_text body) + 39 < tooBig"
    and "list_all2 (\<lambda>m s. Encrypt2 L (fst m) crypto (gob_text (snd (snd m))) = Inr s) msgs blobs"
  shows "list_all2 (\<lambda>m s. length (bytesBody s) < tooBig \<and>
    Decrypt2 L crypto s = Inr (gob_text (snd (snd m)))) msgs blobs"
  using assms(4)
proof (rule list.rel_mono_strong)
  fix m s assume m: "m \<in> set msgs" and "s \<in> set blobs"
    and e: "Encrypt2 L (fst m) crypto (gob_text (snd (snd m))) = Inr s"
  have r: "rand_ok (fst m)" "length (gob_text (snd (snd m))) + 39 < tooBig"
    using assms(3) m by (auto simp: case_prod_beta)
  have d: "Decrypt2 L crypto s = Inr (gob_text (snd (snd m)))"
      "length s = length (gob_text (snd (snd m))) + 28"
    using Encrypt2_Decrypt2 [OF assms(1,2) r(1) e] by auto
  then show "length (bytesBody s) < tooBig \<and> Decrypt2 L crypto s = Inr (gob_text (snd (snd m)))"
    using sealed_size [of s] r(2) by (simp add: tooBig_def)
qed

subsection \<open>Properties\<close>

text \<open>
  The sealed gob stream of v2. A client and a server made with the same secret: all
  requests are written, sealed, and if their bytes arrive in any pieces, even many calls at
  once, the server reads every header and opens every body to the values the client encoded.
\<close>

theorem sealed_session_roundtrip:
  fixes cl cl' :: "'s cryptoCodec"
  assumes "crypto_lib_ok L" and "gob_bytes_ok B" and "typed_calls H G [] msgs vs"
    and "\<forall>(rnd, hdr, body) \<in> set msgs. rand_ok rnd \<and> (\<exists>n. rnd 12 = Inr n) \<and> length (gob_text body) + 39 < tooBig"
    and "newCryptoClientCodec L (newWriter \<lparr>snkOut = [], snkLimit = None\<rparr>) x key = Inr cl"
    and "sealedSends L msgs cl = (outcomes, cl')"
    and "newCryptoServerCodec L w arrivals key = Inr srv"
    and "conn_ok arrivals" and "conn_content arrivals = snkOut (bwSink (ccBuf cl'))"
  shows "outcomes = replicate (length msgs) (Returns None) \<and>
    (\<exists>c'. sealedServe L B connRead H G (length msgs) srv = Some (map (\<lambda>(h, v). (Inr h, Inr v)) vs, c'))"
proof -
  have srv: "cn.cc_ready srv (conn_content arrivals)" "ccTypes srv = []" "crypto_wf (ccCrypto srv)"
      "newCrypto L key = Inr (ccCrypto srv)"
    using newCryptoServerCodec_ready [OF assms(1,7,8)] by auto
  have cl: "writer_ok (ccBuf cl)" "bwBuf (ccBuf cl) = []" "ccCrypto cl = ccCrypto srv"
      "snkOut (bwSink (ccBuf cl)) = []"
    using assms(5) srv(4)
    by (auto simp: newCryptoClientCodec_def bindR_eq_Inr newCrypto2_eq newWriter_def writer_ok_def)
  have v: "\<forall>(rnd, hdr, body) \<in> set msgs. (\<exists>n. rnd 12 = Inr n) \<and> (\<exists>hb. snd hdr = Inr hb) \<and> (\<exists>bb. snd body = Inr bb)"
    using assms(4) typed_calls_values [OF assms(3)] by (fastforce simp: case_prod_beta)
  obtain b blobs where b: "sealedSends L msgs cl = (replicate (length msgs) (Returns None), cl\<lparr>ccBuf := b\<rparr>)"
      "snkOut (bwSink b) = concat (map2 (\<lambda>m s. sealed_call (fst (snd m)) s) msgs blobs)"
      "list_all2 (\<lambda>m s. Encrypt2 L (fst m) (ccCrypto srv) (gob_text (snd (snd m))) = Inr s) msgs blobs"
    using sealedSends_ok [OF cl(1,2) _ v, of L] srv(3) cl(3,4) by auto
  have "list_all2 (\<lambda>m s. length (bytesBody s) < tooBig \<and>
      Decrypt2 L (ccCrypto srv) s = Inr (gob_text (snd (snd m)))) msgs blobs"
    by (rule sealed_blobs [OF assms(1) srv(3) _ b(3)]) (use assms(4) in auto)
  moreover have "cn.cc_ready srv (concat (map2 (\<lambda>m s. sealed_call (fst (snd m)) s) msgs blobs) @ [])"
    using srv(1) assms(6,9) b(1,2) by auto
  ultimately show ?thesis
    using cn.sealedServe_calls [OF assms(2), of srv msgs blobs "[]" H G vs L] assms(3,6) b(1) srv(2) by auto
qed

text \<open>
  Where a sealed body is expected, five bytes that are not the prefix are refused, and
  nothing of the stream is consumed.
\<close>

theorem sealed_bad_prefix:
  assumes "crypto_lib_ok L" and "newCryptoServerCodec L w arrivals key = Inr srv" and "conn_ok arrivals"
    and "5 \<le> length (conn_content arrivals)" and "take 5 (conn_content arrivals) \<noteq> magicPrefix2"
  shows "\<exists>c'. SealedReadRequestBody L B connRead G srv =
      Some (Inl (Wrap InvalidPrefixErr ''invalid magic number''), c') \<and>
    bio_content conn_content (ccRwc c') = conn_content arrivals"
proof -
  have "cn.cc_ready srv (conn_content arrivals)"
    using newCryptoServerCodec_ready [OF assms(1-3)] by blast
  then have r: "cn.bio_ready (ccRwc srv)" "bio_content conn_content (ccRwc srv) = conn_content arrivals"
    by (simp_all add: cn.cc_ready_def)
  show ?thesis
    using cn.readSealedBody_bad_prefix [OF r(1), of "''request''" L B G] assms(4,5)
    by (simp add: r(2) SealedReadRequestBody_def)
qed

text \<open>
  A response that cannot be encoded or written closes the connection, exactly once however
  often the codec is closed afterwards, and its error is returned.
\<close>

theorem sealed_WriteResponse_failure:
  assumes "SealedWriteResponse L rnd closeErr hdr body c = (Returns (Some e), c')" and "\<not> ccClosed c"
  shows "ccClosed c' \<and> ccCloses c' = Suc (ccCloses c) \<and> SealedClose closeErr c' = (None, c')"
proof -
  obtain c1 where w: "writeSealed L rnd hdr body c = (Returns (Some e), c1)" "c' = snd (SealedClose closeErr c1)"
    using assms(1) by (auto simp: SealedWriteResponse_def split: prod.splits outcome.splits option.splits)
  have "\<exists>b. c1 = c \<or> c1 = c\<lparr>ccBuf := b\<rparr>"
    using w(1) by (auto simp: writeSealed_def split: sum.splits prod.splits option.splits)
  then have "\<not> ccClosed c1" "ccCloses c1 = ccCloses c" using assms(2) by auto
  then show ?thesis by (simp add: w(2) SealedClose_def)
qed

subsection \<open>Witnesses\<close>

definition sealed0 :: sealed_out where
  "sealed0 = (zero_rand, ([], Inr (bytesBody [1])), ([], Inr (bytesBody [2])))"

lemma newCrypto2_exists:
  obtains c where "newCryptoServerCodec plain_crypto_lib buf conn key = Inr c"
    "newCrypto plain_crypto_lib key = Inr (ccCrypto c)" "ccBuf c = buf" "\<not> ccClosed c"
  by (rule that, simp add: newCryptoServerCodec_def newCrypto2_eq newCrypto_Inr [OF plain_crypto_lib_ok])
    (simp_all add: newCrypto_Inr [OF plain_crypto_lib_ok])

lemma newCryptoClientCodec_eq: "newCryptoClientCodec = newCryptoServerCodec"
  by (intro ext) (simp add: newCryptoClientCodec_def newCryptoServerCodec_def)

lemma bytesBody_small: "length b \<le> 127 \<Longrightarrow> length (bytesBody b) = length b + 3"
  by (simp add: bytesBody_def gobUint_def)

theorem sealed_session_roundtrip_witness:
  "\<exists>cl outcomes cl' srv c'. newCryptoClientCodec plain_crypto_lib (newWriter \<lparr>snkOut = [], snkLimit = None\<rparr>) () [1] = Inr cl \<and>
    sealedSends plain_crypto_lib [sealed0, sealed0] cl = (outcomes, cl') \<and>
    newCryptoServerCodec plain_crypto_lib (newWriter \<lparr>snkOut = [], snkLimit = None\<rparr>)
      [Piece (snkOut (bwSink (ccBuf cl')))] [1] = Inr srv \<and>
    sealedServe plain_crypto_lib plain_gob connRead plain_gob plain_gob 2 srv =
      Some ([(Inr [1], Inr [2]), (Inr [1], Inr [2])], c')"
proof -
  obtain cl :: "unit cryptoCodec" where cl:
    "newCryptoServerCodec plain_crypto_lib (newWriter \<lparr>snkOut = [], snkLimit = None\<rparr>) () [1] = Inr cl"
    "newCrypto plain_crypto_lib [1] = Inr (ccCrypto cl)" "ccBuf cl = newWriter \<lparr>snkOut = [], snkLimit = None\<rparr>"
    by (rule newCrypto2_exists)
  let ?ms = "[sealed0, sealed0]"
  obtain outcomes cl' where s: "sealedSends plain_crypto_lib ?ms cl = (outcomes, cl')" by (metis prod.exhaust)
  let ?out = "snkOut (bwSink (ccBuf cl'))"
  obtain srv :: "conn cryptoCodec" where srv:
    "newCryptoServerCodec plain_crypto_lib (newWriter \<lparr>snkOut = [], snkLimit = None\<rparr>) [Piece ?out] [1] = Inr srv"
    by (rule newCrypto2_exists)
  have p: "plain_gob [] (bytesBody [x]) = GobValue [x]" for x by (rule plain_gob_body) simp
  have ty: "typed_calls plain_gob plain_gob [] ?ms [([1], [2]), ([1], [2])]"
    by (simp add: sealed0_def p bytesBody_small tooBig_def)
  have "length (gob_text ([], Inr (bytesBody [2]))) + 39 < tooBig"
    by (simp add: gob_text_def gobMessage_def bytesBody_small gobUint_def tooBig_def)
  then have side: "\<forall>(rnd, hdr, body) \<in> set ?ms. rand_ok rnd \<and> (\<exists>n. rnd 12 = Inr n) \<and>
      length (gob_text body) + 39 < tooBig"
    using zero_rand_ok by (simp add: sealed0_def) (simp add: zero_rand_def)
  have w: "writer_ok (ccBuf cl)" "bwBuf (ccBuf cl) = []" "crypto_wf (ccCrypto cl)"
    using cl(3) newCrypto_wf [OF plain_crypto_lib_ok cl(2)] by (simp_all add: newWriter_def writer_ok_def)
  have "\<forall>(rnd, hdr, body) \<in> set ?ms. (\<exists>n. rnd 12 = Inr n) \<and> (\<exists>hb. snd hdr = Inr hb) \<and> (\<exists>bb. snd body = Inr bb)"
    by (simp add: sealed0_def zero_rand_def)
  from sealedSends_ok [OF w this, of plain_crypto_lib] s obtain blobs where
    o: "?out = snkOut (bwSink (ccBuf cl)) @ concat (map2 (\<lambda>m s. sealed_call (fst (snd m)) s) ?ms blobs)"
    and "list_all2 (\<lambda>m s. Encrypt2 plain_crypto_lib (fst m) (ccCrypto cl) (gob_text (snd (snd m))) = Inr s) ?ms blobs"
    by auto
  then obtain x y where "blobs = [x, y]" by (auto simp: list_all2_Cons1)
  with o have "?out \<noteq> []" by (simp add: sealed_call_def magicPrefix2_def)
  then have arr: "conn_ok [Piece ?out]" "conn_content [Piece ?out] = ?out" by (simp_all add: conn_ok_def)
  from sealed_session_roundtrip [OF plain_crypto_lib_ok plain_gob_ok ty side cl(1) [folded newCryptoClientCodec_eq]
      s srv arr]
  obtain c' where "sealedServe plain_crypto_lib plain_gob connRead plain_gob plain_gob (length ?ms) srv =
      Some (map (\<lambda>(h, v). (Inr h, Inr v)) [([1], [2]), ([1], [2])], c')" by blast
  then have "sealedServe plain_crypto_lib plain_gob connRead plain_gob plain_gob 2 srv =
      Some ([(Inr [1], Inr [2]), (Inr [1], Inr [2])], c')" by (simp add: numeral_2_eq_2)
  then show ?thesis using cl(1) [folded newCryptoClientCodec_eq] s srv by blast
qed

theorem sealed_bad_prefix_witness:
  "\<exists>srv c'. newCryptoServerCodec plain_crypto_lib (newWriter \<lparr>snkOut = [], snkLimit = None\<rparr>)
      [Piece [67, 82], Piece [89, 80, 0]] [1] = Inr srv \<and>
    SealedReadRequestBody plain_crypto_lib plain_gob connRead plain_gob srv =
      Some (Inl (Wrap InvalidPrefixErr ''invalid magic number''), c')"
proof -
  let ?arr = "[Piece [67, 82], Piece [89, 80, 0]] :: conn"
  obtain srv where srv: "newCryptoServerCodec plain_crypto_lib (newWriter \<lparr>snkOut = [], snkLimit = None\<rparr>) ?arr [1] = Inr srv"
    by (rule newCrypto2_exists)
  have "conn_ok ?arr" "5 \<le> length (conn_content ?arr)" "take 5 (conn_content ?arr) \<noteq> magicPrefix2"
    by (simp_all add: conn_ok_def magicPrefix2_def)
  from sealed_bad_prefix [OF plain_crypto_lib_ok srv this, of plain_gob plain_gob] srv
  show ?thesis by blast
qed

theorem sealed_WriteResponse_failure_witness:
  "\<exists>srv c'. newCryptoServerCodec plain_crypto_lib (newWriter \<lparr>snkOut = [], snkLimit = None\<rparr>) () [1] = Inr srv \<and>
    SealedWriteResponse plain_crypto_lib zero_rand None ([], Inr (bytesBody [1]))
      ([], Inl (New ''unsupported type'')) srv = (Returns (Some (New ''unsupported type'')), c') \<and>
    ccClosed c' \<and> ccCloses c' = Suc (ccCloses srv)"
proof -
  obtain srv :: "unit cryptoCodec" where srv:
    "newCryptoServerCodec plain_crypto_lib (newWriter \<lparr>snkOut = [], snkLimit = None\<rparr>) () [1] = Inr srv"
    "\<not> ccClosed srv"
    by (rule newCrypto2_exists)
  obtain c' where w: "SealedWriteResponse plain_crypto_lib zero_rand None ([], Inr (bytesBody [1]))
      ([], Inl (New ''unsupported type'')) srv = (Returns (Some (New ''unsupported type'')), c')"
    by (simp add: SealedWriteResponse_def writeSealed_def gobEncodeFresh_def)
  show ?thesis using sealed_WriteResponse_failure [OF w srv(2)] w srv(1) by blast
qed

end
