(* ===== verification/Negotiate.thy ===== *)
theory Negotiate
  imports JsonCryptoSession GobSession
begin

text \<open>
  The codec factories: \<open>v2/codec/codec_factory.go\<close> and \<open>v3/codec/negotiate.go\<close>, with the test of
  the first two bytes of a connection that tells JSON from gob, and the connection that replays
  them (\<open>prefixConn\<close>: a \<open>bufio.Reader\<close> for reading). The byte tests are on the numbers of
  the characters: \<open>{\<close> is 123, the double quote 34, then space, tab, newline, return.
\<close>

subsection \<open>v2/codec/codec_factory.go\<close>

text \<open>
  \<open>'g\<close> is the state of the reader that the gob decoder of the open codec reads from, \<open>'c\<close> that of
  the connection.
\<close>

datatype ('g, 'c) legacyCodec = OpenGob "'g gobCodec" | Sealed "'c cryptoCodec"

definition NewServerCodec ::
  "crypto_lib \<Rightarrow> bufw \<Rightarrow> 'g \<Rightarrow> 'c \<Rightarrow> bytes \<Rightarrow> err + ('g, 'c) legacyCodec" where
  "NewServerCodec L buf gobSrc conn key =
     (if length key > 0 then
        (case newCryptoServerCodec L buf conn key of
           Inl e \<Rightarrow> Inl e
         | Inr cdc \<Rightarrow> Inr (Sealed cdc))
      else Inr (OpenGob (newGobServerCodec buf gobSrc)))"

definition NewClientCodec ::
  "crypto_lib \<Rightarrow> bufw \<Rightarrow> 'g \<Rightarrow> 'c \<Rightarrow> bytes \<Rightarrow> err + ('g, 'c) legacyCodec" where
  "NewClientCodec L buf gobSrc conn key =
     (if length key > 0 then
        (case newCryptoClientCodec L buf conn key of
           Inl e \<Rightarrow> Inl e
         | Inr cdc \<Rightarrow> Inr (Sealed cdc))
      else Inr (OpenGob (newGobClientCodec buf gobSrc)))"

text \<open>\<open>Inl\<close> is the value of the panic.\<close>

definition GetServerCodec ::
  "crypto_lib \<Rightarrow> bufw \<Rightarrow> 'g \<Rightarrow> 'c \<Rightarrow> bytes \<Rightarrow> err + ('g, 'c) legacyCodec" where
  "GetServerCodec L buf gobSrc conn key =
     (case NewServerCodec L buf gobSrc conn key of Inl panic \<Rightarrow> Inl panic | Inr cdc \<Rightarrow> Inr cdc)"

definition GetClientCodec ::
  "crypto_lib \<Rightarrow> bufw \<Rightarrow> 'g \<Rightarrow> 'c \<Rightarrow> bytes \<Rightarrow> err + ('g, 'c) legacyCodec" where
  "GetClientCodec L buf gobSrc conn key =
     (case NewClientCodec L buf gobSrc conn key of Inl panic \<Rightarrow> Inl panic | Inr cdc \<Rightarrow> Inr cdc)"

subsection \<open>v3/codec/negotiate.go\<close>

definition jsonFirstByte :: byte where
  "jsonFirstByte = 123"

definition isJSONStream :: "bytes \<Rightarrow> bool" where
  "isJSONStream b =
     (if length b = 0 \<or> b ! 0 \<noteq> jsonFirstByte then False
      else if length b < 2 then True
      else b ! 1 \<in> {34, 32, 9, 10, 13})"

type_synonym prefixConn = "conn bufio"

definition prefixRead :: "prefixConn reader" where
  "prefixRead = bufRead connRead"

definition sniffServerConn :: "conn \<Rightarrow> err + prefixConn \<times> bool" where
  "sniffServerConn conn =
     (case Peek connRead 2 (newBufio conn) of
        ((first, e), br) \<Rightarrow>
          if length first = 0 then
            (if (case e of None \<Rightarrow> False | Some x \<Rightarrow> errors_Is x EOF) then Inr (br, False)
             else Inl (Errorf ''rpc: sniff peek: %w'' [] e))
          else Inr (br, isJSONStream first))"

datatype serverCodecV3 =
    LegacyServer "(prefixConn, prefixConn) legacyCodec"
  | JSONServer "prefixConn jsonCodec"
  | JSONCryptoServer "prefixConn jsonCryptoCodec"

text \<open>\<open>prefixConn\<close> gives single bytes, so the gob decoder reads from it directly.\<close>

definition NewServerCodecV3 :: "crypto_lib \<Rightarrow> bufw \<Rightarrow> conn \<Rightarrow> bytes \<Rightarrow> int \<Rightarrow> err + serverCodecV3" where
  "NewServerCodecV3 L buf conn key maxBody =
     (case sniffServerConn conn of
        Inl e \<Rightarrow> Inl e
      | Inr (sniffed, isJSON) \<Rightarrow>
          if \<not> isJSON then map_sum id LegacyServer (NewServerCodec L buf sniffed sniffed key)
          else if length key > 0
          then map_sum id JSONCryptoServer (newJSONCryptoServerCodec L buf sniffed key maxBody)
          else Inr (JSONServer (newJSONServerCodec buf sniffed maxBody)))"

datatype clientCodecV3 =
    LegacyClient "(conn bufio, conn) legacyCodec"
  | JSONClient "conn jsonCodec"
  | JSONCryptoClient "conn jsonCryptoCodec"

definition NewClientCodecV3 ::
  "crypto_lib \<Rightarrow> bufw \<Rightarrow> conn \<Rightarrow> bytes \<Rightarrow> int \<Rightarrow> bool \<Rightarrow> err + clientCodecV3" where
  "NewClientCodecV3 L buf conn key maxBody jsonTransport =
     (if \<not> jsonTransport then map_sum id LegacyClient (NewClientCodec L buf (newBufio conn) conn key)
      else if length key > 0
      then map_sum id JSONCryptoClient (newJSONCryptoClientCodec L buf conn key maxBody)
      else Inr (JSONClient (newJSONClientCodec buf conn maxBody)))"

subsection \<open>Lemmas\<close>

interpretation pc: byte_source prefixRead "bio_content conn_content" "bio_final conn_final" cn.bio_ready
  unfolding prefixRead_def by (rule cn.bufRead_ready_source)

lemma isJSONStream_take: "isJSONStream (take 2 c) = isJSONStream c"
  by (auto simp: isJSONStream_def numeral_2_eq_2)

lemma sniff_cases:
  assumes "conn_ok conn"
  obtains (empty) br where "conn_content conn = []" "errors_Is (conn_final conn) EOF"
      "sniffServerConn conn = Inr (br, False)"
  | (failed) e where "conn_content conn = []" "\<not> errors_Is (conn_final conn) EOF" "sniffServerConn conn = Inl e"
  | (short) br x where "conn_content conn = [x]" "sniffServerConn conn = Inr (br, isJSONStream [x])"
      "bioBuf br = [x]"
  | (sniffed) br where "2 \<le> length (conn_content conn)"
      "sniffServerConn conn = Inr (br, isJSONStream (conn_content conn))"
      "cn.bio_ready br" "bio_content conn_content br = conn_content conn"
proof -
  let ?C = "conn_content conn"
  obtain d e br where p: "Peek connRead 2 (newBufio conn) = ((d, e), br)" by (metis prod.exhaust)
  have b: "bio_ok conn_ok (newBufio conn)" "length (bioBuf (newBufio conn)) \<le> bufSize" "(0::int) \<le> 2" "2 \<le> int bufSize"
    using assms by (simp_all add: newBufio_def bio_ok_def bufSize_def)
  have k: "d = take 2 ?C"
    "if 2 \<le> length ?C then e = None \<and> bio_content conn_content br = ?C \<and> bio_ok conn_ok br \<and> length (bioBuf br) \<le> bufSize
     else e = Some (conn_final conn) \<and> bioBuf br = d \<and> bioErr br = None"
    using cn.Peek_source [OF b p] by (auto split: if_splits)
  consider (zero) "?C = []" | (one) x where "?C = [x]" | (two) x y rest where "?C = x # y # rest"
    by (metis list.exhaust)
  then show ?thesis
  proof cases
    case zero
    then have d: "d = []" "e = Some (conn_final conn)" using k by simp_all
    show ?thesis
    proof (cases "errors_Is (conn_final conn) EOF")
      case True
      then show ?thesis using empty zero by (simp add: sniffServerConn_def p d)
    next
      case False
      then show ?thesis using failed zero by (simp add: sniffServerConn_def p d)
    qed
  next
    case one
    then show ?thesis using short k by (simp add: sniffServerConn_def p)
  next
    case two
    then show ?thesis using sniffed k isJSONStream_take [of ?C]
      by (simp add: sniffServerConn_def p cn.bio_ready_def)
  qed
qed

lemma gob_first_bytes:
  assumes "body \<noteq> []" "hd body \<notin> {34, 32, 9, 10, 13}" "length body < 2 ^ 64"
  shows "\<not> isJSONStream (gobMessage body @ rest)"
proof (cases "length body \<le> 127")
  case True
  obtain x xs where b: "body = x # xs" using assms(1) by (cases body) auto
  have "gobMessage body @ rest = of_nat (length body) # x # xs @ rest"
    using True by (simp add: gobMessage_def gobUint_def b)
  then show ?thesis using assms(2) by (simp add: isJSONStream_def b)
next
  case False
  define k where "k = length (be_bytes (length body))"
  have k: "1 \<le> k" "k \<le> 8" using be_bytes_length [of "length body" 7] assms(3) by (auto simp: k_def)
  define x :: byte where "x = of_nat (256 - k)"
  have "256 - k < 256" using k by simp
  then have "unat x = 256 - k" unfolding x_def by (rule unat_byte)
  then have "unat x \<noteq> unat (123 :: byte)" using k by simp
  then have "x \<noteq> 123" by auto
  moreover have "gobMessage body @ rest = x # be_bytes (length body) @ body @ rest"
    using False by (simp add: gobMessage_def gobUint_def k_def x_def)
  ultimately show ?thesis by (simp add: isJSONStream_def jsonFirstByte_def)
qed

lemma sniff_long:
  assumes "conn_ok conn" "2 \<le> length (conn_content conn)"
  shows "\<exists>br. sniffServerConn conn = Inr (br, isJSONStream (conn_content conn)) \<and> cn.bio_ready br \<and>
    bio_content conn_content br = conn_content conn"
  by (rule sniff_cases [OF assms(1)]) (use assms(2) in auto)

lemma newCryptoServerCodec_prefix_ready:
  assumes "crypto_lib_ok L" "newCryptoServerCodec L buf br key = Inr c" "cn.bio_ready br"
  shows "pc.cc_ready c (bio_content conn_content br) \<and> ccTypes c = [] \<and> crypto_wf (ccCrypto c) \<and>
    newCrypto L key = Inr (ccCrypto c)"
  using assms newCrypto_wf [OF assms(1), of key]
  by (auto simp: newCryptoServerCodec_def bindR_eq_Inr newCrypto2_eq newBufferedReadWriteCloser_def
      pc.cc_ready_def pc.bio_ready_def newBufio_def bio_content_def bio_ok_def bufSize_def)

subsection \<open>Properties\<close>

text \<open>
  C15: what \<open>sniffServerConn\<close> decides. It depends on the bytes the peer sends and not on the
  pieces they arrive in: JSON exactly when the stream begins like a JSON object; an empty
  connection that ends with EOF is left to the legacy codec, any other failure before the
  first byte is an error; and no byte is lost, the reader it returns stands for the whole
  stream.
\<close>

theorem sniff_decides:
  assumes "conn_ok conn"
  shows "case sniffServerConn conn of
      Inl e \<Rightarrow> conn_content conn = [] \<and> \<not> errors_Is (conn_final conn) EOF
    | Inr (br, json) \<Rightarrow>
        json = isJSONStream (conn_content conn) \<and>
        (conn_content conn = [] \<longrightarrow> errors_Is (conn_final conn) EOF) \<and>
        (if 2 \<le> length (conn_content conn) then bio_content conn_content br = conn_content conn
         else take (length (conn_content conn)) (bio_content conn_content br) = conn_content conn)"
  using assms
proof (cases rule: sniff_cases)
  case (short br x)
  then show ?thesis by (auto simp: bio_content_def)
next
  case (sniffed br)
  then show ?thesis by auto
qed (simp_all add: isJSONStream_def [of "[]"])

theorem sniff_decides_witness:
  "\<exists>br. sniffServerConn [Piece [123], Piece [34, 65]] = Inr (br, True) \<and>
     bio_content conn_content br = [123, 34, 65]"
proof -
  have c: "conn_ok [Piece [123], Piece [34, 65]]" "conn_content [Piece [123], Piece [34, 65]] = [123, 34, 65]"
    by (simp_all add: conn_ok_def)
  have "isJSONStream [123, 34, 65]" by (simp add: isJSONStream_def jsonFirstByte_def)
  then show ?thesis using sniff_decides [OF c(1)] c(2) by (auto split: sum.splits prod.splits)
qed

text \<open>
  C2: JSON is negotiated. A v3 client on the JSON transport without a key, whose first header
  begins like a JSON object, meets a v3 server: the server takes the JSON codec, and, whatever
  the pieces the requests arrive in, reads every header and every body to what unmarshalling
  the sent texts gives.
\<close>

theorem json_negotiated_session:
  assumes "json_lib_ok J"
    and "NewClientCodecV3 L (newWriter \<lparr>snkOut = [], snkLimit = None\<rparr>) conn0 [] m' True = Inr (JSONClient cl)"
    and "sendRequests calls cl = (errs, cl')" and "length calls = length bodies" and "calls \<noteq> []"
    and "fst (hd calls) = 123 # c2 # h" and "c2 \<in> {34, 32, 9, 10, 13}"
    and "\<forall>(h, b) \<in> set calls. fits J (effectiveMaxBody m) h \<and> fits J (effectiveMaxBody m) b"
    and "conn_ok arrivals" and "conn_content arrivals = snkOut (bwSink (jcBuf cl'))"
  shows "errs = replicate (length calls) None \<and>
    (\<exists>srv c'. NewServerCodecV3 L w arrivals [] m = Inr (JSONServer srv) \<and>
      serveReads J prefixRead umReq bodies srv =
        Some (map2 (\<lambda>hb body. (umReq (fst hb), bodyResult body (snd hb))) calls bodies, c'))"
proof -
  have cl: "writer_ok (jcBuf cl)" "encErr (jcEnc cl) = None" "bwBuf (jcBuf cl) = []" "snkOut (bwSink (jcBuf cl)) = []"
    using assms(2)
    by (auto simp: NewClientCodecV3_def newJSONClientCodec_def Let_def newWriter_def writer_ok_def newEncoder_def)
  have e: "errs = replicate (length calls) None" "snkOut (bwSink (jcBuf cl')) = concat (map call_text calls)"
    using sendRequests_ok [OF cl(1-3), of calls] assms(3) cl(4) by auto
  have c: "conn_content arrivals = concat (map call_text calls)" using assms(10) e(2) by simp
  obtain hb calls' where calls: "calls = hb # calls'" using assms(5) by (cases calls) auto
  then have "conn_content arrivals = 123 # c2 # (h @ [10] @ snd hb @ [10] @ concat (map call_text calls'))"
    using assms(6) by (simp add: c call_text_def [of hb])
  then have j: "isJSONStream (conn_content arrivals)" "2 \<le> length (conn_content arrivals)"
    using assms(7) by (auto simp: isJSONStream_def jsonFirstByte_def)
  obtain br where br: "sniffServerConn arrivals = Inr (br, True)" "cn.bio_ready br"
      "bio_content conn_content br = concat (map call_text calls)"
    using sniff_long [OF assms(9) j(2)] j(1) c by auto
  let ?srv = "newJSONServerCodec w br m"
  have s: "NewServerCodecV3 L w arrivals [] m = Inr (JSONServer ?srv)"
    by (simp add: NewServerCodecV3_def br(1))
  have r: "pc.jc_ready ?srv" "pc.jc_stream ?srv = [] @ concat (map call_text calls) @ []"
    using newCodec_ready [OF pc.byte_source_axioms br(2), of w m] br(3) by simp_all
  show ?thesis
    using pc.serveReads_texts [OF assms(1) r(1) assms(4) _ _ r(2), of umReq] assms(8) e(1) s by auto
qed

text \<open>
  A v2 client is served byte for byte. Sealed requests of a client on the legacy transport
  reach a v3 server with the same secret: it takes the v2 codec and opens every call. That the
  test of the first bytes sends them there is because the first gob message is a type
  definition, whose first byte is not one of those that may follow the brace of a JSON object.
\<close>

theorem legacy_negotiated_session:
  assumes "crypto_lib_ok L" and "gob_bytes_ok B" and "typed_calls H G [] msgs vs" and "key \<noteq> []"
    and "\<forall>(rnd, hdr, body) \<in> set msgs. rand_ok rnd \<and> (\<exists>n. rnd 12 = Inr n) \<and> length (gob_text body) + 39 < tooBig"
    and "fst (fst (snd (hd msgs))) = (d # ds) # defs" and "d \<notin> {34, 32, 9, 10, 13}" and "msgs \<noteq> []"
    and "NewClientCodecV3 L (newWriter \<lparr>snkOut = [], snkLimit = None\<rparr>) conn0 key m' False = Inr (LegacyClient (Sealed cl))"
    and "sealedSends L msgs cl = (outcomes, cl')"
    and "conn_ok arrivals" and "conn_content arrivals = snkOut (bwSink (ccBuf cl'))"
  shows "\<exists>srv c'. NewServerCodecV3 L w arrivals key m = Inr (LegacyServer (Sealed srv)) \<and>
    sealedServe L B prefixRead H G (length msgs) srv = Some (map (\<lambda>(h, v). (Inr h, Inr v)) vs, c')"
proof -
  obtain crypto where cr: "newCrypto L key = Inr crypto" "crypto_wf crypto"
    using newCrypto_Inr [OF assms(1)] newCrypto_wf [OF assms(1)] by blast
  have cl: "writer_ok (ccBuf cl)" "bwBuf (ccBuf cl) = []" "ccCrypto cl = crypto" "snkOut (bwSink (ccBuf cl)) = []"
    using assms(4,9) cr(1)
    by (auto simp: NewClientCodecV3_def NewClientCodec_def newCryptoClientCodec_def newCrypto2_eq
        newWriter_def writer_ok_def)
  have v: "\<forall>(rnd, hdr, body) \<in> set msgs. (\<exists>n. rnd 12 = Inr n) \<and> (\<exists>hb. snd hdr = Inr hb) \<and> (\<exists>bb. snd body = Inr bb)"
    using assms(5) typed_calls_values [OF assms(3)] by (fastforce simp: case_prod_beta)
  obtain b blobs where b: "sealedSends L msgs cl = (replicate (length msgs) (Returns None), cl\<lparr>ccBuf := b\<rparr>)"
      "snkOut (bwSink b) = concat (map2 (\<lambda>m s. sealed_call (fst (snd m)) s) msgs blobs)"
      "list_all2 (\<lambda>m s. Encrypt2 L (fst m) crypto (gob_text (snd (snd m))) = Inr s) msgs blobs"
    using sealedSends_ok [OF cl(1,2) _ v, of L] cr(2) cl(3,4) by auto
  let ?C = "concat (map2 (\<lambda>m s. sealed_call (fst (snd m)) s) msgs blobs)"
  have c: "conn_content arrivals = ?C" using assms(10,12) b(1,2) by auto
  obtain m0 ms where ms: "msgs = m0 # ms" using assms(8) by (cases msgs) auto
  obtain s0 ss where ss: "blobs = s0 # ss" using b(3) by (cases blobs) (auto simp: ms)
  obtain rnd hdr body where m0: "m0 = (rnd, hdr, body)" by (cases m0) auto
  obtain h v vs' where vs: "vs = (h, v) # vs'" using assms(3) by (cases vs) (auto simp: ms m0)
  obtain hb where "typed_by H [] (fst hdr) hb h" using assms(3) by (auto simp: ms m0 vs)
  moreover have "fst hdr = (d # ds) # defs" using assms(6) by (simp add: ms m0)
  ultimately have "length (d # ds) < tooBig" by simp
  then have "\<not> isJSONStream (gobMessage (d # ds) @ rest)" for rest
    using gob_first_bytes [of "d # ds" rest] assms(7) by (simp add: tooBig_def)
  moreover obtain rest where "?C = gobMessage (d # ds) @ rest"
    using assms(6) by (simp add: ms ss sealed_call_def gob_text_def)
  moreover have "2 \<le> length ?C"
    by (simp add: ms ss sealed_call_def magicPrefix2_def)
  ultimately have j: "\<not> isJSONStream (conn_content arrivals)" "2 \<le> length (conn_content arrivals)"
    by (simp_all add: c)
  obtain br where br: "sniffServerConn arrivals = Inr (br, False)" "cn.bio_ready br" "bio_content conn_content br = ?C"
    using sniff_long [OF assms(11) j(2)] j(1) c by auto
  obtain srv where srv: "newCryptoServerCodec L w br key = Inr srv"
    using cr(1) by (auto simp: newCryptoServerCodec_def newCrypto2_eq)
  then have s: "NewServerCodecV3 L w arrivals key m = Inr (LegacyServer (Sealed srv))"
    using assms(4) by (simp add: NewServerCodecV3_def br(1) NewServerCodec_def)
  have r: "pc.cc_ready srv (?C @ [])" "ccTypes srv = []" "ccCrypto srv = crypto"
    using newCryptoServerCodec_prefix_ready [OF assms(1) srv br(2)] br(3) cr(1) by auto
  have "list_all2 (\<lambda>m s. length (bytesBody s) < tooBig \<and>
      Decrypt2 L (ccCrypto srv) s = Inr (gob_text (snd (snd m)))) msgs blobs"
    unfolding r(3) by (rule sealed_blobs [OF assms(1) cr(2) _ b(3)]) (use assms(5) in auto)
  then obtain c' where "sealedServe L B prefixRead H G (length msgs) srv = Some (map (\<lambda>(h, v). (Inr h, Inr v)) vs, c')"
    using pc.sealedServe_calls [OF assms(2) r(1), of H G vs L] assms(3) r(2) by auto
  then show ?thesis using s by blast
qed

subsection \<open>Witnesses\<close>

theorem json_negotiated_session_witness:
  "\<exists>cl errs cl' srv c'. NewClientCodecV3 plain_crypto_lib (newWriter \<lparr>snkOut = [], snkLimit = None\<rparr>) [] [] 0 True = Inr (JSONClient cl) \<and>
    sendRequests [(braces [34, 1], braces [2])] cl = (errs, cl') \<and>
    NewServerCodecV3 plain_crypto_lib (newWriter \<lparr>snkOut = [], snkLimit = None\<rparr>)
      [Piece [123], Piece [34, 1, 125, 10, 123], Piece [2, 125, 10]] [] 0 = Inr (JSONServer srv) \<and>
    serveReads brace_lib prefixRead Inr [Some Inr] srv = Some ([(Inr (braces [34, 1]), Inr (Some (braces [2])))], c')"
proof -
  let ?w = "newWriter \<lparr>snkOut = [], snkLimit = None\<rparr>"
  let ?arr = "[Piece [123], Piece [34, 1, 125, 10, 123], Piece [2, 125, 10]] :: conn"
  let ?calls = "[(braces [34, 1], braces [2])]"
  have n: "NewClientCodecV3 plain_crypto_lib ?w [] [] 0 True = Inr (JSONClient (newJSONClientCodec ?w [] 0))"
    by (simp add: NewClientCodecV3_def)
  obtain errs cl' where s: "sendRequests ?calls (newJSONClientCodec ?w ([] :: conn) 0) = (errs, cl')"
    by (metis prod.exhaust)
  have w: "writer_ok (jcBuf (newJSONClientCodec ?w ([] :: conn) 0))"
      "encErr (jcEnc (newJSONClientCodec ?w ([] :: conn) 0)) = None" "bwBuf (jcBuf (newJSONClientCodec ?w ([] :: conn) 0)) = []"
    by (simp_all add: newCodec_client newWriter_def writer_ok_def newEncoder_def)
  have o: "snkOut (bwSink (jcBuf cl')) = call_text (braces [34, 1], braces [2])"
    using sendRequests_ok [OF w, of ?calls] s by (auto simp: newCodec_client newWriter_def)
  have f: "fits brace_lib (effectiveMaxBody 0) (braces [34, 1])" "fits brace_lib (effectiveMaxBody 0) (braces [2])"
    using brace_text [of "[34, 1]"] brace_text [of "[2]"]
    by (simp_all add: fits_def effectiveMaxBody_def DefaultMaxJSONBody_def braces_def)
  have h: "fst (hd ?calls) = 123 # 34 # [1, 125]" "(34 :: byte) \<in> {34, 32, 9, 10, 13}"
    by (simp_all add: braces_def)
  have a: "conn_ok ?arr" "conn_content ?arr = snkOut (bwSink (jcBuf cl'))"
    by (simp_all add: conn_ok_def o call_text_def braces_def)
  have l: "length ?calls = length [Some (Inr :: bytes \<Rightarrow> err + bytes)]" "?calls \<noteq> []" by simp_all
  from json_negotiated_session [OF brace_lib_ok n s l h _ a,
      where m = 0 and w = ?w and umReq = "Inr :: bytes \<Rightarrow> err + bytes"] f
  obtain srv c' where "NewServerCodecV3 plain_crypto_lib ?w ?arr [] 0 = Inr (JSONServer srv)"
    "serveReads brace_lib prefixRead Inr [Some Inr] srv =
      Some (map2 (\<lambda>hb body. (Inr (fst hb), bodyResult body (snd hb))) ?calls [Some Inr], c')" by auto
  then show ?thesis using n s by (auto simp: bodyResult_def)
qed

text \<open>Headers for the witness: a type definition that begins with 255, then a \<open>[]byte\<close>.\<close>

definition typed_gob :: "bytes gob_interp" where
  "typed_gob ts b = (if b \<noteq> [] \<and> hd b = 255 then GobType else plain_gob ts b)"

definition typed0 :: sealed_out where
  "typed0 = (zero_rand, ([[255, 129]], Inr (bytesBody [1])), ([], Inr (bytesBody [2])))"

text \<open>The hypotheses of a sealed session, at one call.\<close>

lemma typed0_session:
  obtains cl outcomes cl' where
    "NewClientCodecV3 plain_crypto_lib (newWriter \<lparr>snkOut = [], snkLimit = None\<rparr>) [] [1] 0 False =
      Inr (LegacyClient (Sealed cl))"
    "sealedSends plain_crypto_lib [typed0] cl = (outcomes, cl')"
    "typed_calls typed_gob plain_gob [] [typed0] [([1], [2])]"
    "\<forall>(rnd, hdr, body) \<in> set [typed0]. rand_ok rnd \<and> (\<exists>n. rnd 12 = Inr n) \<and> length (gob_text body) + 39 < tooBig"
    "fst (fst (snd (hd [typed0]))) = (255 # [129]) # []" "(255 :: byte) \<notin> {34, 32, 9, 10, 13}" "[typed0] \<noteq> []"
    "conn_ok [Piece (snkOut (bwSink (ccBuf cl')))]"
    "conn_content [Piece (snkOut (bwSink (ccBuf cl')))] = snkOut (bwSink (ccBuf cl'))"
proof -
  let ?w = "newWriter \<lparr>snkOut = [], snkLimit = None\<rparr>"
  obtain cl :: "conn cryptoCodec" where cl: "newCryptoServerCodec plain_crypto_lib ?w [] [1] = Inr cl"
    "newCrypto plain_crypto_lib [1] = Inr (ccCrypto cl)" "ccBuf cl = ?w"
    by (rule newCrypto2_exists)
  have n: "NewClientCodecV3 plain_crypto_lib ?w [] [1] 0 False = Inr (LegacyClient (Sealed cl))"
    by (simp add: NewClientCodecV3_def NewClientCodec_def newCryptoClientCodec_eq cl(1))
  obtain outcomes cl' where s: "sealedSends plain_crypto_lib [typed0] cl = (outcomes, cl')" by (metis prod.exhaust)
  let ?out = "snkOut (bwSink (ccBuf cl'))"
  have p: "plain_gob ts (bytesBody [x]) = GobValue [x]" for ts x by (rule plain_gob_body) simp
  have t: "typed_gob ts (bytesBody [x]) = GobValue [x]" for ts x
    using p by (simp add: typed_gob_def bytesBody_def)
  have ty: "typed_calls typed_gob plain_gob [] [typed0] [([1], [2])]"
    by (simp add: typed0_def p t bytesBody_small tooBig_def) (simp add: typed_gob_def)
  have "length (gob_text ([], Inr (bytesBody [2]))) + 39 < tooBig"
    by (simp add: gob_text_def gobMessage_def bytesBody_small gobUint_def tooBig_def)
  then have side: "\<forall>(rnd, hdr, body) \<in> set [typed0]. rand_ok rnd \<and> (\<exists>n. rnd 12 = Inr n) \<and>
      length (gob_text body) + 39 < tooBig"
    using zero_rand_ok by (simp add: typed0_def) (simp add: zero_rand_def)
  have w: "writer_ok (ccBuf cl)" "bwBuf (ccBuf cl) = []" "crypto_wf (ccCrypto cl)"
    using cl(3) newCrypto_wf [OF plain_crypto_lib_ok cl(2)] by (simp_all add: newWriter_def writer_ok_def)
  have "\<forall>(rnd, hdr, body) \<in> set [typed0]. (\<exists>n. rnd 12 = Inr n) \<and> (\<exists>hb. snd hdr = Inr hb) \<and> (\<exists>bb. snd body = Inr bb)"
    by (simp add: typed0_def zero_rand_def)
  from sealedSends_ok [OF w this, of plain_crypto_lib] s obtain blobs where
    o: "?out = snkOut (bwSink (ccBuf cl)) @ concat (map2 (\<lambda>m s. sealed_call (fst (snd m)) s) [typed0] blobs)"
    and "list_all2 (\<lambda>m s. Encrypt2 plain_crypto_lib (fst m) (ccCrypto cl) (gob_text (snd (snd m))) = Inr s) [typed0] blobs"
    by auto
  then obtain x where "blobs = [x]" by (auto simp: list_all2_Cons1)
  with o have "?out \<noteq> []" by (simp add: sealed_call_def magicPrefix2_def)
  then have arr: "conn_ok [Piece ?out]" "conn_content [Piece ?out] = ?out" by (simp_all add: conn_ok_def)
  have d: "fst (fst (snd (hd [typed0]))) = (255 # [129]) # []" "(255 :: byte) \<notin> {34, 32, 9, 10, 13}" "[typed0] \<noteq> []"
    by (simp_all add: typed0_def)
  show ?thesis by (rule that [OF n s ty side d arr])
qed

theorem legacy_negotiated_session_witness:
  "\<exists>cl outcomes cl' srv c'. NewClientCodecV3 plain_crypto_lib (newWriter \<lparr>snkOut = [], snkLimit = None\<rparr>) [] [1] 0 False =
      Inr (LegacyClient (Sealed cl)) \<and>
    sealedSends plain_crypto_lib [typed0] cl = (outcomes, cl') \<and>
    NewServerCodecV3 plain_crypto_lib (newWriter \<lparr>snkOut = [], snkLimit = None\<rparr>)
      [Piece (snkOut (bwSink (ccBuf cl')))] [1] 0 = Inr (LegacyServer (Sealed srv)) \<and>
    sealedServe plain_crypto_lib plain_gob prefixRead typed_gob plain_gob 1 srv = Some ([(Inr [1], Inr [2])], c')"
proof -
  let ?w = "newWriter \<lparr>snkOut = [], snkLimit = None\<rparr>"
  obtain cl outcomes cl' where a: "NewClientCodecV3 plain_crypto_lib ?w [] [1] 0 False = Inr (LegacyClient (Sealed cl))"
    "sealedSends plain_crypto_lib [typed0] cl = (outcomes, cl')"
    "typed_calls typed_gob plain_gob [] [typed0] [([1], [2])]"
    "\<forall>(rnd, hdr, body) \<in> set [typed0]. rand_ok rnd \<and> (\<exists>n. rnd 12 = Inr n) \<and> length (gob_text body) + 39 < tooBig"
    "fst (fst (snd (hd [typed0]))) = (255 # [129]) # []" "(255 :: byte) \<notin> {34, 32, 9, 10, 13}" "[typed0] \<noteq> []"
    "conn_ok [Piece (snkOut (bwSink (ccBuf cl')))]"
    "conn_content [Piece (snkOut (bwSink (ccBuf cl')))] = snkOut (bwSink (ccBuf cl'))"
    by (rule typed0_session)
  have k: "[1 :: byte] \<noteq> []" by simp
  from legacy_negotiated_session [OF plain_crypto_lib_ok plain_gob_ok a(3) k a(4-7) a(1,2,8,9), of ?w 0] a(1,2)
  show ?thesis by auto
qed

end
