(* ===== verification/RpcMessages.thy ===== *)
theory RpcMessages
  imports GoErrors
begin

text \<open>
  The message types shared by v1 and v2 (\<open>v2/request.go\<close>, \<open>v2/response.go\<close>, \<open>v2/errors.go\<close>;
  the v1 files are the same) and the in-memory connection of \<open>v2/codec/buffer.go\<close>. A Go map that
  was never made is \<open>None\<close>: it can be read, writing to it panics. \<open>strings.ToUpper\<close> is an
  argument.
\<close>

subsection \<open>Meta\<close>

record 'v Meta =
  mtRecords :: "(string \<rightharpoonup> 'v) option"

definition NewMeta :: "'v Meta" where
  "NewMeta = \<lparr>mtRecords = Some Map.empty\<rparr>"

definition nilMapWrite :: err where
  "nilMapWrite = New ''assignment to entry in nil map''"

text \<open>\<open>Inl\<close> is the value of the panic.\<close>

definition SetMeta :: "(string \<Rightarrow> string) \<Rightarrow> string \<Rightarrow> 'v \<Rightarrow> 'v Meta \<Rightarrow> err + 'v Meta" where
  "SetMeta toUpper key value m =
     (case mtRecords m of
        None \<Rightarrow> Inl nilMapWrite
      | Some r \<Rightarrow> Inr (m\<lparr>mtRecords := Some (r(toUpper key \<mapsto> value))\<rparr>))"

text \<open>A missing key gives nil, \<open>None\<close>.\<close>

definition GetMeta :: "(string \<Rightarrow> string) \<Rightarrow> string \<Rightarrow> 'v Meta \<Rightarrow> 'v option" where
  "GetMeta toUpper key m =
     (case mtRecords m of
        None \<Rightarrow> None
      | Some r \<Rightarrow> (case r (toUpper key) of None \<Rightarrow> None | Some v \<Rightarrow> Some v))"

record ('v, 'd) Request =
  rqMeta :: "'v Meta"
  rqData :: 'd

record 'd Response =
  rpError :: "err option"
  rpStatus :: int
  rpData :: 'd

record CallErrorV2 =
  ceText :: string

definition NewCallError :: "string \<Rightarrow> CallErrorV2" where
  "NewCallError message = \<lparr>ceText = message\<rparr>"

definition CallErrorError :: "CallErrorV2 \<Rightarrow> string" where
  "CallErrorError e = ceText e"

primrec setAll :: "(string \<Rightarrow> string) \<Rightarrow> (string \<times> 'v) list \<Rightarrow> 'v Meta \<Rightarrow> err + 'v Meta" where
  "setAll toUpper [] m = Inr m"
| "setAll toUpper (kv # kvs) m =
     (case SetMeta toUpper (fst kv) (snd kv) m of Inl e \<Rightarrow> Inl e | Inr m' \<Rightarrow> setAll toUpper kvs m')"

lemma setAll_records:
  "mtRecords m = Some r \<Longrightarrow>
   \<exists>m'. setAll toUpper kvs m = Inr m' \<and> mtRecords m' = Some (r ++ map_of (rev (map (\<lambda>(k, v). (toUpper k, v)) kvs)))"
proof (induction kvs arbitrary: m r)
  case (Cons kv kvs)
  obtain k v where kv: "kv = (k, v)" by (cases kv)
  have "mtRecords (m\<lparr>mtRecords := Some (r(toUpper k \<mapsto> v))\<rparr>) = Some (r(toUpper k \<mapsto> v))" by simp
  from Cons.IH [OF this] obtain m' where
    "setAll toUpper kvs (m\<lparr>mtRecords := Some (r(toUpper k \<mapsto> v))\<rparr>) = Inr m'"
    "mtRecords m' = Some (r(toUpper k \<mapsto> v) ++ map_of (rev (map (\<lambda>(k, v). (toUpper k, v)) kvs)))" by blast
  moreover have "map_of (rev (map (\<lambda>(k, v). (toUpper k, v)) (kv # kvs))) =
      [toUpper k \<mapsto> v] ++ map_of (rev (map (\<lambda>(k, v). (toUpper k, v)) kvs))" by (simp add: kv)
  moreover have "r(toUpper k \<mapsto> v) ++ f = r ++ ([toUpper k \<mapsto> v] ++ f)" for f
    by (rule ext) (simp add: map_add_def split: option.split)
  ultimately show ?case using Cons.prems by (simp only: kv setAll.simps SetMeta_def fst_conv snd_conv option.case sum.case) blast
qed simp

subsection \<open>BytesReadWriteCloser\<close>

record BytesReadWriteCloser =
  brBuffer :: bytes

definition NewBytesReadWriteCloser :: BytesReadWriteCloser where
  "NewBytesReadWriteCloser = \<lparr>brBuffer = []\<rparr>"

definition NewBytesReadWriteCloserWithBuffer :: "bytes \<Rightarrow> BytesReadWriteCloser" where
  "NewBytesReadWriteCloserWithBuffer buffer = \<lparr>brBuffer = buffer\<rparr>"

definition BrLen :: "BytesReadWriteCloser \<Rightarrow> nat" where
  "BrLen b = length (brBuffer b)"

definition BrBytes :: "BytesReadWriteCloser \<Rightarrow> bytes" where
  "BrBytes b = brBuffer b"

definition BrReadByte :: "BytesReadWriteCloser \<Rightarrow> (err + byte) \<times> BytesReadWriteCloser" where
  "BrReadByte b = (case brBuffer b of [] \<Rightarrow> (Inl EOF, b) | x # xs \<Rightarrow> (Inr x, b\<lparr>brBuffer := xs\<rparr>))"

function BrReadAll :: "bytes \<Rightarrow> BytesReadWriteCloser \<Rightarrow> bytes \<times> BytesReadWriteCloser" where
  "BrReadAll result b =
     (case BrReadByte b of
        (Inl e, b') \<Rightarrow> (result, b')
      | (Inr x, b') \<Rightarrow> BrReadAll (result @ [x]) b')"
  by pat_completeness auto
termination
  by (relation "measure (\<lambda>(_, b). length (brBuffer b))") (auto simp: BrReadByte_def split: list.splits)

declare BrReadAll.simps [simp del]

text \<open>\<open>bytes.Buffer.Read\<close> into \<open>p\<close> bytes of room: an empty buffer is \<open>io.EOF\<close>, unless there is no room.\<close>

definition BrRead :: "nat \<Rightarrow> BytesReadWriteCloser \<Rightarrow> (bytes \<times> err option) \<times> BytesReadWriteCloser" where
  "BrRead p b =
     (if brBuffer b = [] then (([], if p = 0 then None else Some EOF), b)
      else ((take p (brBuffer b), None), b\<lparr>brBuffer := drop p (brBuffer b)\<rparr>))"

definition BrWrite :: "bytes \<Rightarrow> BytesReadWriteCloser \<Rightarrow> (nat \<times> err option) \<times> BytesReadWriteCloser" where
  "BrWrite p b = ((length p, None), b\<lparr>brBuffer := brBuffer b @ p\<rparr>)"

definition BrClose :: "BytesReadWriteCloser \<Rightarrow> err option" where
  "BrClose b = None"

lemma BrReadAll_eq: "BrReadAll result b = (result @ brBuffer b, b\<lparr>brBuffer := []\<rparr>)"
proof (induction result b rule: BrReadAll.induct)
  case (1 result b)
  then show ?case
    by (subst BrReadAll.simps) (cases "brBuffer b"; auto simp: BrReadByte_def)
qed

subsection \<open>Properties\<close>

text \<open>
  Metadata are found whatever the case of the key. After any sequence of Set on a Meta from
  NewMeta, Get of a key gives the value last set under a key with the same upper case, and nil
  when there is none; on a Meta that is the zero value of a request, Get gives nil and Set panics.
\<close>

theorem Meta_lookup:
  "(\<exists>m. setAll toUpper kvs NewMeta = Inr m \<and>
      GetMeta toUpper key m = map_of (rev (map (\<lambda>(k, v). (toUpper k, v)) kvs)) (toUpper key)) \<and>
   GetMeta toUpper key \<lparr>mtRecords = None\<rparr> = None \<and>
   SetMeta toUpper key value \<lparr>mtRecords = None\<rparr> = Inl nilMapWrite"
proof -
  obtain m where "setAll toUpper kvs NewMeta = Inr m"
      "mtRecords m = Some (map_of (rev (map (\<lambda>(k, v). (toUpper k, v)) kvs)))"
    using setAll_records [of NewMeta Map.empty toUpper kvs] by (auto simp: NewMeta_def)
  then show ?thesis by (auto simp: GetMeta_def SetMeta_def split: option.splits)
qed

text \<open>
  The in-memory connection is a queue of bytes. What is written is read back in order, by
  any mixture of reads followed by ReadAll, whose loop ends and empties the buffer.
\<close>

theorem BytesReadWriteCloser_queue:
  "case BrWrite p b of ((n, e), b1) \<Rightarrow> n = length p \<and> e = None \<and>
    (case BrRead k b1 of ((q, e'), b2) \<Rightarrow>
       q @ fst (BrReadAll [] b2) = BrBytes b @ p \<and> length q \<le> k \<and> BrLen (snd (BrReadAll [] b2)) = 0 \<and>
       (e' = None \<longleftrightarrow> BrBytes b @ p \<noteq> [] \<or> k = 0))"
  using append_take_drop_id [of k "brBuffer b @ p"]
  by (auto simp: BrWrite_def BrRead_def BrReadAll_eq BrBytes_def BrLen_def simp del: take_append drop_append append_take_drop_id)

end
