(* ===== verification/Codec1.thy ===== *)
theory Codec1
  imports GobSession RpcMessages
begin

text \<open>
  The codec package of version 1 (\<open>codec/*.go\<close>) and its messages (\<open>request.go\<close>, \<open>response.go\<close>,
  \<open>errors.go\<close>), the last component of the repository's three generations that has code of its
  own: the names end in 1. Its files are separate copies that can drift from those of v2, so each
  function is translated again from the v1 file, over the same state records and library
  parameters, and each is shown to be the function of v2: a v1 peer may stand for a v2 peer in every
  lemma about codecs. Logging is left out.
\<close>

subsection \<open>const.go, errors.go, util.go\<close>

definition magicPrefix1 :: bytes where
  "magicPrefix1 = [byte_of (CHR ''C''), byte_of (CHR ''R''), byte_of (CHR ''Y''), byte_of (CHR ''P''), byte_of (CHR ''T'')]"

definition InvalidDataErr1 :: err where
  "InvalidDataErr1 = New ''invalid input data''"

definition InvalidPrefixErr1 :: err where
  "InvalidPrefixErr1 = New ''invalid data prefix''"

definition PrefixReadErr1 :: err where
  "PrefixReadErr1 = New ''prefix read error''"

text \<open>The loop runs over the indices of the first slice.\<close>

function slicesLoop1 :: "nat \<Rightarrow> bytes \<Rightarrow> bytes \<Rightarrow> bool" where
  "slicesLoop1 i a b =
     (if i < length a then
        (if a ! i \<noteq> b ! i then False else slicesLoop1 (Suc i) a b)
      else True)"
  by pat_completeness auto
termination
  by (relation "measure (\<lambda>(i, a, b). length a - i)") auto

declare slicesLoop1.simps [simp del]

definition slicesEqual1 :: "bytes \<Rightarrow> bytes \<Rightarrow> bool" where
  "slicesEqual1 a b = (if length a \<noteq> length b then False else slicesLoop1 0 a b)"

definition chars1 :: "bytes \<Rightarrow> string" where
  "chars1 b = Join (foldl (\<lambda>res c. res @ [Sprintf_c c]) [] b) '', ''"

subsection \<open>crypto.go\<close>

type_synonym Crypto1 = Crypto

definition normalizeKey1 :: "crypto_lib \<Rightarrow> bytes \<Rightarrow> bytes" where
  "normalizeKey1 L key = (if length key \<in> {16, 24, 32} then key else Sum256 L key)"

definition newCrypto1 :: "crypto_lib \<Rightarrow> bytes \<Rightarrow> err + Crypto1" where
  "newCrypto1 L key =
     (case aesNewCipher (normalizeKey1 L key) of
        Inl e \<Rightarrow> Inl (Errorf ''rpc: create cipher: %w'' [] (Some e))
      | Inr block \<Rightarrow>
          (case NewGCM block of
             Inl e \<Rightarrow> Inl (Errorf ''rpc: create gcm: %w'' [] (Some e))
           | Inr gcm \<Rightarrow> Inr \<lparr>crGcm = gcm, crNonceSize = gcmNonceSize\<rparr>))"

text \<open>\<open>Inl\<close> is the value of the panic.\<close>

definition randBytes1 :: "(nat \<Rightarrow> err + bytes) \<Rightarrow> nat \<Rightarrow> err + bytes" where
  "randBytes1 rnd n = (case rnd n of Inl e \<Rightarrow> Inl e | Inr b \<Rightarrow> Inr b)"

definition Encrypt1 :: "crypto_lib \<Rightarrow> (nat \<Rightarrow> err + bytes) \<Rightarrow> Crypto1 \<Rightarrow> bytes \<Rightarrow> err + bytes" where
  "Encrypt1 L rnd c plaintext =
     bindR (randBytes1 rnd (crNonceSize c)) (\<lambda>nonce.
       let cc = gcmSeal L (crGcm c) nonce plaintext in Inr (nonce @ cc))"

definition Decrypt1 :: "crypto_lib \<Rightarrow> Crypto1 \<Rightarrow> bytes \<Rightarrow> err + bytes" where
  "Decrypt1 L c ciphertext =
     (if length ciphertext < crNonceSize c then Inl (Errorf ''ciphertext is too short'' [] None)
      else
        let nonce = take (crNonceSize c) ciphertext;
            msg = drop (crNonceSize c) ciphertext
        in (case gcmOpen L (crGcm c) nonce msg of None \<Rightarrow> Inl authFailed | Some p \<Rightarrow> Inr p))"

subsection \<open>buffer.go\<close>

type_synonym BytesReadWriteCloser1 = BytesReadWriteCloser

definition NewBytesReadWriteCloser1 :: BytesReadWriteCloser1 where
  "NewBytesReadWriteCloser1 = (let buffer = [] in \<lparr>brBuffer = buffer\<rparr>)"

definition NewBytesReadWriteCloserWithBuffer1 :: "bytes \<Rightarrow> BytesReadWriteCloser1" where
  "NewBytesReadWriteCloserWithBuffer1 buffer = \<lparr>brBuffer = buffer\<rparr>"

definition BrLen1 :: "BytesReadWriteCloser1 \<Rightarrow> nat" where
  "BrLen1 b = length (brBuffer b)"

definition BrBytes1 :: "BytesReadWriteCloser1 \<Rightarrow> bytes" where
  "BrBytes1 b = brBuffer b"

text \<open>The loop of \<open>ReadAll\<close> with the bytes collected so far.\<close>

function BrReadAll1 :: "bytes \<Rightarrow> BytesReadWriteCloser1 \<Rightarrow> bytes \<times> BytesReadWriteCloser1" where
  "BrReadAll1 result b =
     (case BrReadByte b of
        (Inl e, b') \<Rightarrow> (result, b')
      | (Inr x, b') \<Rightarrow> BrReadAll1 (result @ [x]) b')"
  by pat_completeness auto
termination
  by (relation "measure (\<lambda>(_, b). length (brBuffer b))") (auto simp: BrReadByte_def split: list.splits)

declare BrReadAll1.simps [simp del]

definition BrRead1 :: "nat \<Rightarrow> BytesReadWriteCloser1 \<Rightarrow> (bytes \<times> err option) \<times> BytesReadWriteCloser1" where
  "BrRead1 p b =
     (if brBuffer b \<noteq> [] then ((take p (brBuffer b), None), b\<lparr>brBuffer := drop p (brBuffer b)\<rparr>)
      else (([], if p = 0 then None else Some EOF), b))"

definition BrWrite1 :: "bytes \<Rightarrow> BytesReadWriteCloser1 \<Rightarrow> (nat \<times> err option) \<times> BytesReadWriteCloser1" where
  "BrWrite1 p b = ((length p, None), b\<lparr>brBuffer := brBuffer b @ p\<rparr>)"

definition BrClose1 :: "BytesReadWriteCloser1 \<Rightarrow> err option" where
  "BrClose1 b = None"

type_synonym 's BufferedReadWriteCloser1 = "'s bufio"

definition newBufferedReadWriteCloser1 :: "'s \<Rightarrow> 's BufferedReadWriteCloser1" where
  "newBufferedReadWriteCloser1 r = newBufio r"

partial_function (option) BufReadAll1 :: "'s reader \<Rightarrow> bytes \<Rightarrow> 's BufferedReadWriteCloser1 \<Rightarrow>
   (bytes \<times> 's BufferedReadWriteCloser1) option" where
  "BufReadAll1 rd result rw =
     (case ReadByte rd rw of (r, rw') \<Rightarrow>
        (case r of
           Inl _ \<Rightarrow> Some (result, rw')
         | Inr x \<Rightarrow> BufReadAll1 rd (result @ [x]) rw'))"

definition BufReadRWC1 :: "'s reader \<Rightarrow> 's BufferedReadWriteCloser1 reader" where
  "BufReadRWC1 rd = bufRead rd"

definition BufWrite1 :: "bytes \<Rightarrow> sink \<Rightarrow> (nat \<times> err option) \<times> sink" where
  "BufWrite1 p s = connWrite p s"

definition BufClose1 :: "err option \<Rightarrow> err option" where
  "BufClose1 closeErr = closeErr"

definition BufPeek1 :: "'s reader \<Rightarrow> int \<Rightarrow> 's BufferedReadWriteCloser1 \<Rightarrow>
   (bytes \<times> err option) \<times> 's BufferedReadWriteCloser1" where
  "BufPeek1 rd n rw = Peek rd n rw"

definition BufDiscard1 :: "'s reader \<Rightarrow> int \<Rightarrow> 's BufferedReadWriteCloser1 \<Rightarrow>
   (nat \<times> err option) \<times> 's BufferedReadWriteCloser1" where
  "BufDiscard1 rd n rw = Discard rd n rw"

definition BufSize1 :: "'s BufferedReadWriteCloser1 \<Rightarrow> nat" where
  "BufSize1 rw = Buffered rw"

subsection \<open>server_gob_codec.go, client_gob_codec.go\<close>

type_synonym 's gobServerCodec1 = "'s gobCodec"
type_synonym 's gobClientCodec1 = "'s gobCodec"

definition newGobServerCodec1 :: "bufw \<Rightarrow> 's \<Rightarrow> 's gobServerCodec1" where
  "newGobServerCodec1 buf src = \<lparr>gcSrc = src, gcTypes = [], gcBuf = buf, gcClosed = False, gcCloses = 0\<rparr>"

definition GobReadRequestHeader1 ::
  "'s reader \<Rightarrow> 'r gob_interp \<Rightarrow> 's gobServerCodec1 \<Rightarrow> ((err + 'r) \<times> 's gobServerCodec1) option" where
  "GobReadRequestHeader1 rd G c =
     map_option (\<lambda>(r, ts, s). (r, c\<lparr>gcTypes := ts, gcSrc := s\<rparr>)) (gobDecode G rd True (gcTypes c) (gcSrc c))"

definition GobReadRequestBody1 ::
  "'s reader \<Rightarrow> 'v gob_interp \<Rightarrow> 's gobServerCodec1 \<Rightarrow> ((err + 'v) \<times> 's gobServerCodec1) option" where
  "GobReadRequestBody1 rd G c =
     map_option (\<lambda>(r, ts, s). (r, c\<lparr>gcTypes := ts, gcSrc := s\<rparr>)) (gobDecode G rd True (gcTypes c) (gcSrc c))"

definition GobCloseServer1 :: "err option \<Rightarrow> 's gobServerCodec1 \<Rightarrow> err option \<times> 's gobServerCodec1" where
  "GobCloseServer1 closeErr c =
     (if gcClosed c then (None, c)
      else (closeErr, c\<lparr>gcClosed := True, gcCloses := Suc (gcCloses c)\<rparr>))"

text \<open>A write that fails is flushed; if that works, the codec is closed to show the stream is broken.\<close>

definition GobWriteResponse1 ::
  "err option \<Rightarrow> gob_out \<Rightarrow> gob_out \<Rightarrow> 's gobServerCodec1 \<Rightarrow> err option \<times> 's gobServerCodec1" where
  "GobWriteResponse1 closeErr hdr body c =
     (case gobEncodeTo hdr (gcBuf c) of
        (Some e, b1) \<Rightarrow>
          (case Flush b1 of
             (None, b2) \<Rightarrow> (Some e, snd (GobCloseServer1 closeErr (c\<lparr>gcBuf := b2\<rparr>)))
           | (Some _, b2) \<Rightarrow> (Some e, c\<lparr>gcBuf := b2\<rparr>))
      | (None, b1) \<Rightarrow>
          (case gobEncodeTo body b1 of
             (Some e, b2) \<Rightarrow>
               (case Flush b2 of
                  (None, b3) \<Rightarrow> (Some e, snd (GobCloseServer1 closeErr (c\<lparr>gcBuf := b3\<rparr>)))
                | (Some _, b3) \<Rightarrow> (Some e, c\<lparr>gcBuf := b3\<rparr>))
           | (None, b2) \<Rightarrow> (case Flush b2 of (e, b3) \<Rightarrow> (e, c\<lparr>gcBuf := b3\<rparr>))))"

definition newGobClientCodec1 :: "bufw \<Rightarrow> 's \<Rightarrow> 's gobClientCodec1" where
  "newGobClientCodec1 buf src = \<lparr>gcSrc = src, gcTypes = [], gcBuf = buf, gcClosed = False, gcCloses = 0\<rparr>"

definition GobWriteRequest1 :: "gob_out \<Rightarrow> gob_out \<Rightarrow> 's gobClientCodec1 \<Rightarrow> err option \<times> 's gobClientCodec1" where
  "GobWriteRequest1 hdr body c =
     (case gobEncodeTo hdr (gcBuf c) of
        (Some e, b1) \<Rightarrow> (Some e, c\<lparr>gcBuf := b1\<rparr>)
      | (None, b1) \<Rightarrow>
          (case gobEncodeTo body b1 of
             (Some e, b2) \<Rightarrow> (Some e, c\<lparr>gcBuf := b2\<rparr>)
           | (None, b2) \<Rightarrow> (case Flush b2 of (e, b3) \<Rightarrow> (e, c\<lparr>gcBuf := b3\<rparr>))))"

definition GobReadResponseHeader1 ::
  "'s reader \<Rightarrow> 'r gob_interp \<Rightarrow> 's gobClientCodec1 \<Rightarrow> ((err + 'r) \<times> 's gobClientCodec1) option" where
  "GobReadResponseHeader1 rd G c =
     map_option (\<lambda>(r, ts, s). (r, c\<lparr>gcTypes := ts, gcSrc := s\<rparr>)) (gobDecode G rd True (gcTypes c) (gcSrc c))"

definition GobReadResponseBody1 ::
  "'s reader \<Rightarrow> 'v gob_interp \<Rightarrow> 's gobClientCodec1 \<Rightarrow> ((err + 'v) \<times> 's gobClientCodec1) option" where
  "GobReadResponseBody1 rd G c =
     map_option (\<lambda>(r, ts, s). (r, c\<lparr>gcTypes := ts, gcSrc := s\<rparr>)) (gobDecode G rd True (gcTypes c) (gcSrc c))"

definition GobCloseClient1 :: "err option \<Rightarrow> 's gobClientCodec1 \<Rightarrow> err option \<times> 's gobClientCodec1" where
  "GobCloseClient1 closeErr c = (closeErr, c\<lparr>gcCloses := Suc (gcCloses c)\<rparr>)"

subsection \<open>server_crypto_codec.go\<close>

type_synonym 's cryptoServerCodec1 = "'s cryptoCodec"
type_synonym 's cryptoClientCodec1 = "'s cryptoCodec"

definition newCryptoServerCodec1 :: "crypto_lib \<Rightarrow> bufw \<Rightarrow> 's \<Rightarrow> bytes \<Rightarrow> err + 's cryptoServerCodec1" where
  "newCryptoServerCodec1 L buf conn key =
     (case newCrypto1 L key of
        Inl err \<Rightarrow> Inl err
      | Inr crypto \<Rightarrow>
          let rwc = newBufferedReadWriteCloser1 conn
          in Inr \<lparr>ccCrypto = crypto, ccRwc = rwc, ccTypes = [], ccBuf = buf, ccClosed = False, ccCloses = 0\<rparr>)"

definition SealedReadRequestHeader1 ::
  "'s reader \<Rightarrow> 'r gob_interp \<Rightarrow> 's cryptoServerCodec1 \<Rightarrow> ((err + 'r) \<times> 's cryptoServerCodec1) option" where
  "SealedReadRequestHeader1 rd G c =
     map_option (\<lambda>(r, ts, s). (r, c\<lparr>ccTypes := ts, ccRwc := s\<rparr>))
       (gobDecode G (BufReadRWC1 rd) True (ccTypes c) (ccRwc c))"

definition SealedReadRequestBody1 ::
  "crypto_lib \<Rightarrow> bytes gob_interp \<Rightarrow> 's reader \<Rightarrow> 'v gob_interp \<Rightarrow> 's cryptoServerCodec1 \<Rightarrow>
   ((err + 'v) \<times> 's cryptoServerCodec1) option" where
  "SealedReadRequestBody1 L B rd G c =
     (case BufPeek1 rd (int (length magicPrefix1)) (ccRwc c) of
        ((_, Some e), rw) \<Rightarrow> Some (Inl (Wrap e ''prefix peeking error''), c\<lparr>ccRwc := rw\<rparr>)
      | ((magicRead, None), rw) \<Rightarrow>
          if \<not> slicesEqual1 magicRead magicPrefix1
          then Some (Inl (Wrap InvalidPrefixErr1 ''invalid magic number''), c\<lparr>ccRwc := rw\<rparr>)
          else
            (case BufDiscard1 rd (int (length magicPrefix1)) rw of
               ((_, Some e), rw) \<Rightarrow> Some (Inl (Wrap e ''prefix discarding error''), c\<lparr>ccRwc := rw\<rparr>)
             | ((_, None), rw) \<Rightarrow>
                 (case gobDecode B (BufReadRWC1 rd) True (ccTypes c) rw of
                    None \<Rightarrow> None
                  | Some (Inl e, ts, rw) \<Rightarrow>
                      Some (Inl (Wrap e ''request body decoding error''), c\<lparr>ccTypes := ts, ccRwc := rw\<rparr>)
                  | Some (Inr decodedBody, ts, rw) \<Rightarrow>
                      (case Decrypt1 L (ccCrypto c) decodedBody of
                         Inl e \<Rightarrow> Some (Inl (Wrap e ''request body decrypt error''), c\<lparr>ccTypes := ts, ccRwc := rw\<rparr>)
                       | Inr decryptedBody \<Rightarrow>
                           (case gobDecode G bytesRead True [] decryptedBody of
                              None \<Rightarrow> None
                            | Some (Inl e, _) \<Rightarrow>
                                Some (Inl (Wrap e ''decrypted body decoding error''), c\<lparr>ccTypes := ts, ccRwc := rw\<rparr>)
                            | Some (Inr v, _) \<Rightarrow> Some (Inr v, c\<lparr>ccTypes := ts, ccRwc := rw\<rparr>))))))"

definition writeSealed1 ::
  "crypto_lib \<Rightarrow> (nat \<Rightarrow> err + bytes) \<Rightarrow> gob_out \<Rightarrow> gob_out \<Rightarrow> 's cryptoServerCodec1 \<Rightarrow>
   outcome \<times> 's cryptoServerCodec1" where
  "writeSealed1 L rnd hdr body c =
     (case gobEncodeFresh body of
        Inl e \<Rightarrow> (Returns (Some e), c)
      | Inr bodyBuffer \<Rightarrow>
          (case Encrypt1 L rnd (ccCrypto c) bodyBuffer of
             Inl panic \<Rightarrow> (Panics panic, c)
           | Inr encryptedBody \<Rightarrow>
               (case gobEncodeTo hdr (ccBuf c) of
                  (Some e, w) \<Rightarrow> (Returns (Some e), c\<lparr>ccBuf := w\<rparr>)
                | (None, w) \<Rightarrow>
                    (case Write magicPrefix1 w of
                       (Some e, w) \<Rightarrow> (Returns (Some e), c\<lparr>ccBuf := w\<rparr>)
                     | (None, w) \<Rightarrow>
                         (case gobEncodeTo ([], Inr (bytesBody encryptedBody)) w of
                            (Some e, w) \<Rightarrow> (Returns (Some e), c\<lparr>ccBuf := w\<rparr>)
                          | (None, w) \<Rightarrow> (case Flush w of (e, w) \<Rightarrow> (Returns e, c\<lparr>ccBuf := w\<rparr>)))))))"

definition SealedClose1 :: "err option \<Rightarrow> 's cryptoServerCodec1 \<Rightarrow> err option \<times> 's cryptoServerCodec1" where
  "SealedClose1 closeErr c =
     (if ccClosed c then (None, c)
      else (BufClose1 closeErr, c\<lparr>ccClosed := True, ccCloses := Suc (ccCloses c)\<rparr>))"

definition SealedWriteResponse1 ::
  "crypto_lib \<Rightarrow> (nat \<Rightarrow> err + bytes) \<Rightarrow> err option \<Rightarrow> gob_out \<Rightarrow> gob_out \<Rightarrow> 's cryptoServerCodec1 \<Rightarrow>
   outcome \<times> 's cryptoServerCodec1" where
  "SealedWriteResponse1 L rnd closeErr hdr body c =
     (case writeSealed1 L rnd hdr body c of
        (Panics p, c1) \<Rightarrow> (Panics p, c1)
      | (Returns None, c1) \<Rightarrow> (Returns None, c1)
      | (Returns (Some e), c1) \<Rightarrow> (case SealedClose1 closeErr c1 of (_, c2) \<Rightarrow> (Returns (Some e), c2)))"

subsection \<open>client_crypto_codec.go\<close>

definition newCryptoClientCodec1 :: "crypto_lib \<Rightarrow> bufw \<Rightarrow> 's \<Rightarrow> bytes \<Rightarrow> err + 's cryptoClientCodec1" where
  "newCryptoClientCodec1 L buf conn key =
     (case newCrypto1 L key of
        Inl err \<Rightarrow> Inl err
      | Inr crypto \<Rightarrow>
          let rwc = newBufferedReadWriteCloser1 conn
          in Inr \<lparr>ccCrypto = crypto, ccRwc = rwc, ccTypes = [], ccBuf = buf, ccClosed = False, ccCloses = 0\<rparr>)"

definition SealedWriteRequest1 ::
  "crypto_lib \<Rightarrow> (nat \<Rightarrow> err + bytes) \<Rightarrow> gob_out \<Rightarrow> gob_out \<Rightarrow> 's cryptoClientCodec1 \<Rightarrow>
   outcome \<times> 's cryptoClientCodec1" where
  "SealedWriteRequest1 L rnd hdr body c =
     (case gobEncodeFresh body of
        Inl e \<Rightarrow> (Returns (Some e), c)
      | Inr bodyBuffer \<Rightarrow>
          (case Encrypt1 L rnd (ccCrypto c) bodyBuffer of
             Inl panic \<Rightarrow> (Panics panic, c)
           | Inr encryptedBody \<Rightarrow>
               (case gobEncodeTo hdr (ccBuf c) of
                  (Some e, w) \<Rightarrow> (Returns (Some e), c\<lparr>ccBuf := w\<rparr>)
                | (None, w) \<Rightarrow>
                    (case Write magicPrefix1 w of
                       (Some e, w) \<Rightarrow> (Returns (Some e), c\<lparr>ccBuf := w\<rparr>)
                     | (None, w) \<Rightarrow>
                         (case gobEncodeTo ([], Inr (bytesBody encryptedBody)) w of
                            (Some e, w) \<Rightarrow> (Returns (Some e), c\<lparr>ccBuf := w\<rparr>)
                          | (None, w) \<Rightarrow> (case Flush w of (e, w) \<Rightarrow> (Returns e, c\<lparr>ccBuf := w\<rparr>)))))))"

definition SealedReadResponseHeader1 ::
  "'s reader \<Rightarrow> 'r gob_interp \<Rightarrow> 's cryptoClientCodec1 \<Rightarrow> ((err + 'r) \<times> 's cryptoClientCodec1) option" where
  "SealedReadResponseHeader1 rd G c =
     map_option (\<lambda>(r, ts, s). (r, c\<lparr>ccTypes := ts, ccRwc := s\<rparr>))
       (gobDecode G (BufReadRWC1 rd) True (ccTypes c) (ccRwc c))"

definition SealedReadResponseBody1 ::
  "crypto_lib \<Rightarrow> bytes gob_interp \<Rightarrow> 's reader \<Rightarrow> 'v gob_interp \<Rightarrow> 's cryptoClientCodec1 \<Rightarrow>
   ((err + 'v) \<times> 's cryptoClientCodec1) option" where
  "SealedReadResponseBody1 L B rd G c =
     (case BufPeek1 rd (int (length magicPrefix1)) (ccRwc c) of
        ((_, Some e), rw) \<Rightarrow> Some (Inl (Wrap e ''prefix peeking error''), c\<lparr>ccRwc := rw\<rparr>)
      | ((magicRead, None), rw) \<Rightarrow>
          if \<not> slicesEqual1 magicRead magicPrefix1
          then Some (Inl (Wrap InvalidPrefixErr1 ''invalid magic number''), c\<lparr>ccRwc := rw\<rparr>)
          else
            (case BufDiscard1 rd (int (length magicPrefix1)) rw of
               ((_, Some e), rw) \<Rightarrow> Some (Inl (Wrap e ''prefix discarding error''), c\<lparr>ccRwc := rw\<rparr>)
             | ((_, None), rw) \<Rightarrow>
                 (case gobDecode B (BufReadRWC1 rd) True (ccTypes c) rw of
                    None \<Rightarrow> None
                  | Some (Inl e, ts, rw) \<Rightarrow>
                      Some (Inl (Wrap e ''response body decoding error''), c\<lparr>ccTypes := ts, ccRwc := rw\<rparr>)
                  | Some (Inr decodedBody, ts, rw) \<Rightarrow>
                      (case Decrypt1 L (ccCrypto c) decodedBody of
                         Inl e \<Rightarrow> Some (Inl (Wrap e ''response body decrypt error''), c\<lparr>ccTypes := ts, ccRwc := rw\<rparr>)
                       | Inr decryptedBody \<Rightarrow>
                           (case gobDecode G bytesRead True [] decryptedBody of
                              None \<Rightarrow> None
                            | Some (Inl e, _) \<Rightarrow>
                                Some (Inl (Wrap e ''decrypted body decoding error''), c\<lparr>ccTypes := ts, ccRwc := rw\<rparr>)
                            | Some (Inr v, _) \<Rightarrow> Some (Inr v, c\<lparr>ccTypes := ts, ccRwc := rw\<rparr>))))))"

definition SealedCloseClient1 :: "err option \<Rightarrow> 's cryptoClientCodec1 \<Rightarrow> err option \<times> 's cryptoClientCodec1" where
  "SealedCloseClient1 closeErr c =
     (if ccClosed c then (None, c)
      else (BufClose1 closeErr, c\<lparr>ccClosed := True, ccCloses := Suc (ccCloses c)\<rparr>))"

subsection \<open>request.go, response.go, errors.go\<close>

type_synonym 'v Meta1 = "'v Meta"
type_synonym ('v, 'd) Request1 = "('v, 'd) Request"
type_synonym 'd Response1 = "'d Response"
type_synonym CallError1 = CallErrorV2

definition NewMeta1 :: "'v Meta1" where
  "NewMeta1 = \<lparr>mtRecords = Some Map.empty\<rparr>"

definition SetMeta1 :: "(string \<Rightarrow> string) \<Rightarrow> string \<Rightarrow> 'v \<Rightarrow> 'v Meta1 \<Rightarrow> err + 'v Meta1" where
  "SetMeta1 toUpper key value m =
     (case mtRecords m of
        None \<Rightarrow> Inl nilMapWrite
      | Some r \<Rightarrow> Inr \<lparr>mtRecords = Some (r(toUpper key \<mapsto> value))\<rparr>)"

definition GetMeta1 :: "(string \<Rightarrow> string) \<Rightarrow> string \<Rightarrow> 'v Meta1 \<Rightarrow> 'v option" where
  "GetMeta1 toUpper key m =
     (case Option.bind (mtRecords m) (\<lambda>r. r (toUpper key)) of Some value \<Rightarrow> Some value | None \<Rightarrow> None)"

definition NewCallError1 :: "string \<Rightarrow> CallError1" where
  "NewCallError1 message = \<lparr>ceText = message\<rparr>"

definition CallErrorError1 :: "CallError1 \<Rightarrow> string" where
  "CallErrorError1 e = ceText e"

subsection \<open>The functions are those of v2\<close>

lemma magicPrefix1_eq: "magicPrefix1 = magicPrefix2"
  by (simp add: magicPrefix1_def magicPrefix2_def byte_of_def)

lemma slicesLoop1_eq: "length a = length b \<Longrightarrow> slicesLoop1 i a b \<longleftrightarrow> (\<forall>j. i \<le> j \<longrightarrow> j < length a \<longrightarrow> a ! j = b ! j)"
proof (induction i a b rule: slicesLoop1.induct)
  case (1 i a b)
  show ?case
  proof (cases "i < length a \<and> a ! i = b ! i")
    case True
    then have "slicesLoop1 i a b = slicesLoop1 (Suc i) a b" by (subst slicesLoop1.simps) simp
    also have "\<dots> \<longleftrightarrow> (\<forall>j. Suc i \<le> j \<longrightarrow> j < length a \<longrightarrow> a ! j = b ! j)" using 1 True by simp
    also have "\<dots> \<longleftrightarrow> (\<forall>j. i \<le> j \<longrightarrow> j < length a \<longrightarrow> a ! j = b ! j)"
      using True by (metis Suc_leD Suc_leI le_neq_implies_less)
    finally show ?thesis .
  next
    case False
    then show ?thesis by (subst slicesLoop1.simps) auto
  qed
qed

lemma slicesEqual1_eq: "slicesEqual1 = slicesEqual"
  by (intro ext) (auto simp: slicesEqual1_def slicesEqual_iff slicesLoop1_eq intro: nth_equalityI)

lemma newCrypto1_eq: "newCrypto1 = newCrypto2"
  by (intro ext) (simp add: newCrypto1_def newCrypto2_def normalizeKey1_def normalizeKey2_def)

lemma Encrypt1_eq: "Encrypt1 = Encrypt2"
  by (intro ext) (simp add: Encrypt1_def Encrypt2_def randBytes1_def randBytes_def Let_def bindR_def split: sum.splits)

lemma Decrypt1_eq: "Decrypt1 = Decrypt2"
  by (intro ext) (simp add: Decrypt1_def Decrypt2_def Let_def)

lemmas rwc1_defs = newBufferedReadWriteCloser1_def newBufferedReadWriteCloser_def BufReadRWC1_def BufReadRWC_def
  BufPeek1_def BufPeek_def BufDiscard1_def BufDiscard_def BufClose1_def

lemma gob1_constructors: "newGobServerCodec1 = newGobServerCodec" "newGobClientCodec1 = newGobClientCodec"
  by (intro ext; simp add: newGobServerCodec1_def newGobServerCodec_def newGobClientCodec1_def newGobClientCodec_def)+

lemma gob1_reads:
  "GobReadRequestHeader1 = GobReadRequestHeader" "GobReadRequestBody1 = GobReadRequestBody"
  "GobReadResponseHeader1 = GobReadResponseHeader" "GobReadResponseBody1 = GobReadResponseBody"
  by (intro ext; simp add: GobReadRequestHeader1_def GobReadRequestHeader_def GobReadRequestBody1_def
      GobReadRequestBody_def GobReadResponseHeader1_def GobReadResponseHeader_def GobReadResponseBody1_def
      GobReadResponseBody_def gcDecode_def split: option.split)+

lemma gob1_closes: "GobCloseServer1 = GobCloseServer" "GobCloseClient1 = GobCloseClient"
  by (intro ext; simp add: GobCloseServer1_def GobCloseServer_def GobCloseClient1_def GobCloseClient_def)+

lemma gob1_writes: "GobWriteResponse1 = GobWriteResponse" "GobWriteRequest1 = GobWriteRequest"
  by (intro ext; simp add: GobWriteResponse1_def GobWriteResponse_def GobWriteRequest1_def GobWriteRequest_def
      gobAbort_def gcEncode_def gcFlush_def gob1_closes case_prod_beta cong: option.case_cong)+

lemma sealed1_constructors:
  "newCryptoServerCodec1 = newCryptoServerCodec" "newCryptoClientCodec1 = newCryptoClientCodec"
  by (intro ext; unfold newCryptoServerCodec1_def newCryptoServerCodec_def newCryptoClientCodec1_def
      newCryptoClientCodec_def newCrypto1_eq bindR_def rwc1_defs Let_def; rule refl)+

lemma sealed1_headers:
  "SealedReadRequestHeader1 = SealedReadRequestHeader" "SealedReadResponseHeader1 = SealedReadResponseHeader"
  by (intro ext; simp add: SealedReadRequestHeader1_def SealedReadRequestHeader_def SealedReadResponseHeader1_def
      SealedReadResponseHeader_def ccDecode_def rwc1_defs split: option.split)+

lemma sealed1_closes: "SealedClose1 = SealedClose" "SealedCloseClient1 = SealedCloseClient"
  by (intro ext; simp add: SealedClose1_def SealedClose_def SealedCloseClient1_def SealedCloseClient_def rwc1_defs)+

lemma writeSealed1_eq: "writeSealed1 = writeSealed"
  by (intro ext; unfold writeSealed1_def writeSealed_def magicPrefix1_eq Encrypt1_eq; rule refl)

lemma SealedWriteRequest1_eq: "SealedWriteRequest1 = SealedWriteRequest"
  by (intro ext; unfold SealedWriteRequest1_def SealedWriteRequest_def writeSealed_def magicPrefix1_eq Encrypt1_eq; rule refl)

lemma SealedWriteResponse1_eq: "SealedWriteResponse1 = SealedWriteResponse"
  by (intro ext) (simp add: SealedWriteResponse1_def SealedWriteResponse_def writeSealed1_eq sealed1_closes
      split: prod.split option.split outcome.split)

lemma case_option_map: "(case (case x of None \<Rightarrow> None | Some a \<Rightarrow> Some (f a)) of None \<Rightarrow> None | Some b \<Rightarrow> g b) =
    (case x of None \<Rightarrow> None | Some a \<Rightarrow> g (f a))"
  by (cases x) simp_all

lemma sealed1_bodies:
  "SealedReadRequestBody1 = SealedReadRequestBody" "SealedReadResponseBody1 = SealedReadResponseBody"
  unfolding SealedReadRequestBody1_def SealedReadRequestBody_def SealedReadResponseBody1_def
    SealedReadResponseBody_def readSealedBody_def magicPrefix1_eq slicesEqual1_eq Decrypt1_eq ccDecode_def
    rwc1_defs InvalidPrefixErr1_def InvalidPrefixErr_def case_prod_beta case_option_map
  by (intro ext; simp cong: option.case_cong sum.case_cong)+

lemma BrReadAll1_eq: "BrReadAll1 = BrReadAll"
proof (intro ext)
  fix result b
  show "BrReadAll1 result b = BrReadAll result b"
  proof (induction result b rule: BrReadAll1.induct)
    case (1 result b)
    show ?case
      by (subst BrReadAll1.simps, subst BrReadAll.simps)
        (cases "brBuffer b", use 1 in \<open>auto simp: BrReadByte_def\<close>)
  qed
qed

lemma bytesRWC1_eq:
  "NewBytesReadWriteCloser1 = NewBytesReadWriteCloser"
  "NewBytesReadWriteCloserWithBuffer1 = NewBytesReadWriteCloserWithBuffer"
  "BrLen1 = BrLen" "BrBytes1 = BrBytes" "BrRead1 = BrRead" "BrWrite1 = BrWrite" "BrClose1 = BrClose"
  by (simp_all add: fun_eq_iff NewBytesReadWriteCloser1_def NewBytesReadWriteCloser_def
      NewBytesReadWriteCloserWithBuffer1_def NewBytesReadWriteCloserWithBuffer_def BrLen1_def BrLen_def
      BrBytes1_def BrBytes_def BrRead1_def BrRead_def BrWrite1_def BrWrite_def BrClose1_def BrClose_def)

lemma meta1_eq: "NewMeta1 = NewMeta" "SetMeta1 = SetMeta" "GetMeta1 = GetMeta"
  by (simp_all add: fun_eq_iff NewMeta1_def NewMeta_def SetMeta1_def SetMeta_def GetMeta1_def GetMeta_def
      split: option.split)

lemma BufReadAll1_eq: "BufReadAll1 = BufReadAll"
proof -
  have l: "BufReadAll rd result rw = Some y" if "BufReadAll1 rd result rw = Some y" for rd result rw y
    by (rule BufReadAll1.raw_induct [OF _ that], subst BufReadAll.simps) (auto split: prod.splits sum.splits)
  have r: "BufReadAll1 rd result rw = Some y" if "BufReadAll rd result rw = Some y" for rd result rw y
    by (rule BufReadAll.raw_induct [OF _ that], subst BufReadAll1.simps) (auto split: prod.splits sum.splits)
  show ?thesis by (intro ext) (metis l r not_Some_eq)
qed

end
