(* ===== verification/ReadsReturn.thy ===== *)
theory ReadsReturn
  imports Negotiate Codec1
begin

text \<open>
  The reading loops end. The locale \<open>ranked_source\<close> is a reader with a rank: what is left to
  read, counted so that it drops by the bytes given and drops at every read that asks for
  something and reports no error. Connections have one, and every reader the codecs
  stack on them passes it on, so \<open>io.ReadFull\<close>, \<open>json.Decoder\<close>, \<open>gob.Decoder\<close>, the search for the
  prefix and \<open>ReadAll\<close> return whatever state the codec is in and whatever has arrived, empty
  pieces and errors included. Nothing is assumed of the bytes.
\<close>

locale ranked_source =
  fixes rd :: "nat \<Rightarrow> 's \<Rightarrow> (bytes \<times> err option) \<times> 's"
    and rank :: "'s \<Rightarrow> nat"
  assumes rank_le: "rd n s = ((b, e), s') \<Longrightarrow> rank s' + length b \<le> rank s"
    and rank_less: "0 < n \<Longrightarrow> rd n s = ((b, None), s') \<Longrightarrow> rank s' < rank s"

subsection \<open>The readers\<close>

fun conn_rank :: "conn \<Rightarrow> nat" where
  "conn_rank [] = 0"
| "conn_rank (Fail e # rest) = Suc (conn_rank rest)"
| "conn_rank (Piece b # rest) = Suc (length b + conn_rank rest)"

interpretation cnr: ranked_source connRead conn_rank
proof
  fix n b e and s s' :: conn
  assume "connRead n s = ((b, e), s')"
  then show "conn_rank s' + length b \<le> conn_rank s"
    by (cases s rule: conn_rank.cases) (auto split: if_splits)
next
  fix n :: nat and b and s s' :: conn
  assume "0 < n" "connRead n s = ((b, None), s')"
  then show "conn_rank s' < conn_rank s"
    by (cases s rule: conn_rank.cases) (auto split: if_splits)
qed

interpretation byrr: ranked_source bytesRead length
  by unfold_locales (auto simp: bytesRead_def split: if_splits)

definition buf_rank :: "('s \<Rightarrow> nat) \<Rightarrow> 's bufio \<Rightarrow> nat" where
  "buf_rank rank b = length (bioBuf b) + rank (bioSrc b)"

definition budget_rank :: "('s \<Rightarrow> nat) \<Rightarrow> 's budgetReader \<Rightarrow> nat" where
  "budget_rank rank b = rank (bgSrc b)"

definition multi_rank :: "('a \<Rightarrow> nat) \<Rightarrow> ('b \<Rightarrow> nat) \<Rightarrow> ('a, 'b) multi \<Rightarrow> nat" where
  "multi_rank ka kb m = ka (mFst m) + kb (mSnd m) + (2 - mGone m)"

context ranked_source begin

lemma bufRead_ranked: "ranked_source (bufRead rd) (buf_rank rank)"
proof
  fix n b e and s s' :: "'s bufio"
  assume "bufRead rd n s = ((b, e), s')"
  then show "buf_rank rank s' + length b \<le> buf_rank rank s"
    by (auto simp: bufRead_def buf_rank_def dest!: rank_le split: if_splits prod.splits)
next
  fix n :: nat and b and s s' :: "'s bufio"
  assume n: "0 < n" and r: "bufRead rd n s = ((b, None), s')"
  show "buf_rank rank s' < buf_rank rank s"
  proof (cases "bioBuf s = [] \<and> bioErr s = None")
    case False
    then show ?thesis using n r by (auto simp: bufRead_def buf_rank_def split: if_splits)
  next
    case True
    define m where "m = (if bufSize \<le> n then n else bufSize)"
    obtain d e x where x: "rd m (bioSrc s) = ((d, e), x)" by (metis prod.exhaust)
    have "0 < m" using n by (simp add: m_def bufSize_def)
    then have "e = None \<Longrightarrow> rank x < rank (bioSrc s)" using rank_less x by blast
    then show ?thesis using True n r x rank_le [OF x]
      by (cases d) (auto simp: bufRead_def buf_rank_def m_def split: if_splits)
  qed
qed

lemma budgetRead_ranked: "ranked_source (budgetRead rd) (budget_rank rank)"
proof
  fix n b e and s s' :: "'s budgetReader"
  assume "budgetRead rd n s = ((b, e), s')"
  then show "budget_rank rank s' + length b \<le> budget_rank rank s"
    by (auto simp: budgetRead_def budget_rank_def dest!: rank_le split: if_splits prod.splits)
next
  fix n :: nat and b and s s' :: "'s budgetReader"
  assume n: "0 < n" and r: "budgetRead rd n s = ((b, None), s')"
  define m where "m = (if int n > bgLeft s then nat (bgLeft s) else n)"
  have "0 < m" "\<exists>x. rd m (bgSrc s) = ((b, None), x) \<and> bgSrc s' = x"
    using n r by (auto simp: budgetRead_def m_def split: if_splits prod.splits)
  then show "budget_rank rank s' < budget_rank rank s"
    using rank_less by (auto simp: budget_rank_def)
qed

lemma readSecond_rank:
  assumes "readSecond rd n m = ((b, e), m')"
  shows "mFst m' = mFst m \<and> rank (mSnd m') + length b \<le> rank (mSnd m) \<and> 2 - mGone m' \<le> 2 - mGone m \<and>
    (0 < n \<longrightarrow> e = None \<longrightarrow> rank (mSnd m') < rank (mSnd m))"
proof -
  obtain d r x where x: "rd n (mSnd m) = ((d, r), x)" by (metis prod.exhaust)
  show ?thesis using assms rank_le [OF x] rank_less [of n "mSnd m" d x] x
    by (auto simp: readSecond_def split: if_splits)
qed

end

lemma multiRead_rank:
  assumes A: "ranked_source ra ka" and B: "ranked_source rb kb"
    and r: "multiRead ra rb n m = ((b, e), m')"
  shows "multi_rank ka kb m' + length b \<le> multi_rank ka kb m \<and>
    (0 < n \<longrightarrow> e = None \<longrightarrow> multi_rank ka kb m' < multi_rank ka kb m)"
proof (cases "mGone m = 0")
  case False
  then show ?thesis using r ranked_source.readSecond_rank [OF B, of n m b e m']
    by (auto simp: multiRead_def multi_rank_def split: if_splits)
next
  case True
  obtain d x a where a: "ra n (mFst m) = ((d, x), a)" by (metis prod.exhaust)
  note le = ranked_source.rank_le [OF A a]
  show ?thesis
  proof (cases "x = Some EOF \<and> d = []")
    case True
    then have "readSecond rb n (m\<lparr>mFst := a, mGone := 1\<rparr>) = ((b, e), m')"
      using r a \<open>mGone m = 0\<close> by (simp add: multiRead_def)
    from ranked_source.readSecond_rank [OF B this] show ?thesis
      using le \<open>mGone m = 0\<close> by (auto simp: multi_rank_def)
  next
    case False
    then show ?thesis
      using r a le \<open>mGone m = 0\<close> ranked_source.rank_less [OF A, of n "mFst m" d a]
      by (auto simp: multiRead_def multi_rank_def Let_def split: if_splits)
  qed
qed

lemma multiRead_ranked:
  "ranked_source ra ka \<Longrightarrow> ranked_source rb kb \<Longrightarrow> ranked_source (multiRead ra rb) (multi_rank ka kb)"
  using multiRead_rank [of ra ka rb kb] by (intro ranked_source.intro) blast+

lemma decRead_ranked:
  assumes "ranked_source rd rank"
  shows "ranked_source (decRead rd direct) (multi_rank length (budget_rank rank))"
proof (cases direct)
  case True
  note b = ranked_source.budgetRead_ranked [OF assms]
  show ?thesis
    by unfold_locales
      (auto simp: decRead_def True multi_rank_def dest: ranked_source.rank_le [OF b]
        ranked_source.rank_less [OF b] split: prod.splits)
next
  case False
  then have "decRead rd direct = multiRead bytesRead (budgetRead rd)"
    by (intro ext) (simp add: decRead_def)
  then show ?thesis
    using multiRead_ranked [OF byrr.ranked_source_axioms ranked_source.budgetRead_ranked [OF assms]] by simp
qed

subsection \<open>The loops\<close>

context ranked_source begin

lemma readLoop_returns:
  "\<exists>got e s'. readLoop rd n acc s = Some ((got, e), s') \<and>
     rank s' + length got \<le> rank s + length acc \<and> (e = None \<longrightarrow> n \<le> length got)"
proof (induction "rank s" arbitrary: acc s rule: less_induct)
  case less
  show ?case
  proof (cases "n \<le> length acc")
    case True
    then show ?thesis by (subst readLoop.simps) simp
  next
    case False
    obtain b e s1 where r: "rd (n - length acc) s = ((b, e), s1)" by (metis prod.exhaust)
    note le = rank_le [OF r]
    show ?thesis
    proof (cases e)
      case (Some x)
      then show ?thesis using False r le by (subst readLoop.simps) simp
    next
      case None
      then have "rank s1 < rank s" using False r rank_less [of "n - length acc" s b s1] by simp
      from less [OF this, of "acc @ b"] show ?thesis
        using False r None le by (subst readLoop.simps) auto
    qed
  qed
qed

lemma ReadFull_returns:
  "\<exists>r s'. ReadFull rd n s = Some (r, s') \<and> rank s' \<le> rank s \<and> (\<forall>b. r = Inr b \<longrightarrow> rank s' + n \<le> rank s)"
proof -
  obtain got e s' where "readLoop rd n [] s = Some ((got, e), s')" "rank s' + length got \<le> rank s"
      "e = None \<longrightarrow> n \<le> length got"
    using readLoop_returns [of n "[]" s] by auto
  then show ?thesis by (auto simp: ReadFull_def split: option.splits)
qed

lemma decodeUintReader_returns:
  "\<exists>r s'. decodeUintReader rd s = Some (r, s') \<and> rank s' \<le> rank s \<and> (\<forall>n. r = Inr n \<longrightarrow> rank s' < rank s)"
proof -
  obtain r1 s1 where r1: "ReadFull rd 1 s = Some (r1, s1)" "rank s1 \<le> rank s" "\<forall>b. r1 = Inr b \<longrightarrow> rank s1 + 1 \<le> rank s"
    using ReadFull_returns [of 1 s] by blast
  show ?thesis
  proof (cases r1)
    case (Inl e)
    then show ?thesis using r1 by (simp add: decodeUintReader_def)
  next
    case (Inr b)
    obtain r2 s2 where "ReadFull rd (256 - unat (hd b)) s1 = Some (r2, s2)" "rank s2 \<le> rank s1"
      using ReadFull_returns by blast
    then show ?thesis using r1 Inr by (auto simp: decodeUintReader_def Let_def split: sum.splits)
  qed
qed

lemma recvMessage_returns:
  "\<exists>r s'. recvMessage rd s = Some (r, s') \<and> rank s' \<le> rank s \<and> (\<forall>b. r = Inr b \<longrightarrow> rank s' < rank s)"
proof -
  obtain r1 s1 where r1: "decodeUintReader rd s = Some (r1, s1)" "rank s1 \<le> rank s" "\<forall>n. r1 = Inr n \<longrightarrow> rank s1 < rank s"
    using decodeUintReader_returns by blast
  show ?thesis
  proof (cases r1)
    case (Inl e)
    then show ?thesis using r1 by (simp add: recvMessage_def)
  next
    case (Inr n)
    obtain r2 s2 where "ReadFull rd n s1 = Some (r2, s2)" "rank s2 \<le> rank s1"
      using ReadFull_returns by blast
    then show ?thesis using r1 Inr by (auto simp: recvMessage_def split: sum.splits)
  qed
qed

text \<open>However many type definitions come in front of a value.\<close>

lemma gobDecode_returns: "\<exists>r ts s'. gobDecode G rd first types s = Some (r, ts, s') \<and> rank s' \<le> rank s"
proof (induction "rank s" arbitrary: first types s rule: less_induct)
  case less
  obtain r s1 where r: "recvMessage rd s = Some (r, s1)" "rank s1 \<le> rank s" "\<forall>b. r = Inr b \<longrightarrow> rank s1 < rank s"
    using recvMessage_returns by blast
  show ?case
  proof (cases r)
    case (Inl e)
    then show ?thesis using r by (subst gobDecode.simps) simp
  next
    case (Inr body)
    then have l: "rank s1 < rank s" using r(3) by simp
    show ?thesis
    proof (cases "G types body")
      case GobType
      then show ?thesis using r Inr less [OF l, of False "types @ [body]"] by (subst gobDecode.simps) auto
    qed (use r Inr in \<open>subst gobDecode.simps, simp\<close>)+
  qed
qed

lemma readMagic_returns: "\<exists>r s'. readMagic rd k s = Some (r, s') \<and> rank s' \<le> rank s"
proof (induction "rank s" arbitrary: k s rule: less_induct)
  case less
  show ?case
  proof (cases "5 \<le> k")
    case True
    then show ?thesis by (subst readMagic.simps) simp
  next
    case False
    obtain r s1 where r: "ReadFull rd 1 s = Some (r, s1)" "rank s1 \<le> rank s" "\<forall>b. r = Inr b \<longrightarrow> rank s1 + 1 \<le> rank s"
      using ReadFull_returns [of 1 s] by blast
    show ?thesis
    proof (cases r)
      case (Inl e)
      then show ?thesis using False r by (subst readMagic.simps) simp
    next
      case (Inr one)
      then have l: "rank s1 < rank s" using r(3) by simp
      show ?thesis using False r Inr less [OF l, of k] less [OF l, of "Suc k"]
        by (subst readMagic.simps) auto
    qed
  qed
qed

lemma readValue_returns:
  assumes "\<forall>b. 0 < jRoom J b"
  shows "\<exists>r buf' s'. readValue J rd buf s = Some (r, buf', s') \<and> rank s' \<le> rank s"
proof (induction "rank s" arbitrary: buf s rule: less_induct)
  case less
  show ?case
  proof (cases "jScan J buf")
    case More
    obtain b e s1 where r: "rd (jRoom J buf) s = ((b, e), s1)" by (metis prod.exhaust)
    show ?thesis
    proof (cases e)
      case (Some x)
      then show ?thesis using More r rank_le [OF r] by (subst readValue.simps) simp
    next
      case None
      then have l: "rank s1 < rank s" using r rank_less assms by blast
      then show ?thesis using More None r less [OF l, of "buf @ b"] by (subst readValue.simps) auto
    qed
  qed (subst readValue.simps, simp)+
qed

lemma decodeText_returns:
  "\<forall>b. 0 < jRoom J b \<Longrightarrow> \<exists>r d' s'. decodeText J rd d s = Some (r, d', s')"
  using readValue_returns [of J "jdBuf d" s] by (auto simp: decodeText_def split: option.splits sum.splits)

text \<open>A filled buffer holds no more than was there; \<open>ReadAll\<close> takes a byte at a time.\<close>

lemma fillLoop_rank: "buf_rank rank (fillLoop rd k b) \<le> buf_rank rank b"
proof (induction k arbitrary: b)
  case (Suc k)
  obtain d e x where x: "rd (bufSize - length (bioBuf b)) (bioSrc b) = ((d, e), x)" by (metis prod.exhaust)
  then show ?case using Suc [of "b\<lparr>bioSrc := x\<rparr>"] rank_le [OF x]
    by (auto simp: Let_def buf_rank_def)
qed (simp add: buf_rank_def)

lemma ReadByte_held:
  assumes "bioBuf b \<noteq> [] \<or> bioErr b \<noteq> None" "ReadByte rd b = (r, b')"
  shows "buf_rank rank b' \<le> buf_rank rank b \<and> (\<forall>x. r = Inr x \<longrightarrow> buf_rank rank b' < buf_rank rank b)"
  using assms by (auto simp: ReadByte.simps [of rd b] buf_rank_def split: list.splits option.splits)

lemma ReadByte_rank:
  assumes "ReadByte rd b = (r, b')"
  shows "buf_rank rank b' \<le> buf_rank rank b \<and> (\<forall>x. r = Inr x \<longrightarrow> buf_rank rank b' < buf_rank rank b)"
proof (cases "bioBuf b = [] \<and> bioErr b = None")
  case True
  then have "ReadByte rd (fill rd b) = (r, b')" "bioBuf (fill rd b) \<noteq> [] \<or> bioErr (fill rd b) \<noteq> None"
    using assms fill_progress [of rd b] by (auto simp: ReadByte.simps [of rd b])
  from ReadByte_held [OF this(2,1)] show ?thesis
    using fillLoop_rank [of maxEmptyReads b] by (auto simp: fill_def)
qed (use ReadByte_held assms in blast)

lemma BufReadAll_returns: "\<exists>got b'. BufReadAll rd acc b = Some (got, b')"
proof (induction "buf_rank rank b" arbitrary: acc b rule: less_induct)
  case less
  obtain r b1 where r: "ReadByte rd b = (r, b1)" by (metis prod.exhaust)
  show ?case
  proof (cases r)
    case (Inl e)
    then show ?thesis using r by (subst BufReadAll.simps) simp
  next
    case (Inr x)
    then have "buf_rank rank b1 < buf_rank rank b" using ReadByte_rank [OF r] by simp
    from less [OF this, of "acc @ [x]"] show ?thesis using r Inr by (subst BufReadAll.simps) simp
  qed
qed

subsection \<open>The codecs\<close>

lemma decodeMessage_returns:
  assumes "\<forall>b. 0 < jRoom J b"
  shows "\<exists>r c'. decodeMessage J rd um c = Some (r, c')"
  using ranked_source.decodeText_returns [OF budgetRead_ranked assms,
      of "jcDec c" "resetBudget (jcMaxBody c) (jcBudget c)"]
  by (auto simp: decodeMessage_def)

lemma ReadRequestBody_returns:
  assumes "\<forall>b. 0 < jRoom J b"
  shows "\<exists>r c'. ReadRequestBody J rd body c = Some (r, c')"
proof (cases body)
  case None
  then show ?thesis using decodeMessage_returns [OF assms, of Inr c]
    by (auto simp: ReadRequestBody_def discardMessage_def)
next
  case (Some um)
  then show ?thesis using decodeMessage_returns [OF assms, of um c] by (auto simp: ReadRequestBody_def)
qed

lemma cryptoReadHeader_returns:
  assumes "\<forall>b. 0 < jRoom J b"
  shows "\<exists>r c'. cryptoReadHeader J rd um c = Some (r, c')"
  using ranked_source.decodeText_returns [OF decRead_ranked [OF ranked_source_axioms] assms,
      of "jyDirect (resetCodec c)" "jyDec (resetCodec c)" "jySrc (resetCodec c)"]
  by (auto simp: cryptoReadHeader_def Let_def)

lemma gobDecodeFresh_returns: "\<exists>r s'. gobDecodeFresh G rd s = Some (r, s')"
  using ranked_source.gobDecode_returns [OF bufRead_ranked, of G True "[]" "newBufio s"]
  by (auto simp: gobDecodeFresh_def)

lemma readCryptoBodySource_returns: "\<exists>r s'. readCryptoBodySource L G rd crypto m s = Some (r, s')"
proof -
  note b = budgetRead_ranked
  obtain r b1 where r: "readMagic (budgetRead rd) 0 \<lparr>bgLeft = m, bgSrc = s\<rparr> = Some (r, b1)"
    using ranked_source.readMagic_returns [OF b] by blast
  obtain r2 b2 where "gobDecodeFresh G (budgetRead rd) b1 = Some (r2, b2)"
    using ranked_source.gobDecodeFresh_returns [OF b] by blast
  then show ?thesis using r by (cases r; cases r2) (auto simp: readCryptoBodySource_def)
qed

end

lemma cryptoReadBody_returns:
  assumes "ranked_source rd rank"
  shows "\<exists>r c'. cryptoReadBody J L G rd body c = Some (r, c')"
proof -
  note m = multiRead_ranked [OF byrr.ranked_source_axioms ranked_source.budgetRead_ranked [OF assms]]
  show ?thesis
    using ranked_source.readCryptoBodySource_returns [OF m, of L G "jyCrypto (resetCodec c)" "jyMaxBody (resetCodec c)"
      "\<lparr>mFst = jdBuf (jyDec (resetCodec c)), mSnd = mSnd (jySrc (resetCodec c)), mGone = 0\<rparr>"]
    by (auto simp: cryptoReadBody_def decodeCryptoBodySource_def Let_def)
qed

context ranked_source begin

lemma gcDecode_returns: "\<exists>r c'. gcDecode rd G c = Some (r, c')"
  using gobDecode_returns [of G True "gcTypes c" "gcSrc c"] by (auto simp: gcDecode_def)

lemma ccDecode_returns: "\<exists>r c'. ccDecode rd G c = Some (r, c')"
  using ranked_source.gobDecode_returns [OF bufRead_ranked, of G True "ccTypes c" "ccRwc c"]
  by (auto simp: ccDecode_def BufReadRWC_def)

lemma readSealedBody_returns: "\<exists>r c'. readSealedBody what L B rd G c = Some (r, c')"
proof -
  have inner: "\<exists>r ts s'. gobDecode G bytesRead True [] p = Some (r, ts, s')" for p
    using byrr.gobDecode_returns by blast
  obtain got e rw where p: "BufPeek rd (int (length magicPrefix2)) (ccRwc c) = ((got, e), rw)"
    by (metis prod.exhaust)
  obtain k e2 rw2 where d: "BufDiscard rd (int (length magicPrefix2)) rw = ((k, e2), rw2)"
    by (metis prod.exhaust)
  obtain r c1 where cc: "ccDecode rd B (c\<lparr>ccRwc := rw2\<rparr>) = Some (r, c1)"
    using ccDecode_returns by blast
  have opened: "\<exists>r' c'. (case Decrypt2 L (ccCrypto c1) sealed of
        Inl e \<Rightarrow> Some (Inl (Wrap e (what @ '' body decrypt error'')), c1)
      | Inr plaintext \<Rightarrow>
          (case gobDecode G bytesRead True [] plaintext of
             None \<Rightarrow> None
           | Some (Inl e, _) \<Rightarrow> Some (Inl (Wrap e ''decrypted body decoding error''), c1)
           | Some (Inr v, _) \<Rightarrow> Some (Inr v, c1))) = Some (r', c')" for sealed
  proof (cases "Decrypt2 L (ccCrypto c1) sealed")
    case (Inr plaintext)
    then show ?thesis using inner [of plaintext] by (auto split: sum.splits)
  qed simp
  show ?thesis
    unfolding readSealedBody_def p prod.case d
    using opened by (cases e; cases e2; cases r) (auto simp: cc)
qed

end

subsection \<open>Servers and clients\<close>

interpretation pcr: ranked_source prefixRead "buf_rank conn_rank"
  unfolding prefixRead_def by (rule cnr.bufRead_ranked)

lemma server_reads_return:
  fixes jc :: "prefixConn jsonCodec" and yc :: "prefixConn jsonCryptoCodec"
    and gc :: "prefixConn gobCodec" and cc :: "prefixConn cryptoCodec"
  assumes "json_lib_ok J"
  shows "(\<exists>r c'. ReadRequestHeader J prefixRead um jc = Some (r, c')) \<and>
    (\<exists>r c'. ReadRequestBody J prefixRead body jc = Some (r, c')) \<and>
    (\<exists>r c'. CryptoReadRequestHeader J prefixRead um yc = Some (r, c')) \<and>
    (\<exists>r c'. CryptoReadRequestBody J L B prefixRead body yc = Some (r, c')) \<and>
    (\<exists>r c'. GobReadRequestHeader prefixRead H gc = Some (r, c')) \<and>
    (\<exists>r c'. GobReadRequestBody prefixRead V gc = Some (r, c')) \<and>
    (\<exists>r c'. SealedReadRequestHeader prefixRead H cc = Some (r, c')) \<and>
    (\<exists>r c'. SealedReadRequestBody L B prefixRead V cc = Some (r, c'))"
proof -
  have j: "\<forall>b. 0 < jRoom J b" using json_room [OF assms] by blast
  show ?thesis
    unfolding ReadRequestHeader_def CryptoReadRequestHeader_def CryptoReadRequestBody_def
      GobReadRequestHeader_def GobReadRequestBody_def SealedReadRequestHeader_def SealedReadRequestBody_def
    by (intro conjI pcr.decodeMessage_returns [OF j] pcr.ReadRequestBody_returns [OF j]
        pcr.cryptoReadHeader_returns [OF j] cryptoReadBody_returns [OF pcr.ranked_source_axioms]
        pcr.gcDecode_returns pcr.ccDecode_returns pcr.readSealedBody_returns)
qed

text \<open>The reads of a client, over the connection itself.\<close>

lemma client_reads_return:
  fixes jc :: "conn jsonCodec" and yc :: "conn jsonCryptoCodec"
    and gc :: "conn bufio gobCodec" and cc :: "conn cryptoCodec"
  assumes "json_lib_ok J"
  shows "(\<exists>r c'. ReadResponseHeader J connRead um jc = Some (r, c')) \<and>
    (\<exists>r c'. ReadResponseBody J connRead body jc = Some (r, c')) \<and>
    (\<exists>r c'. CryptoReadResponseHeader J connRead um yc = Some (r, c')) \<and>
    (\<exists>r c'. CryptoReadResponseBody J L B connRead body yc = Some (r, c')) \<and>
    (\<exists>r c'. GobReadResponseHeader prefixRead H gc = Some (r, c')) \<and>
    (\<exists>r c'. GobReadResponseBody prefixRead V gc = Some (r, c')) \<and>
    (\<exists>r c'. SealedReadResponseHeader connRead H cc = Some (r, c')) \<and>
    (\<exists>r c'. SealedReadResponseBody L B connRead V cc = Some (r, c'))"
proof -
  have j: "\<forall>b. 0 < jRoom J b" using json_room [OF assms] by blast
  have b: "ReadResponseBody J connRead body jc = ReadRequestBody J connRead body jc"
    by (simp add: ReadResponseBody_def ReadRequestBody_def)
  show ?thesis
    unfolding ReadResponseHeader_def b CryptoReadResponseHeader_def CryptoReadResponseBody_def
      GobReadResponseHeader_def GobReadResponseBody_def SealedReadResponseHeader_def SealedReadResponseBody_def
    by (intro conjI cnr.decodeMessage_returns [OF j] cnr.ReadRequestBody_returns [OF j]
        cnr.cryptoReadHeader_returns [OF j] cryptoReadBody_returns [OF cnr.ranked_source_axioms]
        pcr.gcDecode_returns cnr.ccDecode_returns cnr.readSealedBody_returns)
qed

subsection \<open>Properties\<close>

text \<open>
  C10: no read of a codec can hang in a loop of its own. Whatever state any codec of a server or of a
  client is in, in any of the three versions, and whatever has arrived on the connection (in
  pieces of any size, empty ones too, cut short, or ending in an error), reading a header and reading
  a body returns, with a value or an error.
\<close>

theorem codec_reads_return:
  fixes jc :: "prefixConn jsonCodec" and yc :: "prefixConn jsonCryptoCodec" and gc :: "prefixConn gobCodec"
    and cc :: "prefixConn cryptoCodec" and jl :: "conn jsonCodec" and yl :: "conn jsonCryptoCodec"
    and cl :: "conn cryptoCodec"
  assumes "json_lib_ok J"
  shows "ReadRequestHeader J prefixRead um jc \<noteq> None \<and> ReadRequestBody J prefixRead body jc \<noteq> None \<and>
    CryptoReadRequestHeader J prefixRead um yc \<noteq> None \<and> CryptoReadRequestBody J L B prefixRead body yc \<noteq> None \<and>
    GobReadRequestHeader prefixRead H gc \<noteq> None \<and> GobReadRequestBody prefixRead V gc \<noteq> None \<and>
    SealedReadRequestHeader prefixRead H cc \<noteq> None \<and> SealedReadRequestBody L B prefixRead V cc \<noteq> None \<and>
    ReadResponseHeader J connRead um jl \<noteq> None \<and> ReadResponseBody J connRead body jl \<noteq> None \<and>
    CryptoReadResponseHeader J connRead um yl \<noteq> None \<and> CryptoReadResponseBody J L B connRead body yl \<noteq> None \<and>
    GobReadResponseHeader prefixRead H gc \<noteq> None \<and> GobReadResponseBody prefixRead V gc \<noteq> None \<and>
    SealedReadResponseHeader connRead H cl \<noteq> None \<and> SealedReadResponseBody L B connRead V cl \<noteq> None \<and>
    GobReadRequestHeader1 prefixRead H gc \<noteq> None \<and> GobReadRequestBody1 prefixRead V gc \<noteq> None \<and>
    GobReadResponseHeader1 prefixRead H gc \<noteq> None \<and> GobReadResponseBody1 prefixRead V gc \<noteq> None \<and>
    SealedReadRequestHeader1 connRead H cl \<noteq> None \<and> SealedReadRequestBody1 L B connRead V cl \<noteq> None \<and>
    SealedReadResponseHeader1 connRead H cl \<noteq> None \<and> SealedReadResponseBody1 L B connRead V cl \<noteq> None"
proof -
  have v1: "SealedReadRequestHeader connRead H cl \<noteq> None" "SealedReadRequestBody L B connRead V cl \<noteq> None"
    using cnr.ccDecode_returns cnr.readSealedBody_returns
    by (simp_all add: SealedReadRequestHeader_def SealedReadRequestBody_def)
  show ?thesis
    unfolding gob1_reads sealed1_headers sealed1_bodies
    using server_reads_return [OF assms, of um jc body yc L B H gc V cc]
      client_reads_return [OF assms, of um jl body yl L B H gc V cl] v1 by simp
qed

text \<open>A message cut in the middle, with an empty piece, and a connection that fails: the error is returned.\<close>

theorem codec_reads_return_witness:
  "ReadRequestHeader brace_lib prefixRead (Inr :: bytes \<Rightarrow> err + bytes)
     (newJSONServerCodec (newWriter \<lparr>snkOut = [], snkLimit = None\<rparr>) (newBufio [Piece [123, 34], Piece [], Fail ErrUnexpectedEOF]) 100) \<noteq> None"
  using codec_reads_return [OF brace_lib_ok, of "Inr :: bytes \<Rightarrow> err + bytes"] by blast

end
