(* ===== verification/ReadBounds.thy ===== *)
theory ReadBounds
  imports ReadsReturn
begin

text \<open>
  What one message can make a codec take from its connection. The locale \<open>read_kept\<close> is a property of
  a reader's state that every read keeps; every reader stacked on it and every reading loop
  then keeps it too, whatever the outcome. Applied to the budget over a connection it says that the
  bytes taken are those the budget has been charged with.
\<close>

locale read_kept =
  fixes rd :: "nat \<Rightarrow> 's \<Rightarrow> (bytes \<times> err option) \<times> 's" and P :: "'s \<Rightarrow> bool"
  assumes kept: "P s \<Longrightarrow> rd n s = (r, s') \<Longrightarrow> P s'"
begin

subsection \<open>Readers\<close>

lemma bufRead_kept: "read_kept (bufRead rd) (\<lambda>b. P (bioSrc b))"
  by unfold_locales (auto simp: bufRead_def dest: kept split: if_splits prod.splits)

lemma budgetRead_kept: "read_kept (budgetRead rd) (\<lambda>b. P (bgSrc b))"
  by unfold_locales (auto simp: budgetRead_def dest: kept split: if_splits prod.splits)

lemma readSecond_kept: "P (mSnd m) \<Longrightarrow> readSecond rd n m = (r, m') \<Longrightarrow> P (mSnd m')"
  by (auto simp: readSecond_def dest: kept split: if_splits prod.splits)

lemma multiRead_kept: "read_kept (multiRead ra rd) (\<lambda>m. P (mSnd m))"
  by unfold_locales
    (auto simp: multiRead_def Let_def readSecond_def dest: kept split: if_splits prod.splits)

subsection \<open>Loops\<close>

lemma readLoop_kept:
  assumes "readLoop rd n got s = Some (r, s')" "P s"
  shows "P s'"
proof -
  have "rd = rd \<longrightarrow> P s \<longrightarrow> P (snd (r, s'))"
  proof (rule readLoop.raw_induct [where P = "\<lambda>rd' n got s y. rd' = rd \<longrightarrow> P s \<longrightarrow> P (snd y)", OF _ assms(1)], intro impI)
    fix f rd' n got s y
    assume IH: "\<And>rd' n got s y. f rd' n got s = Some y \<Longrightarrow> rd' = rd \<longrightarrow> P s \<longrightarrow> P (snd y)"
      and eq: "(if n \<le> length got then Some ((got, None), s)
        else case rd' (n - length got) s of (de, s') \<Rightarrow>
          (case snd de of None \<Rightarrow> f rd' n (got @ fst de) s' | Some x \<Rightarrow> Some ((got @ fst de, Some x), s'))) = Some y"
      and e: "rd' = rd" "P s"
    obtain d x s1 where r: "rd (n - length got) s = ((d, x), s1)" by (metis prod.exhaust)
    have "P s1" by (rule kept [OF e(2) r])
    then show "P (snd y)"
      using eq IH e r by (cases x) (auto split: if_splits)
  qed
  then show ?thesis using assms(2) by simp
qed

lemma ReadFull_kept: "ReadFull rd n s = Some (r, s') \<Longrightarrow> P s \<Longrightarrow> P s'"
  by (auto simp: ReadFull_def dest: readLoop_kept split: option.splits)

lemma decodeUintReader_kept:
  assumes "decodeUintReader rd s = Some (r, s')" "P s"
  shows "P s'"
proof -
  obtain r1 s1 where r1: "ReadFull rd 1 s = Some (r1, s1)"
    using assms(1) by (auto simp: decodeUintReader_def split: option.splits)
  have "P s1" by (rule ReadFull_kept [OF r1 assms(2)])
  then show ?thesis
    using assms(1) ReadFull_kept [of _ s1] r1
    by (auto simp: decodeUintReader_def Let_def split: option.splits sum.splits if_splits)
qed

lemma recvMessage_kept:
  assumes "recvMessage rd s = Some (r, s')" "P s"
  shows "P s'"
proof -
  obtain r1 s1 where r1: "decodeUintReader rd s = Some (r1, s1)"
    using assms(1) by (auto simp: recvMessage_def split: option.splits)
  have "P s1" by (rule decodeUintReader_kept [OF r1 assms(2)])
  then show ?thesis
    using assms(1) ReadFull_kept [of _ s1] r1
    by (auto simp: recvMessage_def split: option.splits sum.splits if_splits)
qed

lemma gobDecode_kept:
  assumes "gobDecode G rd first types s = Some (r, ts, s')" "P s"
  shows "P s'"
proof -
  have "rd = rd \<longrightarrow> P s \<longrightarrow> P (snd (snd (r, ts, s')))"
  proof (rule gobDecode.raw_induct [where P = "\<lambda>G rd' first types s y. rd' = rd \<longrightarrow> P s \<longrightarrow> P (snd (snd y))",
        OF _ assms(1)], intro impI)
    fix f and G :: "'v gob_interp" and rd' first types s y
    assume IH: "\<And>G rd' first types s y. f G rd' first types s = Some y \<Longrightarrow> rd' = rd \<longrightarrow> P s \<longrightarrow> P (snd (snd y))"
      and eq: "(case recvMessage rd' s of
          None \<Rightarrow> None
        | Some (r, s1) \<Rightarrow>
            (case r of
               Inl e \<Rightarrow> Some (Inl (if first then e else noEOF e), types, s1)
             | Inr body \<Rightarrow>
                 (case G types body of
                    GobValue v \<Rightarrow> Some (Inr v, types, s1)
                  | GobErr e \<Rightarrow> Some (Inl e, types, s1)
                  | GobType \<Rightarrow> f G rd' False (types @ [body]) s1))) = Some y"
      and e: "rd' = rd" "P s"
    obtain r s1 where r: "recvMessage rd s = Some (r, s1)" using eq e by (auto split: option.splits)
    have "P s1" by (rule recvMessage_kept [OF r e(2)])
    then show "P (snd (snd y))"
      using eq IH e r by (cases r) (auto split: gob_body.splits)
  qed
  then show ?thesis using assms(2) by simp
qed

lemma readMagic_kept:
  assumes "readMagic rd k s = Some (r, s')" "P s"
  shows "P s'"
proof -
  have "rd = rd \<longrightarrow> P s \<longrightarrow> P (snd (r, s'))"
  proof (rule readMagic.raw_induct [where P = "\<lambda>rd' k s y. rd' = rd \<longrightarrow> P s \<longrightarrow> P (snd y)", OF _ assms(1)], intro impI)
    fix f rd' k s y
    assume IH: "\<And>rd' k s y. f rd' k s = Some y \<Longrightarrow> rd' = rd \<longrightarrow> P s \<longrightarrow> P (snd y)"
      and eq: "(if length magicPrefix \<le> k then Some (Inr (), s)
        else case ReadFull rd' 1 s of
          None \<Rightarrow> None
        | Some (r, s') \<Rightarrow>
            (case r of
               Inl e \<Rightarrow> Some (Inl (wrapErr ''rpc: crypto prefix read: %w'' e), s')
             | Inr one \<Rightarrow>
                 if k = 0 \<and> is_space (hd one) then f rd' k s'
                 else if hd one \<noteq> magicPrefix ! k
                 then Some (Inl (wrapErr ''rpc: invalid crypto prefix: %w'' ErrInvalidMagic), s')
                 else f rd' (Suc k) s')) = Some y"
      and e: "rd' = rd" "P s"
    show "P (snd y)"
    proof (cases "length magicPrefix \<le> k")
      case True
      then show ?thesis using eq e by auto
    next
      case False
      obtain r s1 where r: "ReadFull rd 1 s = Some (r, s1)" using eq e False by (auto split: option.splits)
      have "P s1" by (rule ReadFull_kept [OF r e(2)])
      then show ?thesis using eq IH e r False by (cases r) (auto split: if_splits)
    qed
  qed
  then show ?thesis using assms(2) by simp
qed

lemma readValue_kept:
  assumes "readValue J rd buf s = Some (r, buf', s')" "P s"
  shows "P s'"
proof -
  have "rd = rd \<longrightarrow> P s \<longrightarrow> P (snd (snd (r, buf', s')))"
  proof (rule readValue.raw_induct [where P = "\<lambda>J rd' buf s y. rd' = rd \<longrightarrow> P s \<longrightarrow> P (snd (snd y))",
        OF _ assms(1)], intro impI)
    fix f J rd' buf s y
    assume IH: "\<And>J rd' buf s y. f J rd' buf s = Some y \<Longrightarrow> rd' = rd \<longrightarrow> P s \<longrightarrow> P (snd (snd y))"
      and eq: "(case jScan J buf of
          Complete n \<Rightarrow> Some (Inr n, buf, s)
        | Bad e \<Rightarrow> Some (Inl e, buf, s)
        | More \<Rightarrow>
            (case rd' (jRoom J buf) s of (de, s') \<Rightarrow>
               (case snd de of
                  None \<Rightarrow> f J rd' (buf @ fst de) s'
                | Some x \<Rightarrow> Some (atReadError J (buf @ fst de) x, buf @ fst de, s')))) = Some y"
      and e: "rd' = rd" "P s"
    obtain d x s1 where r: "rd (jRoom J buf) s = ((d, x), s1)" by (metis prod.exhaust)
    have "P s1" by (rule kept [OF e(2) r])
    then show "P (snd (snd y))"
      using eq IH e r by (cases x) (auto split: scan_result.splits)
  qed
  then show ?thesis using assms(2) by simp
qed

lemma decodeText_kept: "decodeText J rd d s = Some (r, d', s') \<Longrightarrow> P s \<Longrightarrow> P s'"
  by (auto simp: decodeText_def dest: readValue_kept split: option.splits sum.splits)

lemma gobDecodeFresh_kept: "gobDecodeFresh G rd s = Some (r, s') \<Longrightarrow> P s \<Longrightarrow> P s'"
  by (auto simp: gobDecodeFresh_def newBufio_def dest: read_kept.gobDecode_kept [OF bufRead_kept] split: option.splits)

lemma readCryptoBodySource_kept:
  assumes "readCryptoBodySource L G rd crypto m s = Some (r, s')" "P s"
  shows "P s'"
proof -
  note b = budgetRead_kept
  obtain r1 b1 where r1: "readMagic (budgetRead rd) 0 \<lparr>bgLeft = m, bgSrc = s\<rparr> = Some (r1, b1)"
    using assms(1) by (auto simp: readCryptoBodySource_def split: option.splits)
  have p1: "P (bgSrc b1)" by (rule read_kept.readMagic_kept [OF b r1]) (simp add: assms(2))
  show ?thesis
    using assms(1) p1 read_kept.gobDecodeFresh_kept [OF b, of G b1]
    by (auto simp: readCryptoBodySource_def r1 split: option.splits sum.splits)
qed

end

subsection \<open>Counting what is taken\<close>

text \<open>A reader whose state stands for all bytes it can still give, those behind an error included.\<close>

definition takes_at_most :: "int \<Rightarrow> bytes \<Rightarrow> bytes \<Rightarrow> bool" where
  "takes_at_most m before after \<longleftrightarrow> (\<exists>d. before = d @ after \<and> int (length d) \<le> m)"

locale counted_source =
  fixes rd :: "nat \<Rightarrow> 's \<Rightarrow> (bytes \<times> err option) \<times> 's" and pending :: "'s \<Rightarrow> bytes"
  assumes counted: "rd n s = ((d, e), s') \<Longrightarrow> length d \<le> n \<and> pending s = d @ pending s'"
begin

lemma bufRead_counted: "counted_source (bufRead rd) (\<lambda>b. bioBuf b @ pending (bioSrc b))"
proof
  fix n d e and b b' :: "'s bufio"
  assume r: "bufRead rd n b = ((d, e), b')"
  show "length d \<le> n \<and> bioBuf b @ pending (bioSrc b) = d @ bioBuf b' @ pending (bioSrc b')"
  proof (cases "n = 0 \<or> bioBuf b \<noteq> [] \<or> bioErr b \<noteq> None")
    case True
    then show ?thesis using r by (auto simp: bufRead_def split: if_splits)
  next
    case False
    define k where "k = (if bufSize \<le> n then n else bufSize)"
    obtain g x s1 where g: "rd k (bioSrc b) = ((g, x), s1)" by (metis prod.exhaust)
    then show ?thesis using r False counted [OF g] by (auto simp: bufRead_def k_def split: if_splits)
  qed
qed

definition charged :: "int \<Rightarrow> bytes \<Rightarrow> 's budgetReader \<Rightarrow> bool" where
  "charged m before b \<longleftrightarrow> 0 \<le> bgLeft b \<and>
     (\<exists>d. before = d @ pending (bgSrc b) \<and> int (length d) = m - bgLeft b)"

lemma charged_takes: "charged m before b \<Longrightarrow> takes_at_most m before (pending (bgSrc b))"
  by (auto simp: charged_def takes_at_most_def)

lemma charged_start: "0 \<le> m \<Longrightarrow> charged m (pending (bgSrc b)) (resetBudget m b)"
  by (simp add: charged_def resetBudget_def)

lemma budgetRead_charged: "read_kept (budgetRead rd) (charged m before)"
proof
  fix n r and b b' :: "'s budgetReader"
  assume c: "charged m before b" and r: "budgetRead rd n b = (r, b')"
  show "charged m before b'"
  proof (cases "bgLeft b \<le> 0")
    case True
    then show ?thesis using c r by (auto simp: budgetRead_def)
  next
    case False
    define k where "k = (if int n > bgLeft b then nat (bgLeft b) else n)"
    obtain d e s1 where g: "rd k (bgSrc b) = ((d, e), s1)" by (metis prod.exhaust)
    have "b' = b\<lparr>bgLeft := bgLeft b - int (length d), bgSrc := s1\<rparr>"
      using r g False by (simp add: budgetRead_def k_def)
    moreover have "int (length d) \<le> bgLeft b" "pending (bgSrc b) = d @ pending s1"
      using counted [OF g] False by (auto simp: k_def split: if_splits)
    ultimately show ?thesis using c by (auto simp: charged_def)
  qed
qed

lemma decRead_charged: "read_kept (decRead rd direct) (\<lambda>m. charged k before (mSnd m))"
proof (cases direct)
  case True
  show ?thesis
    by unfold_locales (use read_kept.kept [OF budgetRead_charged] True in \<open>auto simp: decRead_def split: prod.splits\<close>)
next
  case False
  then have "decRead rd direct = multiRead bytesRead (budgetRead rd)" by (intro ext) (simp add: decRead_def)
  then show ?thesis using read_kept.multiRead_kept [OF budgetRead_charged] by simp
qed

subsection \<open>The codecs\<close>

lemma decodeMessage_takes:
  assumes "decodeMessage J rd um c = Some (r, c')" "0 \<le> jcMaxBody c"
  shows "takes_at_most (jcMaxBody c) (pending (bgSrc (jcBudget c))) (pending (bgSrc (jcBudget c')))"
proof -
  obtain r1 d1 b1 where d: "decodeText J (budgetRead rd) (jcDec c) (resetBudget (jcMaxBody c) (jcBudget c)) = Some (r1, d1, b1)"
      "c' = c\<lparr>jcDec := d1, jcBudget := b1\<rparr>"
    using assms(1) by (auto simp: decodeMessage_def split: option.splits)
  have "charged (jcMaxBody c) (pending (bgSrc (jcBudget c))) b1"
    by (rule read_kept.decodeText_kept [OF budgetRead_charged d(1) charged_start [OF assms(2)]])
  then show ?thesis using charged_takes by (simp add: d(2))
qed

lemma ReadRequestBody_takes:
  assumes "ReadRequestBody J rd body c = Some (r, c')" "0 \<le> jcMaxBody c"
  shows "takes_at_most (jcMaxBody c) (pending (bgSrc (jcBudget c))) (pending (bgSrc (jcBudget c')))"
  using assms
  by (auto simp: ReadRequestBody_def discardMessage_def intro: decodeMessage_takes split: option.splits)

lemma cryptoReadHeader_takes:
  assumes "cryptoReadHeader J rd um c = Some (r, c')" "0 \<le> jyMaxBody c"
  shows "takes_at_most (jyMaxBody c) (pending (bgSrc (mSnd (jySrc c)))) (pending (bgSrc (mSnd (jySrc c'))))"
proof -
  obtain r1 d1 s1 where d: "decodeText J (decRead rd (jyDirect (resetCodec c))) (jyDec (resetCodec c)) (jySrc (resetCodec c)) =
      Some (r1, d1, s1)" "c' = (resetCodec c)\<lparr>jyDec := d1, jySrc := s1\<rparr>"
    using assms(1) by (auto simp: cryptoReadHeader_def Let_def split: option.splits)
  have "charged (jyMaxBody c) (pending (bgSrc (mSnd (jySrc c)))) (mSnd (jySrc (resetCodec c)))"
    using charged_start [OF assms(2)] by (simp add: resetCodec_def)
  from charged_takes [OF read_kept.decodeText_kept [OF decRead_charged d(1) this]]
  show ?thesis by (simp add: d(2))
qed

lemma cryptoReadBody_takes:
  assumes "cryptoReadBody J L G rd body c = Some (r, c')" "0 \<le> jyMaxBody c"
  shows "takes_at_most (jyMaxBody c) (pending (bgSrc (mSnd (jySrc c)))) (pending (bgSrc (mSnd (jySrc c'))))"
proof -
  let ?src = "\<lparr>mFst = jdBuf (jyDec (resetCodec c)), mSnd = mSnd (jySrc (resetCodec c)), mGone = 0\<rparr>"
  obtain r1 s1 where d: "readCryptoBodySource L G (multiRead bytesRead (budgetRead rd)) (jyCrypto (resetCodec c))
      (jyMaxBody (resetCodec c)) ?src = Some (r1, s1)" "mSnd (jySrc c') = mSnd s1"
    using assms(1) by (auto simp: cryptoReadBody_def decodeCryptoBodySource_def Let_def split: option.splits)
  have "charged (jyMaxBody c) (pending (bgSrc (mSnd (jySrc c)))) (mSnd ?src)"
    using charged_start [OF assms(2)] by (simp add: resetCodec_def)
  from charged_takes [OF read_kept.readCryptoBodySource_kept [OF read_kept.multiRead_kept [OF budgetRead_charged] d(1) this]]
  show ?thesis by (simp add: d(2))
qed

end

fun conn_bytes :: "conn \<Rightarrow> bytes" where
  "conn_bytes [] = []"
| "conn_bytes (Fail e # rest) = conn_bytes rest"
| "conn_bytes (Piece b # rest) = b @ conn_bytes rest"

interpretation cnt: counted_source connRead conn_bytes
proof
  fix n d e and s s' :: conn
  assume "connRead n s = ((d, e), s')"
  then show "length d \<le> n \<and> conn_bytes s = d @ conn_bytes s'"
    by (cases s rule: conn_bytes.cases) (auto split: if_splits)
qed

definition prefix_bytes :: "prefixConn \<Rightarrow> bytes" where
  "prefix_bytes b = bioBuf b @ conn_bytes (bioSrc b)"

interpretation pct: counted_source prefixRead prefix_bytes
  using cnt.bufRead_counted unfolding prefixRead_def prefix_bytes_def .

subsection \<open>Properties\<close>

text \<open>
  C9: the limit of one message, encrypted or not. Whatever state a v3 JSON codec of a server or of a
  client is in and whatever has arrived, reading a header or a body returns, and has
  taken from the connection at most as many bytes as the codec's limit; what it has not taken is
  still there, in order.
\<close>

theorem v3_reads_bounded:
  fixes jc :: "prefixConn jsonCodec" and yc :: "prefixConn jsonCryptoCodec"
    and jl :: "conn jsonCodec" and yl :: "conn jsonCryptoCodec"
  assumes "json_lib_ok J" and "0 \<le> jcMaxBody jc" and "0 \<le> jyMaxBody yc" and "0 \<le> jcMaxBody jl" and "0 \<le> jyMaxBody yl"
  shows "(\<exists>r c'. ReadRequestHeader J prefixRead um jc = Some (r, c') \<and>
      takes_at_most (jcMaxBody jc) (prefix_bytes (bgSrc (jcBudget jc))) (prefix_bytes (bgSrc (jcBudget c')))) \<and>
    (\<exists>r c'. ReadRequestBody J prefixRead body jc = Some (r, c') \<and>
      takes_at_most (jcMaxBody jc) (prefix_bytes (bgSrc (jcBudget jc))) (prefix_bytes (bgSrc (jcBudget c')))) \<and>
    (\<exists>r c'. CryptoReadRequestHeader J prefixRead um yc = Some (r, c') \<and>
      takes_at_most (jyMaxBody yc) (prefix_bytes (bgSrc (mSnd (jySrc yc)))) (prefix_bytes (bgSrc (mSnd (jySrc c'))))) \<and>
    (\<exists>r c'. CryptoReadRequestBody J L B prefixRead body yc = Some (r, c') \<and>
      takes_at_most (jyMaxBody yc) (prefix_bytes (bgSrc (mSnd (jySrc yc)))) (prefix_bytes (bgSrc (mSnd (jySrc c'))))) \<and>
    (\<exists>r c'. ReadResponseHeader J connRead um jl = Some (r, c') \<and>
      takes_at_most (jcMaxBody jl) (conn_bytes (bgSrc (jcBudget jl))) (conn_bytes (bgSrc (jcBudget c')))) \<and>
    (\<exists>r c'. ReadResponseBody J connRead body jl = Some (r, c') \<and>
      takes_at_most (jcMaxBody jl) (conn_bytes (bgSrc (jcBudget jl))) (conn_bytes (bgSrc (jcBudget c')))) \<and>
    (\<exists>r c'. CryptoReadResponseHeader J connRead um yl = Some (r, c') \<and>
      takes_at_most (jyMaxBody yl) (conn_bytes (bgSrc (mSnd (jySrc yl)))) (conn_bytes (bgSrc (mSnd (jySrc c'))))) \<and>
    (\<exists>r c'. CryptoReadResponseBody J L B connRead body yl = Some (r, c') \<and>
      takes_at_most (jyMaxBody yl) (conn_bytes (bgSrc (mSnd (jySrc yl)))) (conn_bytes (bgSrc (mSnd (jySrc c')))))"
proof -
  have b: "ReadResponseBody J connRead body jl = ReadRequestBody J connRead body jl"
    by (simp add: ReadResponseBody_def ReadRequestBody_def)
  have j: "\<forall>b. 0 < jRoom J b" using json_room [OF assms(1)] by blast
  note returns = pcr.decodeMessage_returns [OF j, of um jc] pcr.ReadRequestBody_returns [OF j, of body jc]
    pcr.cryptoReadHeader_returns [OF j, of um yc] cryptoReadBody_returns [OF pcr.ranked_source_axioms, of J L B body yc]
    cnr.decodeMessage_returns [OF j, of um jl] cnr.ReadRequestBody_returns [OF j, of body jl]
    cnr.cryptoReadHeader_returns [OF j, of um yl] cryptoReadBody_returns [OF cnr.ranked_source_axioms, of J L B body yl]
  note takes = pct.decodeMessage_takes [OF _ assms(2)] pct.ReadRequestBody_takes [OF _ assms(2)]
    pct.cryptoReadHeader_takes [OF _ assms(3)] pct.cryptoReadBody_takes [OF _ assms(3)]
    cnt.decodeMessage_takes [OF _ assms(4)] cnt.ReadRequestBody_takes [OF _ assms(4)]
    cnt.cryptoReadHeader_takes [OF _ assms(5)] cnt.cryptoReadBody_takes [OF _ assms(5)]
  show ?thesis
    unfolding b ReadRequestHeader_def CryptoReadRequestHeader_def CryptoReadRequestBody_def ReadResponseHeader_def
      CryptoReadResponseHeader_def CryptoReadResponseBody_def
    by (intro conjI) (use returns in \<open>blast dest: takes\<close>)+
qed

text \<open>A limit of two bytes, on a connection that sends more, fails, and sends more again.\<close>

definition long_conn :: conn where
  "long_conn = [Piece [123, 34, 97], Fail ErrUnexpectedEOF, Piece [34, 125]]"

theorem v3_reads_bounded_witness:
  "\<exists>srv r c'. newJSONCryptoServerCodec plain_crypto_lib (newWriter sink0) (newBufio long_conn) [1] 2 = Inr srv \<and>
    CryptoReadRequestBody brace_lib plain_crypto_lib plain_gob prefixRead (Some Inr) srv =
      Some (r :: err + bytes option, c') \<and>
    takes_at_most 2 [123, 34, 97, 34, 125] (prefix_bytes (bgSrc (mSnd (jySrc c'))))"
proof -
  let ?w = "newWriter sink0"
  obtain yc :: "prefixConn jsonCryptoCodec" where yc:
    "newJSONCryptoServerCodec plain_crypto_lib ?w (newBufio long_conn) [1] 2 = Inr yc" by (rule newJSONCrypto_exists)
  obtain yl :: "conn jsonCryptoCodec" where yl:
    "newJSONCryptoServerCodec plain_crypto_lib ?w long_conn [1] 2 = Inr yl" by (rule newJSONCrypto_exists)
  have m: "jyMaxBody yc = 2" "bgSrc (mSnd (jySrc yc)) = newBufio long_conn" "jyMaxBody yl = 2"
    using yc yl by (auto simp: newJSONCryptoServerCodec_def bindR_eq_Inr Let_def effectiveMaxBody_def)
  have pos: "0 \<le> jcMaxBody (newJSONServerCodec ?w (newBufio long_conn) 2)" "0 \<le> jyMaxBody yc"
      "0 \<le> jcMaxBody (newJSONServerCodec ?w long_conn 2)" "0 \<le> jyMaxBody yl"
    by (simp_all add: m newJSONServerCodec_def effectiveMaxBody_def Let_def)
  have p: "prefix_bytes (newBufio long_conn) = [123, 34, 97, 34, 125]"
    by (simp add: prefix_bytes_def newBufio_def long_conn_def)
  have "\<exists>r c'. CryptoReadRequestBody brace_lib plain_crypto_lib plain_gob prefixRead (Some Inr) yc =
      Some (r :: err + bytes option, c') \<and> takes_at_most 2 [123, 34, 97, 34, 125] (prefix_bytes (bgSrc (mSnd (jySrc c'))))"
    using v3_reads_bounded [OF brace_lib_ok pos, where body = "Some Inr :: (bytes \<Rightarrow> err + bytes) option"
        and L = plain_crypto_lib and B = plain_gob] unfolding m p by blast
  then show ?thesis using yc by blast
qed

end
