(* ===== verification/GoStrings.thy ===== *)
theory GoStrings
  imports GoErrors
begin

text \<open>
  The functions of Go's \<open>strings\<close>, \<open>strconv\<close>, \<open>encoding/hex\<close> and \<open>net\<close> packages that the
  source calls, on strings as byte lists. \<open>strings.IndexByte\<close> returns an option where Go
  returns -1. The Unicode case tables are a parameter (\<open>unicode\<close>), used by \<open>ToLower\<close> and
  \<open>ToUpper\<close> only on strings with a byte above 127, as Go's ASCII fast path does.
\<close>

fun IndexByte :: "string \<Rightarrow> char \<Rightarrow> nat option" where
  "IndexByte [] c = None"
| "IndexByte (x # xs) c = (if x = c then Some 0 else map_option Suc (IndexByte xs c))"

fun LastIndexByte :: "string \<Rightarrow> char \<Rightarrow> nat option" where
  "LastIndexByte [] c = None"
| "LastIndexByte (x # xs) c =
     (case LastIndexByte xs c of
        Some i \<Rightarrow> Some (Suc i)
      | None \<Rightarrow> if x = c then Some 0 else None)"

definition Cut :: "string \<Rightarrow> char \<Rightarrow> string \<times> string \<times> bool" where
  "Cut s sep = (case IndexByte s sep of
                  Some i \<Rightarrow> (take i s, drop (Suc i) s, True)
                | None \<Rightarrow> (s, [], False))"

definition HasPrefix :: "string \<Rightarrow> string \<Rightarrow> bool" where
  "HasPrefix s p \<longleftrightarrow> length p \<le> length s \<and> take (length p) s = p"

definition HasSuffix :: "string \<Rightarrow> string \<Rightarrow> bool" where
  "HasSuffix s p \<longleftrightarrow> length p \<le> length s \<and> drop (length s - length p) s = p"

definition TrimPrefix :: "string \<Rightarrow> string \<Rightarrow> string" where
  "TrimPrefix s p = (if HasPrefix s p then drop (length p) s else s)"

definition TrimSuffix :: "string \<Rightarrow> string \<Rightarrow> string" where
  "TrimSuffix s p = (if HasSuffix s p then take (length s - length p) s else s)"

fun Contains :: "string \<Rightarrow> string \<Rightarrow> bool" where
  "Contains [] sub = (sub = [])"
| "Contains (x # xs) sub = (HasPrefix (x # xs) sub \<or> Contains xs sub)"

text \<open>\<open>strings.Split\<close> with a one-byte separator.\<close>

fun Split :: "string \<Rightarrow> char \<Rightarrow> string list" where
  "Split [] sep = [[]]"
| "Split (x # xs) sep =
     (if x = sep then [] # Split xs sep
      else (case Split xs sep of [] \<Rightarrow> [[x]] | y # ys \<Rightarrow> (x # y) # ys))"

subsection \<open>strings.TrimSpace\<close>

text \<open>The UTF-8 encodings of the code points of \<open>unicode.IsSpace\<close>.\<close>

definition chr :: "nat \<Rightarrow> char" where
  "chr n = char_of n"

definition space_seqs :: "string list" where
  "space_seqs =
     [[chr 9], [chr 10], [chr 11], [chr 12], [chr 13], [chr 32],
      [chr 0xC2, chr 0x85], [chr 0xC2, chr 0xA0],
      [chr 0xE1, chr 0x9A, chr 0x80],
      [chr 0xE2, chr 0x80, chr 0x80], [chr 0xE2, chr 0x80, chr 0x81],
      [chr 0xE2, chr 0x80, chr 0x82], [chr 0xE2, chr 0x80, chr 0x83],
      [chr 0xE2, chr 0x80, chr 0x84], [chr 0xE2, chr 0x80, chr 0x85],
      [chr 0xE2, chr 0x80, chr 0x86], [chr 0xE2, chr 0x80, chr 0x87],
      [chr 0xE2, chr 0x80, chr 0x88], [chr 0xE2, chr 0x80, chr 0x89],
      [chr 0xE2, chr 0x80, chr 0x8A], [chr 0xE2, chr 0x80, chr 0xA8],
      [chr 0xE2, chr 0x80, chr 0xA9], [chr 0xE2, chr 0x80, chr 0xAF],
      [chr 0xE2, chr 0x81, chr 0x9F], [chr 0xE3, chr 0x80, chr 0x80]]"

definition lead_space :: "string \<Rightarrow> string option" where
  "lead_space s = find (HasPrefix s) space_seqs"

definition trail_space :: "string \<Rightarrow> string option" where
  "trail_space s = find (HasSuffix s) space_seqs"

lemma space_seqs_nonempty: "w \<in> set space_seqs \<Longrightarrow> w \<noteq> []"
  by (auto simp: space_seqs_def)

lemma lead_space_Some:
  "lead_space s = Some w \<Longrightarrow> w \<in> set space_seqs \<and> HasPrefix s w"
  by (auto simp: lead_space_def find_Some_iff)

lemma trail_space_Some:
  "trail_space s = Some w \<Longrightarrow> w \<in> set space_seqs \<and> HasSuffix s w"
  by (auto simp: trail_space_def find_Some_iff)

lemma lead_space_shrinks:
  assumes "lead_space s = Some w"
  shows "length s - length w < length s"
proof -
  have "w \<noteq> []" "length w \<le> length s"
    using lead_space_Some [OF assms] space_seqs_nonempty [of w] by (auto simp: HasPrefix_def)
  then show ?thesis by (cases w; cases s) simp_all
qed

lemma trail_space_shrinks:
  assumes "trail_space s = Some w"
  shows "length s - length w < length s"
proof -
  have "w \<noteq> []" "length w \<le> length s"
    using trail_space_Some [OF assms] space_seqs_nonempty [of w] by (auto simp: HasSuffix_def)
  then show ?thesis by (cases w; cases s) simp_all
qed

function trimLeft :: "string \<Rightarrow> string" where
  "trimLeft s = (case lead_space s of None \<Rightarrow> s | Some w \<Rightarrow> trimLeft (drop (length w) s))"
  by pat_completeness auto
termination
  by (relation "measure length") (auto intro: lead_space_shrinks)

function trimRight :: "string \<Rightarrow> string" where
  "trimRight s = (case trail_space s of None \<Rightarrow> s
                  | Some w \<Rightarrow> trimRight (take (length s - length w) s))"
  by pat_completeness auto
termination
  by (relation "measure length") (auto intro: trail_space_shrinks)

declare trimLeft.simps [simp del]
declare trimRight.simps [simp del]

definition TrimSpace :: "string \<Rightarrow> string" where
  "TrimSpace s = trimRight (trimLeft s)"

subsection \<open>Case mapping\<close>

record unicode =
  uniLower :: "string \<Rightarrow> string"
  uniUpper :: "string \<Rightarrow> string"

definition ascii_lower :: "char \<Rightarrow> char" where
  "ascii_lower c = (let n = of_char c :: nat in if 65 \<le> n \<and> n \<le> 90 then char_of (n + 32) else c)"

definition ascii_upper :: "char \<Rightarrow> char" where
  "ascii_upper c = (let n = of_char c :: nat in if 97 \<le> n \<and> n \<le> 122 then char_of (n - 32) else c)"

definition is_ascii :: "string \<Rightarrow> bool" where
  "is_ascii s \<longleftrightarrow> list_all (\<lambda>c. (of_char c :: nat) < 128) s"

definition ToLower :: "unicode \<Rightarrow> string \<Rightarrow> string" where
  "ToLower u s = (if is_ascii s then map ascii_lower s else uniLower u s)"

definition ToUpper :: "unicode \<Rightarrow> string \<Rightarrow> string" where
  "ToUpper u s = (if is_ascii s then map ascii_upper s else uniUpper u s)"

subsection \<open>strconv.Atoi\<close>

definition is_digit :: "char \<Rightarrow> bool" where
  "is_digit c \<longleftrightarrow> 48 \<le> (of_char c :: nat) \<and> (of_char c :: nat) \<le> 57"

definition dec_value :: "string \<Rightarrow> nat" where
  "dec_value s = foldl (\<lambda>n c. 10 * n + (of_char c - 48)) 0 s"

definition Atoi :: "string \<Rightarrow> err + int" where
  "Atoi s =
     (let (neg, ds) = (case s of
                         [] \<Rightarrow> (False, [])
                       | c # cs \<Rightarrow> if c = CHR ''-'' then (True, cs)
                                   else if c = CHR ''+'' then (False, cs) else (False, s))
      in if ds = [] \<or> \<not> list_all is_digit ds
         then Inl (Errorf ''strconv.Atoi: parsing %q: invalid syntax'' [AStr s] None)
         else let v = (if neg then - int (dec_value ds) else int (dec_value ds))
              in if - (2 ^ 63) \<le> v \<and> v < 2 ^ 63 then Inr v
                 else Inl (Errorf ''strconv.Atoi: parsing %q: value out of range'' [AStr s] None))"

subsection \<open>encoding/hex.DecodeString\<close>

definition hex_value :: "char \<Rightarrow> nat option" where
  "hex_value c = (let n = of_char c :: nat in
     if 48 \<le> n \<and> n \<le> 57 then Some (n - 48)
     else if 97 \<le> n \<and> n \<le> 102 then Some (n - 87)
     else if 65 \<le> n \<and> n \<le> 70 then Some (n - 55)
     else None)"

fun HexDecode :: "string \<Rightarrow> err + bytes" where
  "HexDecode [] = Inr []"
| "HexDecode [c] =
     (case hex_value c of
        None \<Rightarrow> Inl (InvalidByteError c)
      | Some _ \<Rightarrow> Inl (New ''encoding/hex: odd length hex string''))"
| "HexDecode (c # d # cs) =
     (case hex_value c of
        None \<Rightarrow> Inl (InvalidByteError c)
      | Some a \<Rightarrow>
          (case hex_value d of
             None \<Rightarrow> Inl (InvalidByteError d)
           | Some b \<Rightarrow>
               (case HexDecode cs of
                  Inl e \<Rightarrow> Inl e
                | Inr bs \<Rightarrow> Inr (of_nat (16 * a + b) # bs))))"

subsection \<open>net.SplitHostPort and net.JoinHostPort\<close>

definition missingPort :: string where
  "missingPort = ''missing port in address''"

definition tooManyColons :: string where
  "tooManyColons = ''too many colons in address''"

definition SplitHostPort :: "string \<Rightarrow> err + (string \<times> string)" where
  "SplitHostPort hostport =
     (let addrErr = (\<lambda>why. Inl (AddrError why hostport));
          finish = (\<lambda>host j k i.
            if IndexByte (drop j hostport) CHR ''['' \<noteq> None
            then addrErr (''unexpected '' @ [chr 39, CHR ''['', chr 39] @ '' in address'')
            else if IndexByte (drop k hostport) CHR '']'' \<noteq> None
            then addrErr (''unexpected '' @ [chr 39, CHR '']'', chr 39] @ '' in address'')
            else Inr (host, drop (Suc i) hostport))
      in case LastIndexByte hostport CHR '':'' of
           None \<Rightarrow> addrErr missingPort
         | Some i \<Rightarrow>
             if hd hostport = CHR ''[''
             then (case IndexByte hostport CHR '']'' of
                     None \<Rightarrow> addrErr (''missing '' @ [chr 39, CHR '']'', chr 39] @ '' in address'')
                   | Some e \<Rightarrow>
                       if e + 1 = length hostport then addrErr missingPort
                       else if e + 1 = i then finish (take (e - 1) (drop 1 hostport)) 1 (e + 1) i
                       else if hostport ! (e + 1) = CHR '':'' then addrErr tooManyColons
                       else addrErr missingPort)
             else (if IndexByte (take i hostport) CHR '':'' \<noteq> None then addrErr tooManyColons
                   else finish (take i hostport) 0 0 i))"

definition JoinHostPort :: "string \<Rightarrow> string \<Rightarrow> string" where
  "JoinHostPort host port =
     (if IndexByte host CHR '':'' \<noteq> None then CHR ''['' # host @ '']:'' @ port
      else host @ '':'' @ port)"

subsection \<open>Searching and splitting\<close>

lemma IndexByte_None_iff: "IndexByte s c = None \<longleftrightarrow> c \<notin> set s"
  by (induction s) auto

lemma IndexByte_Some:
  "IndexByte s c = Some i \<Longrightarrow> i < length s \<and> s ! i = c \<and> c \<notin> set (take i s)"
  by (induction s arbitrary: i) (auto split: if_splits)

lemma IndexByte_append: "c \<notin> set xs \<Longrightarrow> IndexByte (xs @ c # ys) c = Some (length xs)"
  by (induction xs) auto

lemma IndexByte_split:
  "IndexByte s c = Some i \<Longrightarrow> s = take i s @ c # drop (Suc i) s"
  using IndexByte_Some [of s c i] by (metis id_take_nth_drop)

lemma LastIndexByte_None_iff: "LastIndexByte s c = None \<longleftrightarrow> c \<notin> set s"
  by (induction s) (auto split: option.splits)

lemma LastIndexByte_append: "c \<notin> set ys \<Longrightarrow> LastIndexByte (xs @ c # ys) c = Some (length xs)"
  by (induction xs) (auto simp: LastIndexByte_None_iff [THEN iffD2])

lemma Cut_append: "sep \<notin> set xs \<Longrightarrow> Cut (xs @ sep # ys) sep = (xs, ys, True)"
  by (simp add: Cut_def IndexByte_append)

lemma Cut_True:
  assumes "Cut s sep = (a, b, True)"
  shows "s = a @ sep # b \<and> sep \<notin> set a"
proof -
  from assms obtain i where i: "IndexByte s sep = Some i"
    and ab: "a = take i s" "b = drop (Suc i) s"
    by (auto simp: Cut_def split: option.splits)
  show ?thesis
    using IndexByte_split [OF i] IndexByte_Some [OF i] ab by simp
qed

lemma HasPrefix_iff: "HasPrefix s p \<longleftrightarrow> (\<exists>t. s = p @ t)"
  by (auto simp: HasPrefix_def) (metis append_take_drop_id)

lemma HasSuffix_iff: "HasSuffix s p \<longleftrightarrow> (\<exists>t. s = t @ p)"
  by (auto simp: HasSuffix_def) (metis append_take_drop_id)

lemma HasPrefix_append [simp]: "HasPrefix (p @ t) p"
  by (auto simp: HasPrefix_iff)

lemma TrimPrefix_append [simp]: "TrimPrefix (p @ t) p = t"
  by (simp add: TrimPrefix_def)

lemma HasSuffix_append [simp]: "HasSuffix (t @ p) p"
  by (auto simp: HasSuffix_iff)

lemma TrimSuffix_append [simp]: "TrimSuffix (t @ p) p = t"
  by (simp add: TrimSuffix_def)

subsection \<open>Trimming\<close>

lemma lead_space_None_iff:
  "lead_space s = None \<longleftrightarrow> (\<forall>w \<in> set space_seqs. \<not> HasPrefix s w)"
  by (auto simp: lead_space_def find_None_iff)

lemma trail_space_None_iff:
  "trail_space s = None \<longleftrightarrow> (\<forall>w \<in> set space_seqs. \<not> HasSuffix s w)"
  by (auto simp: trail_space_def find_None_iff)

lemma trimLeft_id: "lead_space s = None \<Longrightarrow> trimLeft s = s"
  by (subst trimLeft.simps) simp

lemma trimRight_id: "trail_space s = None \<Longrightarrow> trimRight s = s"
  by (subst trimRight.simps) simp

lemma lead_space_trimLeft [simp]: "lead_space (trimLeft s) = None"
  by (induction s rule: trimLeft.induct) (subst trimLeft.simps, simp split: option.split)

lemma trail_space_trimRight [simp]: "trail_space (trimRight s) = None"
  by (induction s rule: trimRight.induct) (subst trimRight.simps, simp split: option.split)

lemma trimRight_prefix: "\<exists>n. trimRight s = take n s"
proof (induction s rule: trimRight.induct)
  case (1 s)
  show ?case
  proof (cases "trail_space s")
    case None
    then have "trimRight s = take (length s) s" by (simp add: trimRight_id)
    then show ?thesis ..
  next
    case (Some w)
    with "1.IH" [OF Some] obtain n where
      "trimRight (take (length s - length w) s) = take n (take (length s - length w) s)" by blast
    with Some show ?thesis by (subst trimRight.simps) auto
  qed
qed

lemma lead_space_take: "lead_space s = None \<Longrightarrow> lead_space (take n s) = None"
proof -
  assume h: "lead_space s = None"
  have "\<not> HasPrefix (take n s) w" if "w \<in> set space_seqs" for w
  proof
    assume "HasPrefix (take n s) w"
    then obtain t where "take n s = w @ t" by (auto simp: HasPrefix_iff)
    then have "s = w @ (t @ drop n s)"
      using append_take_drop_id [of n s] by simp
    then have "HasPrefix s w" by (metis HasPrefix_append)
    with h that show False by (auto simp: lead_space_None_iff)
  qed
  then show ?thesis by (auto simp: lead_space_None_iff)
qed

lemma TrimSpace_no_space [simp]:
  "lead_space (TrimSpace s) = None" "trail_space (TrimSpace s) = None"
proof -
  obtain n where "trimRight (trimLeft s) = take n (trimLeft s)"
    using trimRight_prefix by blast
  then show "lead_space (TrimSpace s) = None"
    by (simp add: TrimSpace_def lead_space_take)
qed (simp add: TrimSpace_def)

lemma TrimSpace_id: "lead_space s = None \<Longrightarrow> trail_space s = None \<Longrightarrow> TrimSpace s = s"
  by (simp add: TrimSpace_def trimLeft_id trimRight_id)

lemma TrimSpace_idem [simp]: "TrimSpace (TrimSpace s) = TrimSpace s"
  by (simp add: TrimSpace_id)

text \<open>A string whose first and last bytes are visible ASCII characters is trimmed already.\<close>

definition graphic :: "char \<Rightarrow> bool" where
  "graphic c \<longleftrightarrow> 33 \<le> (of_char c :: nat) \<and> (of_char c :: nat) < 127"

lemma space_seqs_not_graphic:
  "w \<in> set space_seqs \<Longrightarrow> \<not> graphic (hd w) \<and> \<not> graphic (last w)"
  by (auto simp: space_seqs_def graphic_def chr_def)

lemma TrimSpace_graphic [simp]:
  assumes "graphic (hd s)" and "graphic (last s)" and "s \<noteq> []"
  shows "TrimSpace s = s"
proof (rule TrimSpace_id)
  show "lead_space s = None"
    using assms space_seqs_not_graphic space_seqs_nonempty
    by (force simp: lead_space_None_iff HasPrefix_iff hd_append)
  show "trail_space s = None"
    using assms space_seqs_not_graphic space_seqs_nonempty
    by (force simp: trail_space_None_iff HasSuffix_iff last_append)
qed

lemma TrimSpace_Nil [simp]: "TrimSpace [] = []"
proof -
  have "lead_space [] = None" "trail_space [] = None"
    using space_seqs_nonempty by (auto simp: lead_space_None_iff trail_space_None_iff HasPrefix_iff HasSuffix_iff)
  then show ?thesis by (rule TrimSpace_id)
qed

lemma TrimSpace_blank [simp]: "TrimSpace '' '' = []"
proof -
  have "chr 32 = CHR '' ''" unfolding chr_def by code_simp
  then have "lead_space '' '' \<noteq> None"
    by (auto simp: lead_space_None_iff HasPrefix_iff space_seqs_def)
  then obtain w where w: "lead_space '' '' = Some w" by blast
  then have "w \<noteq> []" "HasPrefix '' '' w" using lead_space_Some [OF w] space_seqs_nonempty by auto
  then have "length w = 1" by (auto simp: HasPrefix_iff append_eq_Cons_conv Cons_eq_append_conv)
  then have "trimLeft '' '' = trimLeft []" using trimLeft.simps [of "'' ''"] w by simp
  then show ?thesis using TrimSpace_Nil by (simp add: TrimSpace_def)
qed

lemma Split_none: "c \<notin> set x \<Longrightarrow> Split x c = [x]"
  by (induction x) auto

lemma Split_append: "c \<notin> set x \<Longrightarrow> Split (x @ c # y) c = x # Split y c"
  by (induction x) auto

subsection \<open>Decimal numbers\<close>

lemma of_char_digit_char [simp]: "d < 10 \<Longrightarrow> (of_char (digit_char d) :: nat) = 48 + d"
  by (simp add: digit_char_def)

lemma dec_value_snoc: "dec_value (s @ [c]) = 10 * dec_value s + (of_char c - 48)"
  by (simp add: dec_value_def)

lemma dec_value_nat_dec [simp]: "dec_value (nat_dec n) = n"
proof (induction n rule: nat_dec.induct)
  case (1 n)
  show ?case
  proof (cases "n < 10")
    case True
    then show ?thesis by (subst nat_dec.simps) (simp add: dec_value_def)
  next
    case False
    with "1.IH" show ?thesis
      by (subst nat_dec.simps) (simp add: dec_value_snoc)
  qed
qed

lemma nat_dec_all_digits [simp]: "list_all is_digit (nat_dec n)"
  by (auto simp: list_all_iff is_digit_def dest: nat_dec_digits)

lemma nat_dec_Cons_digit: "nat_dec n = c # cs \<Longrightarrow> is_digit c"
  using nat_dec_all_digits [of n] by simp

lemma Atoi_Itoa_nonneg:
  assumes "0 \<le> i" and "i < 2 ^ 63"
  shows "Atoi (Itoa i) = Inr i"
proof -
  obtain c cs where c: "nat_dec (nat i) = c # cs"
    by (cases "nat_dec (nat i)") auto
  then have "is_digit c" by (rule nat_dec_Cons_digit)
  then have "c \<noteq> CHR ''-''" "c \<noteq> CHR ''+''"
    by (auto simp: is_digit_def)
  moreover have "dec_value (c # cs) = nat i" "list_all is_digit (c # cs)"
    using dec_value_nat_dec [of "nat i"] nat_dec_all_digits [of "nat i"] c by simp_all
  ultimately show ?thesis
    using assms c by (simp add: Atoi_def Itoa_def)
qed

lemma Itoa_no_colon: "0 \<le> i \<Longrightarrow> CHR '':'' \<notin> set (Itoa i) \<and> CHR ''['' \<notin> set (Itoa i) \<and> CHR '']'' \<notin> set (Itoa i)"
  by (auto simp: Itoa_def dest!: nat_dec_digits)

subsection \<open>Host and port\<close>

text \<open>
  A host that \<open>JoinHostPort\<close> puts back into the form \<open>SplitHostPort\<close> reads: no brackets.
\<close>

lemma SplitHostPort_Join:
  assumes "CHR ''['' \<notin> set host" and "CHR '']'' \<notin> set host"
    and "CHR '':'' \<notin> set port" and "CHR ''['' \<notin> set port" and "CHR '']'' \<notin> set port"
  shows "SplitHostPort (JoinHostPort host port) = Inr (host, port)"
proof (cases "CHR '':'' \<in> set host")
  case True
  let ?hp = "CHR ''['' # host @ CHR '']'' # CHR '':'' # port"
  have j: "JoinHostPort host port = ?hp"
    using True by (auto simp: JoinHostPort_def IndexByte_None_iff)
  have l: "LastIndexByte ?hp CHR '':'' = Some (length host + 2)"
    using LastIndexByte_append [of "CHR '':''" port "CHR ''['' # host @ [CHR '']'']"] assms by simp
  have e: "IndexByte ?hp CHR '']'' = Some (length host + 1)"
    using IndexByte_append [of "CHR '']''" "CHR ''['' # host" "CHR '':'' # port"] assms by simp
  show ?thesis
    using assms l e by (simp add: j SplitHostPort_def Let_def IndexByte_None_iff)
next
  case False
  let ?hp = "host @ CHR '':'' # port"
  have j: "JoinHostPort host port = ?hp"
    using False by (auto simp: JoinHostPort_def IndexByte_None_iff)
  have l: "LastIndexByte ?hp CHR '':'' = Some (length host)"
    using assms LastIndexByte_append by simp
  have h: "hd ?hp \<noteq> CHR ''[''"
    using assms by (cases host) auto
  show ?thesis
    using assms False l h by (simp add: j SplitHostPort_def Let_def IndexByte_None_iff)
qed

end
