(* ===== verification/ProxyTypes.thy ===== *)
theory ProxyTypes
  imports GoStrings
begin

text \<open>
  The contract types of the generic proxy (\<open>v3/proxy/types.go\<close>, \<open>v3/proxy/metrics.go\<close>),
  the method-name parser of \<open>v3/proxy/service.go\<close> and the error classification of
  \<open>v3/proxy/errors.go\<close>. A nil and an empty \<open>[]byte\<close> are both \<open>[]\<close>.
\<close>

subsection \<open>types.go\<close>

definition CodeBadRequest :: string where
  "CodeBadRequest = ''bad_request''"

definition CodeRoute :: string where
  "CodeRoute = ''route_error''"

definition CodeAllowlist :: string where
  "CodeAllowlist = ''allowlist_denied''"

definition CodeBackend :: string where
  "CodeBackend = ''backend_error''"

definition CodeTransport :: string where
  "CodeTransport = ''transport_error''"

definition CodePayload :: string where
  "CodePayload = ''payload_too_large''"

definition CodeNoJSON :: string where
  "CodeNoJSON = ''backend_not_json''"

lemmas code_defs =
  CodeBadRequest_def CodeRoute_def CodeAllowlist_def CodeBackend_def CodeTransport_def
  CodePayload_def CodeNoJSON_def

record CallError =
  ceCode :: string
  ceMessage :: string
  ceTarget :: string

record GenericRequest =
  reqMethod :: string
  reqPayload :: bytes
  reqMetadata :: "string \<rightharpoonup> string"

record GenericResponse =
  resPayload :: bytes
  resError :: "CallError option"

record Target =
  tAddr :: string
  tPort :: int
  tSecret :: bytes
  tTransport :: string

subsection \<open>metrics.go\<close>

definition OutcomeOK :: string where
  "OutcomeOK = ''ok''"

definition OutcomeError :: string where
  "OutcomeError = ''error''"

record CallStats =
  csMethod :: string
  csTarget :: string
  csOutcome :: string
  csCode :: string
  csLatency :: int
  csReqBytes :: nat
  csResBytes :: nat

subsection \<open>SplitMethod\<close>

text \<open>The service part of "Service.Method"; \<open>None\<close> for \<open>ok = false\<close>.\<close>

definition SplitMethod :: "string \<Rightarrow> string option" where
  "SplitMethod method =
     (case IndexByte method CHR ''.'' of
        None \<Rightarrow> None
      | Some i \<Rightarrow> if i = 0 \<or> i = length method - 1 then None else Some (take i method))"

lemma SplitMethod_Some_iff:
  "SplitMethod m = Some s \<longleftrightarrow>
     (\<exists>rest. m = s @ CHR ''.'' # rest \<and> s \<noteq> [] \<and> rest \<noteq> [] \<and> CHR ''.'' \<notin> set s)"
proof
  assume "SplitMethod m = Some s"
  then obtain i where i: "IndexByte m CHR ''.'' = Some i" "i \<noteq> 0" "i \<noteq> length m - 1" "s = take i m"
    by (auto simp: SplitMethod_def split: option.splits if_splits)
  have "m = s @ CHR ''.'' # drop (Suc i) m" "i < length m" "CHR ''.'' \<notin> set s"
    using IndexByte_split [OF i(1)] IndexByte_Some [OF i(1)] i(4) by auto
  moreover have "s \<noteq> []" "drop (Suc i) m \<noteq> []"
    using i \<open>i < length m\<close> by auto
  ultimately show "\<exists>rest. m = s @ CHR ''.'' # rest \<and> s \<noteq> [] \<and> rest \<noteq> [] \<and> CHR ''.'' \<notin> set s"
    by blast
next
  assume "\<exists>rest. m = s @ CHR ''.'' # rest \<and> s \<noteq> [] \<and> rest \<noteq> [] \<and> CHR ''.'' \<notin> set s"
  then show "SplitMethod m = Some s"
    by (auto simp: SplitMethod_def IndexByte_append)
qed

subsection \<open>mapCallError\<close>

definition mapCallError :: "err \<Rightarrow> string \<Rightarrow> CallError" where
  "mapCallError e target =
     (case As_server e of
        Some srvErr \<Rightarrow> \<lparr>ceCode = CodeBackend, ceMessage = err_text srvErr, ceTarget = target\<rparr>
      | None \<Rightarrow>
          if errors_Is e EOF \<or> errors_Is e ErrUnexpectedEOF \<or> errors_Is e ErrClosedPipe
          then \<lparr>ceCode = CodeNoJSON,
                ceMessage = ''proxy: target closed connection; backend likely does not support JSON transport (gob-only?): '' @ err_text e,
                ceTarget = target\<rparr>
          else if errors_Is e DeadlineExceeded
          then \<lparr>ceCode = CodeTransport, ceMessage = ''proxy: call timeout: '' @ err_text e,
                ceTarget = target\<rparr>
          else if errors_Is e Canceled
          then \<lparr>ceCode = CodeTransport, ceMessage = ''proxy: call canceled: '' @ err_text e,
                ceTarget = target\<rparr>
          else \<lparr>ceCode = CodeTransport, ceMessage = err_text e, ceTarget = target\<rparr>)"

definition eof_family :: "err set" where
  "eof_family = {EOF, ErrUnexpectedEOF, ErrClosedPipe}"

lemma mapCallError_target [simp]: "ceTarget (mapCallError e t) = t"
  by (simp add: mapCallError_def split: option.split)

lemma mapCallError_code:
  "ceCode (mapCallError e t) =
     (if As_server e \<noteq> None then CodeBackend
      else if \<exists>x \<in> eof_family. errors_Is e x then CodeNoJSON else CodeTransport)"
  by (auto simp: mapCallError_def eof_family_def split: option.splits)

text \<open>
  \<open>mapCallError\<close> classifies every error of the target call. The code is
  \<open>backend_error\<close> exactly when an \<open>rpc.ServerError\<close> is somewhere in the chain of wrapped
  errors, \<open>backend_not_json\<close> exactly when there is none and an error of the EOF family is,
  and \<open>transport_error\<close> otherwise; the target is always the one given, and outside the
  backend case the text of the original error ends the message.
\<close>

theorem mapCallError_classifies:
  "(ceCode (mapCallError e t) = CodeBackend \<longleftrightarrow> (\<exists>s. ServerError s \<in> set (err_chain e))) \<and>
   (ceCode (mapCallError e t) = CodeNoJSON \<longleftrightarrow>
      (\<forall>s. ServerError s \<notin> set (err_chain e)) \<and> set (err_chain e) \<inter> eof_family \<noteq> {}) \<and>
   (ceCode (mapCallError e t) = CodeTransport \<longleftrightarrow>
      (\<forall>s. ServerError s \<notin> set (err_chain e)) \<and> set (err_chain e) \<inter> eof_family = {}) \<and>
   ceTarget (mapCallError e t) = t \<and>
   (ceCode (mapCallError e t) = CodeBackend \<or>
      HasSuffix (ceMessage (mapCallError e t)) (err_text e))"
proof (intro conjI)
  show "ceCode (mapCallError e t) = CodeBackend \<longleftrightarrow> (\<exists>s. ServerError s \<in> set (err_chain e))"
    using As_server_None_iff [of e] by (simp add: mapCallError_code code_defs)
  show "ceCode (mapCallError e t) = CodeNoJSON \<longleftrightarrow>
      (\<forall>s. ServerError s \<notin> set (err_chain e)) \<and> set (err_chain e) \<inter> eof_family \<noteq> {}"
    using As_server_None_iff [of e]
    by (auto simp: mapCallError_code code_defs errors_Is_def)
  show "ceCode (mapCallError e t) = CodeTransport \<longleftrightarrow>
      (\<forall>s. ServerError s \<notin> set (err_chain e)) \<and> set (err_chain e) \<inter> eof_family = {}"
    using As_server_None_iff [of e]
    by (auto simp: mapCallError_code code_defs errors_Is_def)
  show "ceCode (mapCallError e t) = CodeBackend \<or>
      HasSuffix (ceMessage (mapCallError e t)) (err_text e)"
    by (auto simp: mapCallError_def HasSuffix_iff split: option.split)
qed simp

end
