(* ===== verification/GoContext.thy ===== *)
theory GoContext
  imports GoErrors
begin

text \<open>
  Contexts and time. Moments are natural numbers; \<open>ctx.Err()\<close> is a function of the moment it
  is called. \<open>context.WithTimeout\<close> takes the moment its timer fires from the environment.
  Header sets and their place in a context belong to \<open>go.slink.ws/rpc\<close>, which is not under
  \<open>src/\<close>: the four operations the source uses are a parameter, \<open>rpc_lib\<close>.
\<close>

type_synonym header = "string \<rightharpoonup> string list"

text \<open>A context key: its Go type and its string value. \<open>PlainKey\<close> is the type \<open>string\<close>.\<close>

datatype ctx_key = PlainKey string | TypedKey string string

record ctx =
  ctxErr :: "nat \<Rightarrow> err option"
  ctxHeader :: header
  ctxVal :: "ctx_key \<rightharpoonup> string"

definition WithValue :: "ctx \<Rightarrow> ctx_key \<Rightarrow> string \<Rightarrow> ctx" where
  "WithValue c k v = c\<lparr>ctxVal := (ctxVal c)(k \<mapsto> v)\<rparr>"

text \<open>
  \<open>context.WithTimeout(c, d)\<close> at moment \<open>now\<close>: a parent that is done already passes its error
  on; a timeout that is not positive expires at once; otherwise the context fails at the
  moment \<open>fire\<close> of the timer, if the parent has not failed by then.
\<close>

definition WithTimeout :: "nat option \<Rightarrow> nat \<Rightarrow> int \<Rightarrow> ctx \<Rightarrow> ctx" where
  "WithTimeout fire now d c = c\<lparr>ctxErr := (\<lambda>t.
     if ctxErr c now \<noteq> None then ctxErr c now
     else if d \<le> 0 then Some DeadlineExceeded
     else case fire of
            None \<Rightarrow> ctxErr c t
          | Some f \<Rightarrow> if t < f then ctxErr c t
                      else if ctxErr c f \<noteq> None then ctxErr c f
                      else Some DeadlineExceeded)\<rparr>"

lemma WithTimeout_expired:
  "ctxErr c now = None \<Longrightarrow> d \<le> 0 \<Longrightarrow> ctxErr (WithTimeout fire now d c) t = Some DeadlineExceeded"
  by (simp add: WithTimeout_def)

lemma WithTimeout_header [simp]:
  "ctxHeader (WithTimeout fire now d c) = ctxHeader c" "ctxVal (WithTimeout fire now d c) = ctxVal c"
  by (simp_all add: WithTimeout_def)

subsection \<open>Headers\<close>

record rpc_lib =
  hSet :: "header \<Rightarrow> string \<Rightarrow> string \<Rightarrow> header"
  hValues :: "header \<Rightarrow> string \<Rightarrow> string list"
  ContextHeader :: "ctx \<Rightarrow> header"
  ContextWithHeaders :: "ctx \<Rightarrow> header \<Rightarrow> ctx"

text \<open>
  What the source relies on, for a set \<open>K\<close> of keys in canonical form: \<open>Set\<close> stores the one
  value under the key, \<open>Values\<close> reads the list stored under it, \<open>ContextWithHeaders\<close> sets the
  headers \<open>ContextHeader\<close> reads and leaves cancellation alone.
\<close>

definition rpc_lib_ok :: "rpc_lib \<Rightarrow> string set \<Rightarrow> bool" where
  "rpc_lib_ok R K \<longleftrightarrow>
     (\<forall>h. \<forall>k \<in> K. \<forall>v. hSet R h k v = h(k \<mapsto> [v])) \<and>
     (\<forall>h. \<forall>k \<in> K. hValues R h k = (case h k of None \<Rightarrow> [] | Some vs \<Rightarrow> vs)) \<and>
     (\<forall>c h. ContextHeader R (ContextWithHeaders R c h) = h) \<and>
     (\<forall>c h. ctxErr (ContextWithHeaders R c h) = ctxErr c)"

text \<open>A concrete library with these properties: headers are kept as they are.\<close>

definition plain_rpc_lib :: rpc_lib where
  "plain_rpc_lib = \<lparr>hSet = (\<lambda>h k v. h(k \<mapsto> [v])),
     hValues = (\<lambda>h k. case h k of None \<Rightarrow> [] | Some vs \<Rightarrow> vs),
     ContextHeader = ctxHeader,
     ContextWithHeaders = (\<lambda>c h. c\<lparr>ctxHeader := h\<rparr>)\<rparr>"

lemma plain_rpc_lib_ok: "rpc_lib_ok plain_rpc_lib K"
  by (simp add: rpc_lib_ok_def plain_rpc_lib_def)

definition background :: ctx where
  "background = \<lparr>ctxErr = (\<lambda>_. None), ctxHeader = Map.empty, ctxVal = Map.empty\<rparr>"

end
