(* ===== verification/ProxyInterfaces.thy ===== *)
theory ProxyInterfaces
  imports ProxyTypes GoContext
begin

text \<open>
  The Go interfaces the proxy service is written against (\<open>v3/proxy/service.go\<close>: \<open>Router\<close>,
  \<open>Allowlister\<close>, \<open>Invoker\<close>), each as a locale: the operation the service calls, an abstraction of the
  provider's state, and what the provider promises. \<open>StaticRouter\<close>, \<open>Allowlist\<close> and
  \<open>RPCInvoker\<close> interpret them in their own theories.
\<close>

text \<open>\<open>targetString\<close> of \<open>v3/proxy/invoke.go\<close>: the address in errors and logs.\<close>

definition targetString :: "Target \<Rightarrow> string" where
  "targetString t = JoinHostPort (tAddr t) (Itoa (tPort t))"

locale allowlister =
  fixes allowed :: "'a \<Rightarrow> string \<Rightarrow> err option"
    and permits :: "'a \<Rightarrow> string set"
    and valid :: "'a \<Rightarrow> bool"
  assumes allowed_iff: "valid a \<Longrightarrow> allowed a m = None \<longleftrightarrow> m \<in> permits a"
begin

lemma denied_error: "valid a \<Longrightarrow> m \<notin> permits a \<Longrightarrow> \<exists>e. allowed a m = Some e"
  using allowed_iff [of a m] by (cases "allowed a m") auto

lemma larger_allows:
  "valid a \<Longrightarrow> valid b \<Longrightarrow> permits a \<subseteq> permits b \<Longrightarrow> allowed a m = None \<Longrightarrow> allowed b m = None"
  using allowed_iff by blast

end

locale router_api =
  fixes resolve :: "'r \<Rightarrow> string \<Rightarrow> err + Target"
    and routes :: "'r \<Rightarrow> string \<rightharpoonup> Target"
  assumes resolve_Some: "routes r s = Some t \<Longrightarrow> resolve r s = Inr t"
    and resolve_None: "routes r s = None \<Longrightarrow> \<exists>e. resolve r s = Inl e"
begin

lemma resolve_Inr_iff: "resolve r s = Inr t \<longleftrightarrow> routes r s = Some t"
proof (cases "routes r s")
  case None
  then show ?thesis using resolve_None [of r s] by auto
next
  case (Some t')
  then show ?thesis using resolve_Some [of r s t'] by auto
qed

end

text \<open>
  The invoker's promise is the comment of the Go interface: a payload or a structured error,
  never both; the errors carry the target and one of the four codes of an invocation.
\<close>

definition invoke_codes :: "string set" where
  "invoke_codes = {CodeTransport, CodePayload, CodeBackend, CodeNoJSON}"

locale invoker_api =
  fixes invoke :: "ctx \<Rightarrow> Target \<Rightarrow> string \<Rightarrow> bytes \<Rightarrow> (string \<rightharpoonup> string) \<Rightarrow> 'w \<Rightarrow>
    (bytes \<times> CallError option) \<times> 'w"
  assumes error_no_payload: "invoke c t m p md w = ((out, Some ce), w') \<Longrightarrow> out = []"
    and error_code: "invoke c t m p md w = ((out, Some ce), w') \<Longrightarrow> ceCode ce \<in> invoke_codes"
    and error_target: "invoke c t m p md w = ((out, Some ce), w') \<Longrightarrow> ceTarget ce = targetString t"
begin

lemma outcome_cases:
  obtains (ok) out w' where "invoke c t m p md w = ((out, None), w')"
  | (failed) ce w' where "invoke c t m p md w = (([], Some ce), w')"
      "ceCode ce \<in> invoke_codes" "ceTarget ce = targetString t"
proof -
  obtain out ce w' where i: "invoke c t m p md w = ((out, ce), w')"
    by (cases "invoke c t m p md w") auto
  show ?thesis
  proof (cases ce)
    case None
    with i show ?thesis using ok by simp
  next
    case (Some e)
    with i show ?thesis
      using failed error_no_payload error_code error_target by metis
  qed
qed

end

end
