(* ===== verification/StaticRouting.thy ===== *)
theory StaticRouting
  imports ProxyInterfaces
begin

text \<open>
  The routing table of the proxy (\<open>v3/proxy/router.go\<close>). A Go map argument is the list of
  its entries in the order the \<open>range\<close> loop visits them (distinct names, any order). The
  read-write lock of \<open>StaticRouter\<close> guards a table nothing writes after construction.
\<close>

record StaticRouter =
  srTargets :: "string \<rightharpoonup> Target"

definition known_transports :: "string set" where
  "known_transports = {'''', ''auto'', ''json'', ''legacy''}"

fun validateTargets :: "(string \<times> Target) list \<Rightarrow> (string \<rightharpoonup> Target) \<Rightarrow> err + (string \<rightharpoonup> Target)" where
  "validateTargets [] validated = Inr validated"
| "validateTargets ((name, tgt) # rest) validated =
     (if name = [] then Inl (Errorf ''proxy: empty service name in routing table'' [] None)
      else if tAddr tgt = [] then
        Inl (Errorf ''proxy: target for %q has empty addr'' [AStr name] None)
      else if tPort tgt < 0 \<or> tPort tgt > 65535 then
        Inl (Errorf ''proxy: target %q has invalid port %d'' [AStr name, AInt (tPort tgt)] None)
      else if tTransport tgt \<notin> known_transports then
        Inl (Errorf ''proxy: target %q has invalid transport %q''
               [AStr name, AStr (tTransport tgt)] None)
      else validateTargets rest (validated(name \<mapsto> tgt)))"

definition NewStaticRouter :: "(string \<times> Target) list \<Rightarrow> err + StaticRouter" where
  "NewStaticRouter order =
     (case validateTargets order Map.empty of
        Inl e \<Rightarrow> Inl e
      | Inr m \<Rightarrow> Inr \<lparr>srTargets = m\<rparr>)"

definition Resolve :: "StaticRouter \<Rightarrow> string \<Rightarrow> err + Target" where
  "Resolve r service =
     (case srTargets r service of
        None \<Rightarrow> Inl (Errorf ''proxy: no route for service %q'' [AStr service] None)
      | Some tgt \<Rightarrow> Inr tgt)"

text \<open>The copying loop of \<open>Targets\<close> over the entries in iteration order.\<close>

definition Targets :: "(string \<times> Target) list \<Rightarrow> string \<rightharpoonup> Target" where
  "Targets order = foldl (\<lambda>out (k, v). out(k \<mapsto> v)) Map.empty order"

subsection \<open>The table a router holds\<close>

definition valid_entry :: "string \<Rightarrow> Target \<Rightarrow> bool" where
  "valid_entry name tgt \<longleftrightarrow> name \<noteq> [] \<and> tAddr tgt \<noteq> [] \<and>
     0 \<le> tPort tgt \<and> tPort tgt \<le> 65535 \<and> tTransport tgt \<in> known_transports"

text \<open>\<open>order\<close> lists the entries of the map \<open>m\<close>, each once.\<close>

definition enumerates :: "(string \<times> Target) list \<Rightarrow> (string \<rightharpoonup> Target) \<Rightarrow> bool" where
  "enumerates order m \<longleftrightarrow> distinct (map fst order) \<and> map_of order = m"

lemma validateTargets_valid:
  "valid_entry name tgt \<Longrightarrow>
     validateTargets ((name, tgt) # rest) v = validateTargets rest (v(name \<mapsto> tgt))"
  by (auto simp: valid_entry_def)

lemma validateTargets_invalid:
  "\<not> valid_entry name tgt \<Longrightarrow> \<exists>e. validateTargets ((name, tgt) # rest) v = Inl e"
  by (auto simp: valid_entry_def)

lemma validateTargets_Inr_iff:
  "validateTargets order m = Inr m' \<longleftrightarrow>
     (\<forall>(name, tgt) \<in> set order. valid_entry name tgt) \<and> m' = m ++ map_of (rev order)"
proof (induction order arbitrary: m)
  case Nil
  show ?case by auto
next
  case (Cons x rest)
  obtain name tgt where x: "x = (name, tgt)" by (cases x)
  show ?case
  proof (cases "valid_entry name tgt")
    case True
    have "m ++ map_of (rev (x # rest)) = m(name \<mapsto> tgt) ++ map_of (rev rest)"
      by (simp add: x)
    with True show ?thesis
      by (simp add: x validateTargets_valid Cons.IH fun_upd_def del: validateTargets.simps)
  next
    case False
    then show ?thesis using validateTargets_invalid [OF False, of rest m] by (auto simp: x)
  qed
qed

lemma map_of_rev: "distinct (map fst xs) \<Longrightarrow> map_of (rev xs) = map_of xs"
proof (rule ext)
  fix k assume d: "distinct (map fst xs)"
  then have "distinct (map fst (rev xs))" by (simp add: rev_map [symmetric])
  then show "map_of (rev xs) k = map_of xs k"
    using d by (metis map_of_eq_Some_iff not_None_eq set_rev)
qed

lemma NewStaticRouter_Inr_iff:
  assumes "enumerates order m"
  shows "NewStaticRouter order = Inr r \<longleftrightarrow>
    (\<forall>name tgt. m name = Some tgt \<longrightarrow> valid_entry name tgt) \<and> r = \<lparr>srTargets = m\<rparr>"
proof -
  have d: "distinct (map fst order)" and m: "m = map_of order"
    using assms by (auto simp: enumerates_def)
  have v: "(\<forall>(name, tgt) \<in> set order. valid_entry name tgt) \<longleftrightarrow>
      (\<forall>name tgt. m name = Some tgt \<longrightarrow> valid_entry name tgt)"
    using d by (auto simp: m map_of_distinct_some)
  have "NewStaticRouter order = Inr r \<longleftrightarrow>
      (\<exists>m'. validateTargets order Map.empty = Inr m' \<and> r = \<lparr>srTargets = m'\<rparr>)"
    by (auto simp: NewStaticRouter_def split: sum.split)
  also have "\<dots> \<longleftrightarrow> (\<forall>(name, tgt) \<in> set order. valid_entry name tgt) \<and> r = \<lparr>srTargets = m\<rparr>"
    by (simp add: validateTargets_Inr_iff map_of_rev [OF d] m)
  finally show ?thesis using v by simp
qed

interpretation sr: router_api Resolve srTargets
  by unfold_locales (simp_all add: Resolve_def)

lemma foldl_upd: "foldl (\<lambda>out (k, v). out(k \<mapsto> v)) m xs = m ++ map_of (rev xs)"
  by (induction xs arbitrary: m) (auto simp: map_add_assoc)

subsection \<open>Properties\<close>

text \<open>
  C33: a routing table is accepted exactly when every entry has a name, an address, a port in
  0..65535 and a known transport, whatever the order in which Go visits the map; the router
  then resolves exactly the names of the table, to the targets of the table, and \<open>Targets\<close>
  copies the table.
\<close>

theorem NewStaticRouter_correct:
  assumes "enumerates order m" and "enumerates order' m"
  shows "case NewStaticRouter order of
      Inr r \<Rightarrow> (\<forall>name tgt. m name = Some tgt \<longrightarrow> valid_entry name tgt) \<and>
        NewStaticRouter order' = Inr r \<and> Targets order' = srTargets r \<and>
        (\<forall>s tgt. Resolve r s = Inr tgt \<longleftrightarrow> m s = Some tgt)
    | Inl _ \<Rightarrow> (\<exists>name tgt. m name = Some tgt \<and> \<not> valid_entry name tgt) \<and>
        (\<exists>e. NewStaticRouter order' = Inl e)"
proof (cases "NewStaticRouter order")
  case (Inl e)
  then have bad: "\<not> (\<forall>name tgt. m name = Some tgt \<longrightarrow> valid_entry name tgt)"
    using NewStaticRouter_Inr_iff [OF assms(1)] by auto
  then have "\<exists>e. NewStaticRouter order' = Inl e"
    using NewStaticRouter_Inr_iff [OF assms(2)] by (metis sum.exhaust)
  with bad Inl show ?thesis by auto
next
  case (Inr r)
  then have "r = \<lparr>srTargets = m\<rparr>" by (simp add: NewStaticRouter_Inr_iff [OF assms(1)])
  moreover have "Targets order' = m"
    using assms(2) by (simp add: Targets_def foldl_upd enumerates_def map_of_rev)
  ultimately show ?thesis
    using Inr NewStaticRouter_Inr_iff [OF assms(1), of r] NewStaticRouter_Inr_iff [OF assms(2), of r]
    by (simp add: sr.resolve_Inr_iff)
qed

theorem NewStaticRouter_correct_witness:
  "\<exists>r. NewStaticRouter [(''mailer'', \<lparr>tAddr = ''h'', tPort = 1, tSecret = [], tTransport = ''json''\<rparr>)] = Inr r \<and>
     Resolve r ''mailer'' = Inr \<lparr>tAddr = ''h'', tPort = 1, tSecret = [], tTransport = ''json''\<rparr>"
proof -
  let ?t = "\<lparr>tAddr = ''h'', tPort = 1, tSecret = [], tTransport = ''json''\<rparr>"
  have e: "enumerates [(''mailer'', ?t)] [''mailer'' \<mapsto> ?t]" by (simp add: enumerates_def)
  have "valid_entry ''mailer'' ?t" by (simp add: valid_entry_def known_transports_def)
  then obtain r where r: "NewStaticRouter [(''mailer'', ?t)] = Inr r"
    using NewStaticRouter_Inr_iff [OF e] by auto
  show ?thesis using NewStaticRouter_correct [OF e e] by (simp add: r)
qed

end
