(* ===== verification/ProxyConfig.thy ===== *)
theory ProxyConfig
  imports StaticRouting
begin

text \<open>
  The proxy configuration from the environment (\<open>v3/proxy/config.go\<close>). \<open>env\<close> is the list
  \<open>os.Environ()\<close> returns, \<open>"KEY=value"\<close> strings; \<open>os.Getenv\<close> reads the same list. The
  map \<open>raw\<close> is visited by a \<open>range\<close> loop in an order Go does not fix: the order is the
  argument \<open>ks\<close>. The case mapping of service names takes the Unicode tables as a parameter.
\<close>

definition envTargetPrefix :: string where
  "envTargetPrefix = ''PROXY_TARGET_''"

definition envTransportSuffix :: string where
  "envTransportSuffix = ''_TRANSPORT''"

definition envSecretSuffix :: string where
  "envSecretSuffix = ''_SECRET''"

definition envAllowlist :: string where
  "envAllowlist = ''PROXY_ALLOWLIST''"

definition defaultTargetPort :: int where
  "defaultTargetPort = 2233"

record Config =
  cfgTargets :: "string \<rightharpoonup> Target"
  cfgAllowlist :: "string list"

record rawTarget =
  rtAddr :: string
  rtTransport :: string
  rtSecret :: string
  rtHasAddr :: bool

definition get :: "(string \<rightharpoonup> rawTarget) \<Rightarrow> string \<Rightarrow> rawTarget" where
  "get raw service =
     (case raw service of
        Some t \<Rightarrow> t
      | None \<Rightarrow> \<lparr>rtAddr = [], rtTransport = [], rtSecret = [], rtHasAddr = False\<rparr>)"

definition errNoService :: err where
  "errNoService = Errorf ''proxy: %s without service name'' [AStr envTargetPrefix] None"

text \<open>The body of the first loop, for one \<open>"KEY=value"\<close> string (\<open>continue\<close> leaves \<open>raw\<close>).\<close>

definition envEntry :: "unicode \<Rightarrow> string \<Rightarrow> (string \<rightharpoonup> rawTarget) \<Rightarrow> err + (string \<rightharpoonup> rawTarget)" where
  "envEntry u kv raw =
     (case Cut kv CHR ''='' of (key, value, ok) \<Rightarrow>
        if \<not> ok \<or> \<not> HasPrefix key envTargetPrefix then Inr raw
        else let rest = TrimPrefix key envTargetPrefix in
          if rest = [] then Inl errNoService
          else if HasSuffix rest envTransportSuffix then
            (let service = ToLower u (TrimSuffix rest envTransportSuffix) in
             if service = [] then Inl errNoService
             else Inr (raw(service \<mapsto> (get raw service)\<lparr>rtTransport := value\<rparr>)))
          else if HasSuffix rest envSecretSuffix then
            (let service = ToLower u (TrimSuffix rest envSecretSuffix) in
             if service = [] then Inl errNoService
             else Inr (raw(service \<mapsto> (get raw service)\<lparr>rtSecret := value\<rparr>)))
          else
            (let service = ToLower u rest in
             Inr (raw(service \<mapsto> (get raw service)\<lparr>rtAddr := value, rtHasAddr := True\<rparr>))))"

fun scanEnv :: "unicode \<Rightarrow> string list \<Rightarrow> (string \<rightharpoonup> rawTarget) \<Rightarrow> err + (string \<rightharpoonup> rawTarget)" where
  "scanEnv u [] raw = Inr raw"
| "scanEnv u (kv # kvs) raw = bindR (envEntry u kv raw) (scanEnv u kvs)"

definition splitHostPortDefault :: "string \<Rightarrow> err + (string \<times> int)" where
  "splitHostPortDefault v =
     (if v = [] then Inl (Errorf ''empty target address'' [] None)
      else case SplitHostPort v of
        Inl e \<Rightarrow>
          if Contains (err_text e) ''missing port'' then Inr (v, defaultTargetPort)
          else Inl (Errorf ''invalid target %q: %w'' [AStr v] (Some e))
      | Inr (host, portStr) \<Rightarrow>
          (case Atoi portStr of
             Inl e \<Rightarrow> Inl (Errorf ''invalid port in %q: %w'' [AStr v] (Some e))
           | Inr port \<Rightarrow>
               if port < 1 \<or> port > 65535
               then Inl (Errorf ''port %d out of range in %q'' [AInt port, AStr v] None)
               else Inr (host, port)))"

text \<open>The body of the second loop, for one service.\<close>

definition buildTarget :: "unicode \<Rightarrow> string \<Rightarrow> rawTarget \<Rightarrow> err + Target" where
  "buildTarget u service t =
     (if \<not> rtHasAddr t then
        Inl (Errorf ''proxy: target address for service %q is missing (set %s%s)''
               [AStr service, AStr envTargetPrefix, AStr (ToUpper u service)] None)
      else case splitHostPortDefault (rtAddr t) of
        Inl e \<Rightarrow> Inl (Errorf ''proxy: %s%s: %w'' [AStr envTargetPrefix, AStr (ToUpper u service)] (Some e))
      | Inr (addr, port) \<Rightarrow>
          (case (if rtSecret t \<noteq> [] then HexDecode (rtSecret t) else Inr []) of
             Inl e \<Rightarrow> Inl (Errorf ''proxy: %s%s_SECRET: invalid hex: %w''
                             [AStr envTargetPrefix, AStr (ToUpper u service)] (Some e))
           | Inr secret \<Rightarrow>
               Inr \<lparr>tAddr = addr, tPort = port, tSecret = secret, tTransport = rtTransport t\<rparr>))"

fun buildTargets ::
  "unicode \<Rightarrow> (string \<rightharpoonup> rawTarget) \<Rightarrow> string list \<Rightarrow> (string \<rightharpoonup> Target) \<Rightarrow> err + (string \<rightharpoonup> Target)" where
  "buildTargets u raw [] tgts = Inr tgts"
| "buildTargets u raw (service # ks) tgts =
     (case buildTarget u service (get raw service) of
        Inl e \<Rightarrow> Inl e
      | Inr tgt \<Rightarrow> buildTargets u raw ks (tgts(service \<mapsto> tgt)))"

definition Getenv :: "string list \<Rightarrow> string \<Rightarrow> string" where
  "Getenv env key =
     (case find (\<lambda>kv. case Cut kv CHR ''='' of (k, v, ok) \<Rightarrow> ok \<and> k = key) env of
        None \<Rightarrow> []
      | Some kv \<Rightarrow> fst (snd (Cut kv CHR ''='')))"

definition parseAllowlist :: "string \<Rightarrow> string list" where
  "parseAllowlist v =
     (if v \<noteq> [] then filter (\<lambda>e. e \<noteq> []) (map TrimSpace (Split v CHR '','')) else [])"

definition ConfigFromEnv :: "unicode \<Rightarrow> string list \<Rightarrow> string list \<Rightarrow> err + Config" where
  "ConfigFromEnv u env ks =
     (case scanEnv u env Map.empty of
        Inl e \<Rightarrow> Inl e
      | Inr raw \<Rightarrow>
          (case buildTargets u raw ks Map.empty of
             Inl e \<Rightarrow> Inl e
           | Inr tgts \<Rightarrow>
               Inr \<lparr>cfgTargets = tgts, cfgAllowlist = parseAllowlist (Getenv env envAllowlist)\<rparr>))"

subsection \<open>The two loops\<close>

lemma scanEnv_append: "scanEnv u (xs @ ys) raw = bindR (scanEnv u xs raw) (scanEnv u ys)"
proof (induction xs arbitrary: raw)
  case (Cons kv kvs)
  then show ?case by (cases "envEntry u kv raw") simp_all
qed simp

text \<open>The second loop succeeds exactly when every service builds, whatever the order.\<close>

definition built :: "unicode \<Rightarrow> (string \<rightharpoonup> rawTarget) \<Rightarrow> string \<rightharpoonup> Target" where
  "built u raw k = (case raw k of None \<Rightarrow> None
     | Some t \<Rightarrow> (case buildTarget u k t of Inl e \<Rightarrow> None | Inr tgt \<Rightarrow> Some tgt))"

lemma buildTargets_Inr_iff:
  assumes "set ks \<subseteq> dom raw"
  shows "buildTargets u raw ks m = Inr m' \<longleftrightarrow>
    (\<forall>k \<in> set ks. built u raw k \<noteq> None) \<and> m' = (\<lambda>k. if k \<in> set ks then built u raw k else m k)"
  using assms
proof (induction ks arbitrary: m)
  case Nil
  show ?case by auto
next
  case (Cons k ks)
  then obtain t where t: "raw k = Some t" by auto
  then have g: "get raw k = t" by (simp add: get_def)
  show ?case
  proof (cases "buildTarget u k t")
    case (Inl e)
    then show ?thesis using t g by (simp add: built_def)
  next
    case (Inr tgt)
    then have "built u raw k = Some tgt" by (simp add: built_def t)
    with Inr t g Cons show ?thesis by (auto simp: fun_eq_iff)
  qed
qed

definition iteration_order :: "string list \<Rightarrow> (string \<rightharpoonup> 'b) \<Rightarrow> bool" where
  "iteration_order ks m \<longleftrightarrow> distinct ks \<and> set ks = dom m"

lemma buildTargets_order:
  assumes "iteration_order ks raw"
  shows "buildTargets u raw ks Map.empty = Inr m \<longleftrightarrow> dom (built u raw) = dom raw \<and> m = built u raw"
proof -
  have d: "set ks = dom raw" using assms by (simp add: iteration_order_def)
  have b: "built u raw k = None" if "k \<notin> set ks" for k
    using that by (auto simp: built_def d split: option.split)
  have f: "(\<lambda>k. if k \<in> set ks then built u raw k else None) = built u raw"
    using b by (simp add: fun_eq_iff)
  have "dom (built u raw) \<subseteq> set ks" using b by (metis domIff subsetI)
  moreover have "(\<forall>k \<in> set ks. built u raw k \<noteq> None) \<longleftrightarrow> set ks \<subseteq> dom (built u raw)"
    by (simp add: subset_iff domIff Ball_def)
  ultimately have "(\<forall>k \<in> set ks. built u raw k \<noteq> None) \<longleftrightarrow> dom (built u raw) = dom raw"
    using d by (metis order_refl subset_antisym)
  moreover have "buildTargets u raw ks Map.empty = Inr m \<longleftrightarrow>
      (\<forall>k \<in> set ks. built u raw k \<noteq> None) \<and> m = (\<lambda>k. if k \<in> set ks then built u raw k else None)"
    by (rule buildTargets_Inr_iff) (simp add: d)
  ultimately show ?thesis by (simp only: f)
qed

text \<open>The order in which Go visits \<open>raw\<close>, as \<open>ConfigFromEnv\<close> needs it.\<close>

definition config_order :: "unicode \<Rightarrow> string list \<Rightarrow> string list \<Rightarrow> bool" where
  "config_order u env ks \<longleftrightarrow> (\<forall>raw. scanEnv u env Map.empty = Inr raw \<longrightarrow> iteration_order ks raw)"

lemma ConfigFromEnv_Inr_iff:
  assumes "config_order u env ks"
  shows "ConfigFromEnv u env ks = Inr cfg \<longleftrightarrow>
    (\<exists>raw. scanEnv u env Map.empty = Inr raw \<and> dom (built u raw) = dom raw \<and>
       cfg = \<lparr>cfgTargets = built u raw, cfgAllowlist = parseAllowlist (Getenv env envAllowlist)\<rparr>)"
proof (cases "scanEnv u env Map.empty")
  case (Inl e)
  then show ?thesis by (simp add: ConfigFromEnv_def)
next
  case Inr': (Inr raw)
  then have o: "iteration_order ks raw" using assms by (simp add: config_order_def)
  show ?thesis
  proof (cases "buildTargets u raw ks Map.empty")
    case (Inl e)
    then have "dom (built u raw) \<noteq> dom raw"
      using buildTargets_order [OF o, of u "built u raw"] by auto
    with Inl Inr' show ?thesis by (simp add: ConfigFromEnv_def)
  next
    case (Inr m)
    then have "dom (built u raw) = dom raw" "m = built u raw"
      using buildTargets_order [OF o, of u m] by auto
    with Inr Inr' show ?thesis by (auto simp: ConfigFromEnv_def)
  qed
qed

subsection \<open>Host and port\<close>

lemma splitHostPortDefault_port:
  "splitHostPortDefault v = Inr (host, port) \<Longrightarrow> 1 \<le> port \<and> port \<le> 65535"
  by (auto simp: splitHostPortDefault_def defaultTargetPort_def split: sum.splits prod.splits if_splits)

definition plain_host :: "string \<Rightarrow> bool" where
  "plain_host h \<longleftrightarrow> CHR ''['' \<notin> set h \<and> CHR '']'' \<notin> set h"

lemma splitHostPortDefault_join:
  assumes "plain_host host" and "1 \<le> port" and "port \<le> 65535"
  shows "splitHostPortDefault (JoinHostPort host (Itoa port)) = Inr (host, port)"
proof -
  have "SplitHostPort (JoinHostPort host (Itoa port)) = Inr (host, Itoa port)"
    using assms Itoa_no_colon [of port] by (intro SplitHostPort_Join) (auto simp: plain_host_def)
  moreover have "Atoi (Itoa port) = Inr port" using assms by (intro Atoi_Itoa_nonneg) auto
  moreover have "JoinHostPort host (Itoa port) \<noteq> []" by (simp add: JoinHostPort_def)
  ultimately show ?thesis using assms by (simp add: splitHostPortDefault_def)
qed

lemma Contains_HasPrefix: "HasPrefix s p \<Longrightarrow> Contains s p"
  by (cases s) (auto simp: HasPrefix_def)

lemma Contains_append_right: "Contains s p \<Longrightarrow> Contains (t @ s) p"
  by (induction t) simp_all

subsection \<open>Hexadecimal secrets\<close>

definition HexEncode :: "bytes \<Rightarrow> string" where
  "HexEncode bs = concat (map (\<lambda>b. [hex_char (unat b div 16), hex_char (unat b mod 16)]) bs)"

lemma hex_value_hex_char: "d < 16 \<Longrightarrow> hex_value (hex_char d) = Some d"
  by (auto simp: hex_value_def hex_char_def Let_def)

lemma HexDecode_HexEncode [simp]: "HexDecode (HexEncode bs) = Inr bs"
proof (induction bs)
  case Nil
  show ?case by (simp add: HexEncode_def)
next
  case (Cons b bs)
  have "unat b < 256" using unsigned_less [of b] by simp
  then have "unat b div 16 < 16" by simp
  moreover have "HexEncode (b # bs) = hex_char (unat b div 16) # hex_char (unat b mod 16) # HexEncode bs"
    by (simp add: HexEncode_def)
  ultimately show ?case using Cons by (simp add: hex_value_hex_char)
qed

lemma HexEncode_eq_Nil [simp]: "HexEncode bs = [] \<longleftrightarrow> bs = []"
  by (cases bs) (simp_all add: HexEncode_def)

subsection \<open>Writing a target into the environment\<close>

text \<open>
  The three variables that configure a target under the (upper-case or mixed-case) name
  \<open>n\<close>, and the names that can be configured: an equals sign would end the key, and a name
  that ends in one of the two suffixes is read as another variable.
\<close>

definition envEntries :: "string \<times> Target \<Rightarrow> string list" where
  "envEntries nt = (case nt of (n, t) \<Rightarrow>
     [envTargetPrefix @ n @ CHR ''='' # JoinHostPort (tAddr t) (Itoa (tPort t)),
      envTargetPrefix @ n @ envTransportSuffix @ CHR ''='' # tTransport t,
      envTargetPrefix @ n @ envSecretSuffix @ CHR ''='' # HexEncode (tSecret t)])"

definition env_name :: "unicode \<Rightarrow> string \<Rightarrow> bool" where
  "env_name u n \<longleftrightarrow> n \<noteq> [] \<and> CHR ''='' \<notin> set n \<and> ToLower u n \<noteq> [] \<and>
     \<not> HasSuffix n envTransportSuffix \<and> \<not> HasSuffix n envSecretSuffix"

definition env_target :: "Target \<Rightarrow> bool" where
  "env_target t \<longleftrightarrow> plain_host (tAddr t) \<and> 1 \<le> tPort t \<and> tPort t \<le> 65535"

definition rawOf :: "Target \<Rightarrow> rawTarget" where
  "rawOf t = \<lparr>rtAddr = JoinHostPort (tAddr t) (Itoa (tPort t)), rtTransport = tTransport t,
              rtSecret = HexEncode (tSecret t), rtHasAddr = True\<rparr>"

lemma suffix_facts:
  "CHR ''='' \<notin> set envTargetPrefix" "CHR ''='' \<notin> set envTransportSuffix"
  "CHR ''='' \<notin> set envSecretSuffix" "envTransportSuffix \<noteq> []" "envSecretSuffix \<noteq> []"
  by (simp_all add: envTargetPrefix_def envTransportSuffix_def envSecretSuffix_def)

lemma secret_not_transport: "\<not> HasSuffix (n @ envSecretSuffix) envTransportSuffix"
proof
  assume "HasSuffix (n @ envSecretSuffix) envTransportSuffix"
  then obtain t where "n @ envSecretSuffix = t @ envTransportSuffix" by (auto simp: HasSuffix_iff)
  then have "rev (n @ envSecretSuffix) = rev (t @ envTransportSuffix)" by simp
  then show False by (simp add: envSecretSuffix_def envTransportSuffix_def)
qed

lemma Cut_env:
  assumes "CHR ''='' \<notin> set n" "CHR ''='' \<notin> set sfx"
  shows "Cut (envTargetPrefix @ n @ sfx @ CHR ''='' # v) CHR ''='' = (envTargetPrefix @ n @ sfx, v, True)"
  using Cut_append [of "CHR ''=''" "envTargetPrefix @ n @ sfx" v] assms suffix_facts(1) by simp

lemma envEntry_addr:
  assumes "env_name u n"
  shows "envEntry u (envTargetPrefix @ n @ CHR ''='' # v) raw =
    Inr (raw(ToLower u n \<mapsto> (get raw (ToLower u n))\<lparr>rtAddr := v, rtHasAddr := True\<rparr>))"
  using assms Cut_env [of n "[]" v] by (simp add: envEntry_def env_name_def Let_def)

lemma envEntry_transport:
  assumes "env_name u n"
  shows "envEntry u (envTargetPrefix @ n @ envTransportSuffix @ CHR ''='' # v) raw =
    Inr (raw(ToLower u n \<mapsto> (get raw (ToLower u n))\<lparr>rtTransport := v\<rparr>))"
  using assms Cut_env [of n envTransportSuffix v]
  by (simp add: envEntry_def env_name_def suffix_facts secret_not_transport Let_def)

lemma envEntry_secret:
  assumes "env_name u n"
  shows "envEntry u (envTargetPrefix @ n @ envSecretSuffix @ CHR ''='' # v) raw =
    Inr (raw(ToLower u n \<mapsto> (get raw (ToLower u n))\<lparr>rtSecret := v\<rparr>))"
  using assms Cut_env [of n envSecretSuffix v]
  by (simp add: envEntry_def env_name_def suffix_facts secret_not_transport Let_def)

lemma scanEnv_envEntries:
  assumes "env_name u n" and "ToLower u n \<notin> dom raw"
  shows "scanEnv u (envEntries (n, t)) raw = Inr (raw(ToLower u n \<mapsto> rawOf t))"
  using assms(2)
  by (simp add: envEntries_def envEntry_addr [OF assms(1)] envEntry_transport [OF assms(1)]
      envEntry_secret [OF assms(1)] get_def rawOf_def domIff)

lemma scanEnv_table:
  assumes "\<forall>(n, t) \<in> set tbl. env_name u n"
    and "distinct (map (\<lambda>(n, t). ToLower u n) tbl)"
    and "\<forall>(n, t) \<in> set tbl. ToLower u n \<notin> dom raw"
  shows "scanEnv u (concat (map envEntries tbl)) raw =
    Inr (raw ++ map_of (rev (map (\<lambda>(n, t). (ToLower u n, rawOf t)) tbl)))"
  using assms
proof (induction tbl arbitrary: raw)
  case Nil
  show ?case by simp
next
  case (Cons x tbl)
  obtain n t where x: "x = (n, t)" by (cases x)
  define raw' where "raw' = raw(ToLower u n \<mapsto> rawOf t)"
  have "scanEnv u (envEntries x) raw = Inr raw'"
    using Cons.prems by (simp add: x scanEnv_envEntries raw'_def)
  moreover have "\<forall>(n', t') \<in> set tbl. ToLower u n' \<notin> dom raw'"
    using Cons.prems by (force simp: x raw'_def)
  then have "scanEnv u (concat (map envEntries tbl)) raw' =
      Inr (raw' ++ map_of (rev (map (\<lambda>(n, t). (ToLower u n, rawOf t)) tbl)))"
    using Cons.prems by (intro Cons.IH) (auto simp: x)
  ultimately show ?case
    by (simp add: scanEnv_append x raw'_def)
qed

lemma buildTarget_rawOf: "env_target t \<Longrightarrow> buildTarget u s (rawOf t) = Inr t"
  by (simp add: buildTarget_def rawOf_def env_target_def splitHostPortDefault_join)

text \<open>Entries of the allowlist in one variable.\<close>

fun commaSep :: "string list \<Rightarrow> string" where
  "commaSep [] = []"
| "commaSep [e] = e"
| "commaSep (e # es) = e @ CHR '','' # commaSep es"

lemma Split_commaSep:
  assumes "es \<noteq> []" "\<forall>e \<in> set es. CHR '','' \<notin> set e"
  shows "Split (commaSep es) CHR '','' = es"
  using assms by (induction es rule: commaSep.induct) (simp_all add: Split_append Split_none)

lemma parseAllowlist_commaSep:
  assumes "\<forall>e \<in> set es. e \<noteq> [] \<and> TrimSpace e = e \<and> CHR '','' \<notin> set e"
  shows "parseAllowlist (commaSep es) = es"
proof (cases es rule: commaSep.cases)
  case 1
  then show ?thesis by (simp add: parseAllowlist_def)
next
  case (2 e)
  then have "Split e CHR '','' = [e]" using assms Split_none by auto
  then show ?thesis using assms 2 by (simp add: parseAllowlist_def)
next
  case (3 e f es')
  have "map TrimSpace es = es" "filter (\<lambda>e. e \<noteq> []) es = es"
    using assms by (auto intro: map_idI)
  moreover have "Split (commaSep es) CHR '','' = es" using assms 3 by (intro Split_commaSep) auto
  moreover have "commaSep es \<noteq> []" by (simp add: 3)
  ultimately show ?thesis by (simp add: parseAllowlist_def)
qed

lemma envEntry_allowlist: "envEntry u (envAllowlist @ CHR ''='' # v) raw = Inr raw"
proof -
  have "Cut (envAllowlist @ CHR ''='' # v) CHR ''='' = (envAllowlist, v, True)"
    by (rule Cut_append) (simp add: envAllowlist_def)
  moreover have "\<not> HasPrefix envAllowlist envTargetPrefix"
    by (simp add: envAllowlist_def envTargetPrefix_def HasPrefix_def)
  ultimately show ?thesis by (simp add: envEntry_def)
qed

lemma Getenv_allowlist:
  assumes "\<forall>(n, t) \<in> set tbl. env_name u n"
  shows "Getenv (concat (map envEntries tbl) @ [envAllowlist @ CHR ''='' # v]) envAllowlist = v"
proof -
  let ?key = "\<lambda>kv. case Cut kv CHR ''='' of (k, v, ok) \<Rightarrow> ok \<and> k = envAllowlist"
  have ne: "envTargetPrefix @ x \<noteq> envAllowlist" for x by (simp add: envAllowlist_def envTargetPrefix_def)
  have no: "\<not> ?key kv" if tbl: "(n, t) \<in> set tbl" and kv: "kv \<in> set (envEntries (n, t))" for kv n t
  proof -
    have "CHR ''='' \<notin> set n" using assms tbl by (auto simp: env_name_def)
    from Cut_env [OF this, of "[]"] Cut_env [OF this, of envTransportSuffix] Cut_env [OF this, of envSecretSuffix]
    show ?thesis using kv by (auto simp: envEntries_def suffix_facts ne)
  qed
  have none: "find ?key (concat (map envEntries tbl)) = None"
  proof (unfold find_None_iff, rule notI, elim exE conjE)
    fix kv assume kv: "kv \<in> set (concat (map envEntries tbl))" "?key kv"
    then obtain nt where "nt \<in> set tbl" "kv \<in> set (envEntries nt)" by auto
    then show False using no [of "fst nt" "snd nt" kv] kv(2) by simp
  qed
  have c: "Cut (envAllowlist @ CHR ''='' # v) CHR ''='' = (envAllowlist, v, True)"
    by (rule Cut_append) (simp add: envAllowlist_def)
  show ?thesis by (simp add: Getenv_def find_append none c)
qed

subsection \<open>Properties\<close>

text \<open>
  The configuration does not depend on the order in which Go visits the map of raw
  targets: if one order succeeds every order does, with the same result; and every target of
  a successful configuration has a port in 1..65535.
\<close>

theorem ConfigFromEnv_order_independent:
  assumes "config_order u env ks" and "config_order u env ks'"
    and "ConfigFromEnv u env ks = Inr cfg"
  shows "ConfigFromEnv u env ks' = Inr cfg \<and>
    (\<forall>s t. cfgTargets cfg s = Some t \<longrightarrow> 1 \<le> tPort t \<and> tPort t \<le> 65535)"
proof
  show "ConfigFromEnv u env ks' = Inr cfg"
    using assms by (simp add: ConfigFromEnv_Inr_iff)
  obtain raw where "cfgTargets cfg = built u raw"
    using assms by (auto simp: ConfigFromEnv_Inr_iff)
  moreover have "1 \<le> tPort t \<and> tPort t \<le> 65535" if "built u raw s = Some t" for s t
    using that splitHostPortDefault_port
    by (fastforce simp: built_def buildTarget_def split: option.splits sum.splits prod.splits if_splits)
  ultimately show "\<forall>s t. cfgTargets cfg s = Some t \<longrightarrow> 1 \<le> tPort t \<and> tPort t \<le> 65535" by simp
qed

text \<open>An environment with one target.\<close>

definition unicode0 :: unicode where
  "unicode0 = \<lparr>uniLower = id, uniUpper = id\<rparr>"

lemma env0_config:
  "config_order unicode0 [''PROXY_TARGET_A=h:1''] [''a''] \<and>
   ConfigFromEnv unicode0 [''PROXY_TARGET_A=h:1''] [''a''] =
     Inr \<lparr>cfgTargets = [''a'' \<mapsto> \<lparr>tAddr = ''h'', tPort = 1, tSecret = [], tTransport = []\<rparr>], cfgAllowlist = []\<rparr>"
proof
  let ?env = "[''PROXY_TARGET_A=h:1'']"
  let ?raw = "[''a'' \<mapsto> \<lparr>rtAddr = ''h:1'', rtTransport = [], rtSecret = [], rtHasAddr = True\<rparr>]"
  have "ToLower unicode0 ''A'' = ''a''" by code_simp
  then have sc: "scanEnv unicode0 ?env Map.empty = Inr ?raw"
    by (simp add: envEntry_def Cut_def envTargetPrefix_def HasPrefix_def TrimPrefix_def
        HasSuffix_def envTransportSuffix_def envSecretSuffix_def get_def Let_def)
  then show "config_order unicode0 ?env [''a'']"
    by (simp add: config_order_def iteration_order_def)
  have "splitHostPortDefault ''h:1'' = Inr (''h'', 1)"
    by (simp add: splitHostPortDefault_def SplitHostPort_def Let_def Atoi_def is_digit_def dec_value_def)
  moreover have "Getenv ?env envAllowlist = []"
    by (simp add: Getenv_def Cut_def envAllowlist_def)
  ultimately show "ConfigFromEnv unicode0 ?env [''a''] =
     Inr \<lparr>cfgTargets = [''a'' \<mapsto> \<lparr>tAddr = ''h'', tPort = 1, tSecret = [], tTransport = []\<rparr>], cfgAllowlist = []\<rparr>"
    unfolding ConfigFromEnv_def sc by (simp add: get_def buildTarget_def parseAllowlist_def)
qed

theorem ConfigFromEnv_order_independent_witness:
  "\<exists>cfg. ConfigFromEnv unicode0 [''PROXY_TARGET_A=h:1''] [''a''] = Inr cfg \<and>
     (\<forall>s t. cfgTargets cfg s = Some t \<longrightarrow> 1 \<le> tPort t \<and> tPort t \<le> 65535)"
  using ConfigFromEnv_order_independent env0_config by blast

text \<open>
  C35: writing a configuration into the environment and reading it back gives the configuration:
  the routing table under the lower-cased names, with address, port, transport and
  (hexadecimal) secret as written, and the entries of the allowlist, separated by commas, in order.
  The names must be usable (no equals sign, not ending in a suffix, not equal after
  lower-casing), the addresses free of brackets, and the entries trimmed, without commas and not empty.
\<close>

theorem ConfigFromEnv_roundtrip:
  assumes "\<forall>(n, t) \<in> set tbl. env_name u n \<and> env_target t"
    and "distinct (map (\<lambda>(n, t). ToLower u n) tbl)"
    and "set ks = ToLower u ` fst ` set tbl" and "distinct ks"
    and "\<forall>e \<in> set entries. e \<noteq> [] \<and> TrimSpace e = e \<and> CHR '','' \<notin> set e"
  shows "ConfigFromEnv u (concat (map envEntries tbl) @ [envAllowlist @ CHR ''='' # commaSep entries]) ks =
    Inr \<lparr>cfgTargets = map_of (map (\<lambda>(n, t). (ToLower u n, t)) tbl), cfgAllowlist = entries\<rparr>"
proof -
  let ?env = "concat (map envEntries tbl) @ [envAllowlist @ CHR ''='' # commaSep entries]"
  define raw where "raw = map_of (map (\<lambda>(n, t). (ToLower u n, rawOf t)) tbl)"
  have fst_eq: "map fst (map (\<lambda>(n, t). (ToLower u n, f t)) tbl) = map (\<lambda>(n, t). ToLower u n) tbl"
    for f :: "Target \<Rightarrow> 'b" by (simp add: comp_def split_beta)
  have d: "distinct (map fst (map (\<lambda>(n, t). (ToLower u n, f t)) tbl))" for f :: "Target \<Rightarrow> 'b"
    using assms(2) by (simp only: fst_eq)
  have "scanEnv u (concat (map envEntries tbl)) Map.empty = Inr raw"
    using scanEnv_table [of tbl u Map.empty] assms(1,2) d [of rawOf]
    by (auto simp: raw_def map_of_rev)
  then have sc: "scanEnv u ?env Map.empty = Inr raw" by (simp add: scanEnv_append envEntry_allowlist)
  have b: "built u raw = map_of (map (\<lambda>(n, t). (ToLower u n, t)) tbl)"
  proof
    fix k
    have "raw k = map_option rawOf (map_of (map (\<lambda>(n, t). (ToLower u n, t)) tbl) k)"
      unfolding raw_def by (induction tbl) auto
    moreover have "env_target t" if "map_of (map (\<lambda>(n, t). (ToLower u n, t)) tbl) k = Some t" for t
      using map_of_SomeD [OF that] assms(1) by auto
    ultimately show "built u raw k = map_of (map (\<lambda>(n, t). (ToLower u n, t)) tbl) k"
      by (auto simp: built_def buildTarget_rawOf split: option.split)
  qed
  have "dom (built u raw) = dom raw"
    by (subst b, subst raw_def) (simp add: dom_map_of_conv_image_fst image_image split_beta)
  moreover have "config_order u ?env ks"
    using assms(3,4) by (simp add: config_order_def sc iteration_order_def raw_def
        dom_map_of_conv_image_fst image_image split_beta)
  moreover have "parseAllowlist (Getenv ?env envAllowlist) = entries"
    using assms(1,5) by (subst Getenv_allowlist) (auto simp: parseAllowlist_commaSep)
  ultimately show ?thesis using sc b by (simp add: ConfigFromEnv_Inr_iff)
qed

theorem ConfigFromEnv_roundtrip_witness:
  "ConfigFromEnv \<lparr>uniLower = id, uniUpper = id\<rparr>
      (envEntries (''MAILER'', \<lparr>tAddr = ''h'', tPort = 2443, tSecret = [0, 17], tTransport = ''json''\<rparr>) @
       [''PROXY_ALLOWLIST=mailer.Send,mailer.*'']) [''mailer''] =
    Inr \<lparr>cfgTargets = [''mailer'' \<mapsto> \<lparr>tAddr = ''h'', tPort = 2443, tSecret = [0, 17], tTransport = ''json''\<rparr>],
      cfgAllowlist = [''mailer.Send'', ''mailer.*'']\<rparr>"
proof -
  let ?u = "\<lparr>uniLower = id, uniUpper = id\<rparr> :: unicode"
  let ?t = "\<lparr>tAddr = ''h'', tPort = 2443, tSecret = [0, 17], tTransport = ''json''\<rparr> :: Target"
  have l: "ToLower ?u ''MAILER'' = ''mailer''" by code_simp
  then have n: "env_name ?u ''MAILER''"
    by (simp add: env_name_def HasSuffix_def envTransportSuffix_def envSecretSuffix_def)
  have t: "env_target ?t" by (simp add: env_target_def plain_host_def)
  have e: "\<forall>e \<in> set [''mailer.Send'', ''mailer.*'']. e \<noteq> [] \<and> TrimSpace e = e \<and> CHR '','' \<notin> set e"
    by (simp add: graphic_def)
  show ?thesis
    using ConfigFromEnv_roundtrip [of "[(''MAILER'', ?t)]" ?u "[''mailer'']" "[''mailer.Send'', ''mailer.*'']"] l n t e
    by (simp add: envAllowlist_def)
qed

text \<open>
  \<open>splitHostPortDefault\<close> inverts the printing of a host and port that the proxy uses for
  its targets, for every host without brackets (IPv6 addresses included) and every port in
  range; it accepts no port outside 1..65535.
\<close>

theorem splitHostPortDefault_roundtrip:
  assumes "plain_host host" and "1 \<le> port" and "port \<le> 65535"
  shows "splitHostPortDefault (JoinHostPort host (Itoa port)) = Inr (host, port) \<and>
    (\<forall>v h p. splitHostPortDefault v = Inr (h, p) \<longrightarrow> 1 \<le> p \<and> p \<le> 65535)"
  using splitHostPortDefault_join [OF assms] splitHostPortDefault_port by blast

theorem splitHostPortDefault_roundtrip_witness:
  "splitHostPortDefault (JoinHostPort ''::1'' (Itoa 2233)) = Inr (''::1'', 2233)"
  using splitHostPortDefault_roundtrip [of "''::1''" 2233] by (simp add: plain_host_def)

text \<open>
  An IPv6 address without a port, which the documented form \<open>addr[:port]\<close> includes, keeps
  its brackets in the address; joined with the default port it gets a second pair, and the
  result is not an address: for every bracketed host the target cannot be dialled.
\<close>

theorem bracketed_host_without_port:
  assumes "plain_host h" and "CHR '':'' \<in> set h"
  shows "splitHostPortDefault (CHR ''['' # h @ '']'') = Inr (CHR ''['' # h @ '']'', defaultTargetPort) \<and>
    SplitHostPort (JoinHostPort (CHR ''['' # h @ '']'') (Itoa defaultTargetPort)) =
      Inl (AddrError missingPort (JoinHostPort (CHR ''['' # h @ '']'') (Itoa defaultTargetPort)))"
proof
  let ?b = "CHR ''['' # h @ '']''"
  have rb: "CHR '']'' \<notin> set h" using assms(1) by (simp add: plain_host_def)
  obtain i where i: "LastIndexByte ?b CHR '':'' = Some i"
    using assms(2) LastIndexByte_None_iff [of ?b "CHR '':''"] by fastforce
  have e: "IndexByte ?b CHR '']'' = Some (length h + 1)"
    using IndexByte_append [of "CHR '']''" "CHR ''['' # h" "[]"] rb by simp
  have "SplitHostPort ?b = Inl (AddrError missingPort ?b)"
    using i e by (simp add: SplitHostPort_def Let_def)
  moreover have "Contains (err_text (AddrError missingPort ?b)) ''missing port''"
  proof -
    have "HasPrefix missingPort ''missing port''"
      by (simp add: missingPort_def HasPrefix_def)
    then have "Contains missingPort ''missing port''" by (rule Contains_HasPrefix)
    then show ?thesis by (simp add: Contains_append_right)
  qed
  ultimately show "splitHostPortDefault ?b = Inr (?b, defaultTargetPort)"
    by (simp add: splitHostPortDefault_def)
  let ?j = "CHR ''['' # ?b @ '']:'' @ Itoa defaultTargetPort"
  have j: "JoinHostPort ?b (Itoa defaultTargetPort) = ?j"
    using assms(2) IndexByte_None_iff [of ?b "CHR '':''"] by (auto simp: JoinHostPort_def)
  have "CHR '':'' \<notin> set (Itoa defaultTargetPort)"
    using Itoa_no_colon [of defaultTargetPort] by (simp add: defaultTargetPort_def)
  then have l: "LastIndexByte ?j CHR '':'' = Some (length h + 4)"
    using LastIndexByte_append [of "CHR '':''" "Itoa defaultTargetPort" "CHR ''['' # ?b @ '']''"] by simp
  have "IndexByte ?j CHR '']'' = Some (length h + 2)"
    using IndexByte_append [of "CHR '']''" "CHR ''['' # CHR ''['' # h"] rb by simp
  with l show "SplitHostPort (JoinHostPort ?b (Itoa defaultTargetPort)) =
      Inl (AddrError missingPort (JoinHostPort ?b (Itoa defaultTargetPort)))"
    unfolding j by (simp add: SplitHostPort_def Let_def nth_append)
qed

theorem bracketed_host_without_port_witness:
  "splitHostPortDefault ''[::1]'' = Inr (''[::1]'', 2233)"
  using bracketed_host_without_port [of "''::1''"]
  by (simp add: plain_host_def defaultTargetPort_def)

end
