(* ===== verification/ProxyStart.thy ===== *)
theory ProxyStart
  imports ProxyConfig StaticRouting
begin

text \<open>
  From the environment to the router: what \<open>ConfigFromEnv\<close> (\<open>v3/proxy/config.go\<close>) promises of the
  configurations it accepts, and which of them \<open>NewStaticRouter\<close> (\<open>v3/proxy/router.go\<close>) takes.
\<close>

subsection \<open>The names\<close>

definition lowered :: "unicode \<Rightarrow> string set" where
  "lowered u = {ToLower u x | x. x \<noteq> []}"

lemma envEntry_names:
  assumes "envEntry u kv raw = Inr raw'" "dom raw \<subseteq> lowered u" "\<forall>x. x \<noteq> [] \<longrightarrow> ToLower u x \<noteq> []"
  shows "dom raw' \<subseteq> lowered u"
proof -
  obtain key v ok where c: "Cut kv CHR ''='' = (key, v, ok)" by (metis prod.exhaust)
  have t: "x \<noteq> [] \<or> ToLower u x = []" for x using assms(3) by (cases x) (auto simp: ToLower_def is_ascii_def)
  have "raw' = raw \<or> (\<exists>s y. raw' = raw(s \<mapsto> y) \<and> s \<in> lowered u)"
    using assms(1) t unfolding envEntry_def lowered_def c prod.case Let_def
    by (auto split: if_splits) metis+
  moreover have "dom (raw(s \<mapsto> y)) \<subseteq> lowered u" if "s \<in> lowered u" for s y
    using assms(2) that by simp
  ultimately show ?thesis using assms(2) by metis
qed

lemma scanEnv_names:
  assumes "scanEnv u env raw = Inr raw'" "dom raw \<subseteq> lowered u" "\<forall>x. x \<noteq> [] \<longrightarrow> ToLower u x \<noteq> []"
  shows "dom raw' \<subseteq> lowered u"
  using assms(1,2)
proof (induction env arbitrary: raw)
  case (Cons kv kvs)
  then obtain r where "envEntry u kv raw = Inr r" "scanEnv u kvs r = Inr raw'" by (auto simp: bindR_eq_Inr)
  then show ?case using Cons.IH envEntry_names [OF _ Cons.prems(2) assms(3)] by blast
qed simp

lemma parseAllowlist_trimmed: "e \<in> set (parseAllowlist v) \<Longrightarrow> e \<noteq> [] \<and> TrimSpace e = e"
  by (auto simp: parseAllowlist_def split: if_splits)

lemma built_port: "built u raw s = Some t \<Longrightarrow> 1 \<le> tPort t \<and> tPort t \<le> 65535"
  using splitHostPortDefault_port
  by (fastforce simp: built_def buildTarget_def split: option.splits sum.splits prod.splits if_splits)

lemma ConfigFromEnv_typed:
  assumes "config_order u env ks" "ConfigFromEnv u env ks = Inr cfg" "\<forall>x. x \<noteq> [] \<longrightarrow> ToLower u x \<noteq> []"
    and "cfgTargets cfg s = Some t"
  shows "s \<in> lowered u \<and> s \<noteq> [] \<and> 1 \<le> tPort t \<and> tPort t \<le> 65535"
proof -
  obtain raw where r: "scanEnv u env Map.empty = Inr raw" "dom (built u raw) = dom raw" "cfgTargets cfg = built u raw"
    using assms(1,2) by (auto simp: ConfigFromEnv_Inr_iff)
  have "s \<in> dom raw" using assms(4) r(2,3) by auto
  then have "s \<in> lowered u" using scanEnv_names [OF r(1) _ assms(3)] by auto
  then show ?thesis using built_port assms(3,4) r(3) by (auto simp: lowered_def)
qed

subsection \<open>Properties\<close>

text \<open>
  C34: from the environment to the router. In a configuration that is accepted every service
  name is not empty and in lower case, every port is in 1..65535 and every allowlist entry is
  trimmed and not empty. The router takes its table exactly when every address is given and
  every transport is known: names and ports cannot be why it refuses. It then resolves names in lower
  case only, and to the targets of the configuration.
\<close>

theorem environment_to_router:
  assumes "config_order u env ks" and "ConfigFromEnv u env ks = Inr cfg"
    and "enumerates order (cfgTargets cfg)" and "\<forall>x. x \<noteq> [] \<longrightarrow> ToLower u x \<noteq> []"
  shows "(\<forall>s t. cfgTargets cfg s = Some t \<longrightarrow> s \<noteq> [] \<and> (\<exists>x. s = ToLower u x) \<and> 1 \<le> tPort t \<and> tPort t \<le> 65535) \<and>
    (\<forall>e \<in> set (cfgAllowlist cfg). e \<noteq> [] \<and> TrimSpace e = e) \<and>
    ((\<exists>r. NewStaticRouter order = Inr r) \<longleftrightarrow>
      (\<forall>s t. cfgTargets cfg s = Some t \<longrightarrow> tAddr t \<noteq> [] \<and> tTransport t \<in> {[], ''auto'', ''json'', ''legacy''})) \<and>
    (\<forall>r s t. NewStaticRouter order = Inr r \<longrightarrow> (Resolve r s = Inr t \<longleftrightarrow> cfgTargets cfg s = Some t))"
proof (intro conjI)
  note typed = ConfigFromEnv_typed [OF assms(1,2,4)]
  show "\<forall>s t. cfgTargets cfg s = Some t \<longrightarrow> s \<noteq> [] \<and> (\<exists>x. s = ToLower u x) \<and> 1 \<le> tPort t \<and> tPort t \<le> 65535"
    using typed by (auto simp: lowered_def)
  have "cfgAllowlist cfg = parseAllowlist (Getenv env envAllowlist)"
    using assms(1,2) by (auto simp: ConfigFromEnv_Inr_iff)
  then show "\<forall>e \<in> set (cfgAllowlist cfg). e \<noteq> [] \<and> TrimSpace e = e" using parseAllowlist_trimmed by simp
  note iff = NewStaticRouter_Inr_iff [OF assms(3)]
  show "(\<exists>r. NewStaticRouter order = Inr r) \<longleftrightarrow>
      (\<forall>s t. cfgTargets cfg s = Some t \<longrightarrow> tAddr t \<noteq> [] \<and> tTransport t \<in> {[], ''auto'', ''json'', ''legacy''})"
    using typed unfolding iff by (fastforce simp: valid_entry_def known_transports_def)
  show "\<forall>r s t. NewStaticRouter order = Inr r \<longrightarrow> (Resolve r s = Inr t \<longleftrightarrow> cfgTargets cfg s = Some t)"
    unfolding iff by (auto simp: Resolve_def split: option.splits)
qed

theorem environment_to_router_witness:
  "\<exists>r. NewStaticRouter [(''a'', \<lparr>tAddr = ''h'', tPort = 1, tSecret = [], tTransport = []\<rparr>)] = Inr r \<and>
    Resolve r ''a'' = Inr \<lparr>tAddr = ''h'', tPort = 1, tSecret = [], tTransport = []\<rparr>"
proof -
  let ?t = "\<lparr>tAddr = ''h'', tPort = 1, tSecret = [], tTransport = []\<rparr>"
  let ?cfg = "\<lparr>cfgTargets = [''a'' \<mapsto> ?t], cfgAllowlist = []\<rparr> :: Config"
  have e: "enumerates [(''a'', ?t)] (cfgTargets ?cfg)" by (simp add: enumerates_def)
  have u: "\<forall>x. x \<noteq> [] \<longrightarrow> ToLower unicode0 x \<noteq> []" by (simp add: ToLower_def unicode0_def)
  have c: "ConfigFromEnv unicode0 [''PROXY_TARGET_A=h:1''] [''a''] = Inr ?cfg" using env0_config by blast
  note all = environment_to_router [OF conjunct1 [OF env0_config] c e u]
  have "\<forall>s t. cfgTargets ?cfg s = Some t \<longrightarrow> tAddr t \<noteq> [] \<and> tTransport t \<in> {[], ''auto'', ''json'', ''legacy''}"
    by simp
  then obtain r where r: "NewStaticRouter [(''a'', ?t)] = Inr r" using all by blast
  moreover have "cfgTargets ?cfg ''a'' = Some ?t" by simp
  then have "Resolve r ''a'' = Inr ?t" using all r by blast
  ultimately show ?thesis by blast
qed

end
