(* ===== verification/ProxyEnvironment.thy ===== *)
theory ProxyEnvironment
  imports ProxyConfig
begin

text \<open>
  What \<open>ConfigFromEnv\<close> (\<open>v3/proxy/config.go\<close>) means, without its mutable table: each variable of the
  environment sets one of three settings of a service, the last one set counts, and a service
  is configured by its settings alone. The loops of the code are shown to compute this.
\<close>

subsection \<open>The settings of a service\<close>

datatype setting = Address | Transport | Secret

definition read_var :: "unicode \<Rightarrow> string \<Rightarrow> (string \<times> setting \<times> string) option" where
  "read_var u kv =
     (case Cut kv CHR ''='' of (key, value, ok) \<Rightarrow>
        if ok \<and> HasPrefix key envTargetPrefix then
          let name = TrimPrefix key envTargetPrefix in
          Some (if HasSuffix name envTransportSuffix
                then (ToLower u (TrimSuffix name envTransportSuffix), Transport, value)
                else if HasSuffix name envSecretSuffix
                then (ToLower u (TrimSuffix name envSecretSuffix), Secret, value)
                else (ToLower u name, Address, value))
        else None)"

text \<open>The last variable for a setting counts.\<close>

definition settings :: "unicode \<Rightarrow> string list \<Rightarrow> string \<times> setting \<rightharpoonup> string" where
  "settings u env =
     foldl (\<lambda>m kv. case read_var u kv of None \<Rightarrow> m | Some (s, k, v) \<Rightarrow> m((s, k) \<mapsto> v)) Map.empty env"

definition setting_value :: "(string \<times> setting \<rightharpoonup> string) \<Rightarrow> string \<Rightarrow> setting \<Rightarrow> string" where
  "setting_value m s k = (case m (s, k) of None \<Rightarrow> [] | Some v \<Rightarrow> v)"

definition target_of :: "(string \<times> setting \<rightharpoonup> string) \<Rightarrow> string \<rightharpoonup> Target" where
  "target_of m s =
     (case m (s, Address) of
        None \<Rightarrow> None
      | Some a \<Rightarrow>
          (case (splitHostPortDefault a, HexDecode (setting_value m s Secret)) of
             (Inr (host, port), Inr secret) \<Rightarrow>
               Some \<lparr>tAddr = host, tPort = port, tSecret = secret, tTransport = setting_value m s Transport\<rparr>
           | _ \<Rightarrow> None))"

subsection \<open>The first loop\<close>

fun put :: "setting \<Rightarrow> string \<Rightarrow> rawTarget \<Rightarrow> rawTarget" where
  "put Address v t = t\<lparr>rtAddr := v, rtHasAddr := True\<rparr>"
| "put Transport v t = t\<lparr>rtTransport := v\<rparr>"
| "put Secret v t = t\<lparr>rtSecret := v\<rparr>"

definition rawIn :: "(string \<times> setting \<rightharpoonup> string) \<Rightarrow> string \<rightharpoonup> rawTarget" where
  "rawIn m s =
     (if m (s, Address) = None \<and> m (s, Transport) = None \<and> m (s, Secret) = None then None
      else Some \<lparr>rtAddr = setting_value m s Address, rtTransport = setting_value m s Transport,
                 rtSecret = setting_value m s Secret, rtHasAddr = m (s, Address) \<noteq> None\<rparr>)"

lemma ToLower_Nil [simp]: "ToLower u [] = []"
  by (simp add: ToLower_def is_ascii_def)

lemma envEntry_read_var:
  assumes "\<forall>x. x \<noteq> [] \<longrightarrow> ToLower u x \<noteq> []"
  shows "envEntry u kv raw =
    (case read_var u kv of
       None \<Rightarrow> Inr raw
     | Some (s, k, v) \<Rightarrow> if s = [] then Inl errNoService else Inr (raw(s \<mapsto> put k v (get raw s))))"
proof -
  obtain key v ok where c: "Cut kv CHR ''='' = (key, v, ok)" by (metis prod.exhaust)
  have "\<not> HasSuffix [] envTransportSuffix" "\<not> HasSuffix [] envSecretSuffix"
    by (simp_all add: HasSuffix_def envTransportSuffix_def envSecretSuffix_def)
  then show ?thesis using assms by (auto simp: envEntry_def read_var_def c Let_def)
qed

lemma get_rawIn:
  "get (rawIn m) s = \<lparr>rtAddr = setting_value m s Address, rtTransport = setting_value m s Transport,
     rtSecret = setting_value m s Secret, rtHasAddr = m (s, Address) \<noteq> None\<rparr>"
  by (simp add: get_def rawIn_def setting_value_def)

lemma rawIn_put: "(rawIn m)(s \<mapsto> put k v (get (rawIn m) s)) = rawIn (m((s, k) \<mapsto> v))"
  unfolding get_rawIn by (cases k) (auto simp: fun_eq_iff rawIn_def setting_value_def)

lemma settings_snoc:
  "settings u (env @ [kv]) =
    (case read_var u kv of None \<Rightarrow> settings u env | Some (s, k, v) \<Rightarrow> (settings u env)((s, k) \<mapsto> v))"
  by (cases "read_var u kv") (auto simp: settings_def)

definition all_named :: "unicode \<Rightarrow> string list \<Rightarrow> bool" where
  "all_named u env \<longleftrightarrow> (\<forall>kv \<in> set env. case read_var u kv of None \<Rightarrow> True | Some (s, k, v) \<Rightarrow> s \<noteq> [])"

lemma scanEnv_settings:
  assumes "\<forall>x. x \<noteq> [] \<longrightarrow> ToLower u x \<noteq> []"
  shows "scanEnv u env Map.empty = Inr raw \<longleftrightarrow> all_named u env \<and> raw = rawIn (settings u env)"
proof (induction env arbitrary: raw rule: rev_induct)
  case Nil
  have "rawIn (settings u []) = Map.empty" by (auto simp: rawIn_def settings_def)
  then show ?case by (auto simp: all_named_def)
next
  case (snoc kv env)
  have "scanEnv u (env @ [kv]) Map.empty = Inr raw \<longleftrightarrow>
      all_named u env \<and> envEntry u kv (rawIn (settings u env)) = Inr raw"
    by (simp add: scanEnv_append bindR_eq_Inr snoc)
  also have "\<dots> \<longleftrightarrow> all_named u (env @ [kv]) \<and> raw = rawIn (settings u (env @ [kv]))"
    by (cases "read_var u kv")
      (auto simp: envEntry_read_var [OF assms] all_named_def settings_snoc rawIn_put split: if_splits)
  finally show ?case .
qed

lemma built_rawIn: "built u (rawIn m) = target_of m"
  by (auto simp: fun_eq_iff built_def rawIn_def target_of_def buildTarget_def setting_value_def
      split: option.splits sum.splits prod.splits)

lemma dom_rawIn: "dom (rawIn m) = {s. \<exists>k. m (s, k) \<noteq> None}"
proof -
  have "(\<exists>k. P k) \<longleftrightarrow> P Address \<or> P Transport \<or> P Secret" for P by (metis setting.exhaust)
  then show ?thesis by (auto simp: rawIn_def dom_def split: if_splits)
qed

subsection \<open>Properties\<close>

text \<open>
  C26: what an environment configures. It is accepted exactly when every \<open>PROXY_TARGET_\<close> variable
  names a service and every service with a setting has an address that parses and a secret, if
  any, in hexadecimal. The configuration then has for each service the target that the last
  value of each of its settings gives, names compared in lower case, and the entries of the
  allowlist variable; the order in which Go visits the table plays no part.
\<close>

theorem ConfigFromEnv_spec:
  assumes "config_order u env ks" and "\<forall>x. x \<noteq> [] \<longrightarrow> ToLower u x \<noteq> []"
  shows "ConfigFromEnv u env ks = Inr cfg \<longleftrightarrow>
    (\<forall>kv \<in> set env. case read_var u kv of None \<Rightarrow> True | Some (s, k, v) \<Rightarrow> s \<noteq> []) \<and>
    (\<forall>s k. settings u env (s, k) \<noteq> None \<longrightarrow> target_of (settings u env) s \<noteq> None) \<and>
    cfg = \<lparr>cfgTargets = target_of (settings u env), cfgAllowlist = parseAllowlist (Getenv env envAllowlist)\<rparr>"
proof -
  have "target_of m s \<noteq> None \<Longrightarrow> \<exists>k. m (s, k) \<noteq> None" for m s
    by (auto simp: target_of_def split: option.splits)
  then have "dom (target_of m) = {s. \<exists>k. m (s, k) \<noteq> None} \<longleftrightarrow>
      (\<forall>s k. m (s, k) \<noteq> None \<longrightarrow> target_of m s \<noteq> None)" for m
    by blast
  then show ?thesis
    by (auto simp: ConfigFromEnv_Inr_iff [OF assms(1)] scanEnv_settings [OF assms(2)] built_rawIn dom_rawIn
        all_named_def)
qed

text \<open>Two variables that name one service, and a secret without an address.\<close>

lemma unicode0_nonempty: "\<forall>x. x \<noteq> [] \<longrightarrow> ToLower unicode0 x \<noteq> []"
  by (simp add: ToLower_def unicode0_def)

lemma env_order:
  assumes "\<forall>x. x \<noteq> [] \<longrightarrow> ToLower u x \<noteq> []" "distinct ks" "set ks = {s. \<exists>k. settings u env (s, k) \<noteq> None}"
  shows "config_order u env ks"
  using assms(2,3) by (auto simp: config_order_def scanEnv_settings [OF assms(1)] iteration_order_def dom_rawIn)

theorem ConfigFromEnv_spec_witness:
  "ConfigFromEnv unicode0 [''PROXY_TARGET_A=h:1'', ''PROXY_TARGET_A_SECRET=0a'', ''PROXY_TARGET_a=g:2''] [''a''] =
     Inr \<lparr>cfgTargets = [''a'' \<mapsto> \<lparr>tAddr = ''g'', tPort = 2, tSecret = [10], tTransport = []\<rparr>], cfgAllowlist = []\<rparr> \<and>
   (\<nexists>cfg. ConfigFromEnv unicode0 [''PROXY_TARGET_A_SECRET=0a''] [''a''] = Inr cfg)"
proof
  let ?v1 = "''PROXY_TARGET_A=h:1''" and ?v2 = "''PROXY_TARGET_A_SECRET=0a''" and ?v3 = "''PROXY_TARGET_a=g:2''"
  have r: "read_var unicode0 ?v1 = Some (''a'', Address, ''h:1'')" "read_var unicode0 ?v2 = Some (''a'', Secret, ''0a'')"
      "read_var unicode0 ?v3 = Some (''a'', Address, ''g:2'')"
    by code_simp+
  have s3: "settings unicode0 [?v1, ?v2, ?v3] = [(''a'', Address) \<mapsto> ''g:2'', (''a'', Secret) \<mapsto> ''0a'']"
    and s1: "settings unicode0 [?v2] = [(''a'', Secret) \<mapsto> ''0a'']"
    by (simp_all add: settings_def r fun_upd_twist)
  have o3: "config_order unicode0 [?v1, ?v2, ?v3] [''a'']" and o1: "config_order unicode0 [?v2] [''a'']"
    by (rule env_order [OF unicode0_nonempty]; auto simp: s3 s1)+
  have t3: "target_of [(''a'', Address) \<mapsto> ''g:2'', (''a'', Secret) \<mapsto> ''0a''] =
      [''a'' \<mapsto> \<lparr>tAddr = ''g'', tPort = 2, tSecret = [10], tTransport = []\<rparr>]"
  proof
    have "splitHostPortDefault ''g:2'' = Inr (''g'', 2)" "HexDecode ''0a'' = Inr [10]" by code_simp+
    then show "target_of [(''a'', Address) \<mapsto> ''g:2'', (''a'', Secret) \<mapsto> ''0a''] s =
      [''a'' \<mapsto> \<lparr>tAddr = ''g'', tPort = 2, tSecret = [10], tTransport = []\<rparr>] s" for s
      by (simp add: target_of_def setting_value_def)
  qed
  have g: "Getenv [?v1, ?v2, ?v3] envAllowlist = []" by code_simp
  show "ConfigFromEnv unicode0 [?v1, ?v2, ?v3] [''a''] =
     Inr \<lparr>cfgTargets = [''a'' \<mapsto> \<lparr>tAddr = ''g'', tPort = 2, tSecret = [10], tTransport = []\<rparr>], cfgAllowlist = []\<rparr>"
    using ConfigFromEnv_spec [OF o3 unicode0_nonempty] by (simp add: r s3 t3 g parseAllowlist_def)
  show "\<nexists>cfg. ConfigFromEnv unicode0 [?v2] [''a''] = Inr cfg"
  proof (rule notI, elim exE)
    fix cfg assume "ConfigFromEnv unicode0 [?v2] [''a''] = Inr cfg"
    then have "settings unicode0 [?v2] (''a'', Secret) \<noteq> None \<longrightarrow> target_of (settings unicode0 [?v2]) ''a'' \<noteq> None"
      using ConfigFromEnv_spec [OF o1 unicode0_nonempty, of cfg] by blast
    then show False by (simp add: s1 target_of_def)
  qed
qed

end
