(* ===== verification/AllowlistPolicy.thy ===== *)
theory AllowlistPolicy
  imports ProxyInterfaces
begin

text \<open>
  The method allowlist of the proxy (\<open>v3/proxy/allowlist.go\<close>): construction from entries
  \<open>Service.Method\<close> and \<open>Service.*\<close>, the policy decision, and the listing of the entries.
  The two Go maps to \<open>struct{}\<close> are sets. \<open>Entries\<close> iterates over them in an order Go
  does not fix: the two orders are arguments.
\<close>

definition PolicyDefault :: int where
  "PolicyDefault = 0"

definition PolicyDenyEmpty :: int where
  "PolicyDenyEmpty = 1"

record Allowlist =
  alPolicy :: int
  alExact :: "string set"
  alServices :: "string set"

definition dquoted :: "string \<Rightarrow> string" where
  "dquoted s = chr 34 # s @ [chr 34]"

text \<open>The loop over the entries of \<open>NewAllowlist\<close>.\<close>

fun addEntries :: "string list \<Rightarrow> Allowlist \<Rightarrow> err + Allowlist" where
  "addEntries [] a = Inr a"
| "addEntries (raw # raws) a =
     (let entry = TrimSpace raw in
      if entry = [] then addEntries raws a
      else case Cut entry CHR ''.'' of (service, rest, ok) \<Rightarrow>
        if \<not> ok \<or> service = [] \<or> rest = [] then
          Inl (Errorf (''proxy: allowlist entry %q must be '' @ dquoted ''Service.Method'' @
                       '' or '' @ dquoted ''Service.*'') [AStr entry] None)
        else if Contains rest ''.'' then
          Inl (Errorf ''proxy: allowlist entry %q must contain a single dot'' [AStr entry] None)
        else if rest = ''*'' then
          addEntries raws (a\<lparr>alServices := insert service (alServices a)\<rparr>)
        else addEntries raws (a\<lparr>alExact := insert entry (alExact a)\<rparr>))"

definition NewAllowlist :: "string list \<Rightarrow> int \<Rightarrow> err + Allowlist" where
  "NewAllowlist entries policy =
     addEntries entries \<lparr>alPolicy = policy, alExact = {}, alServices = {}\<rparr>"

definition allows :: "Allowlist \<Rightarrow> string \<Rightarrow> bool" where
  "allows a method =
     (if method \<in> alExact a then True
      else case SplitMethod method of
             None \<Rightarrow> False
           | Some service \<Rightarrow> service \<in> alServices a)"

text \<open>\<open>Allowed\<close> on a receiver that may be nil; \<open>None\<close> is the nil error.\<close>

definition Allowed :: "Allowlist option \<Rightarrow> string \<Rightarrow> err option" where
  "Allowed r method =
     (case r of
        None \<Rightarrow> None
      | Some a \<Rightarrow>
          let decide = (\<lambda>flt.
                if \<not> flt then None
                else if allows a method then None
                else Some (Errorf ''proxy: method %q is not allowed by the proxy allowlist''
                             [AStr method] None))
          in if alPolicy a = PolicyDefault
             then decide (card (alExact a) + card (alServices a) > 0)
             else if alPolicy a = PolicyDenyEmpty then decide True
             else Some (Errorf ''proxy: unknown allowlist policy %d'' [AInt (alPolicy a)] None))"

definition Entries :: "Allowlist option \<Rightarrow> string list \<Rightarrow> string list \<Rightarrow> string list" where
  "Entries r es ss =
     (case r of None \<Rightarrow> [] | Some a \<Rightarrow> es @ map (\<lambda>s. s @ ''.*'') ss)"

subsection \<open>What a constructed allowlist holds\<close>

definition exact_entry :: "string \<Rightarrow> bool" where
  "exact_entry e \<longleftrightarrow> TrimSpace e = e \<and>
     (\<exists>s m. e = s @ CHR ''.'' # m \<and> s \<noteq> [] \<and> m \<noteq> [] \<and> m \<noteq> ''*'' \<and>
            CHR ''.'' \<notin> set s \<and> CHR ''.'' \<notin> set m)"

definition service_entry :: "string \<Rightarrow> bool" where
  "service_entry s \<longleftrightarrow> TrimSpace (s @ ''.*'') = s @ ''.*'' \<and> s \<noteq> [] \<and> CHR ''.'' \<notin> set s"

definition allowlist_wf :: "Allowlist \<Rightarrow> bool" where
  "allowlist_wf a \<longleftrightarrow> finite (alExact a) \<and> finite (alServices a) \<and>
     (\<forall>e \<in> alExact a. exact_entry e) \<and> (\<forall>s \<in> alServices a. service_entry s)"

lemma Contains_byte: "Contains s [c] \<longleftrightarrow> c \<in> set s"
  by (induction s) (auto simp: HasPrefix_def)

text \<open>One step of the loop on an entry in normal form.\<close>

lemma addEntries_blank: "TrimSpace raw = [] \<Longrightarrow> addEntries (raw # raws) a = addEntries raws a"
  by simp

lemma addEntries_exact:
  assumes "exact_entry (TrimSpace raw)"
  shows "addEntries (raw # raws) a =
    addEntries raws (a\<lparr>alExact := insert (TrimSpace raw) (alExact a)\<rparr>)"
proof -
  from assms obtain s m where e: "TrimSpace raw = s @ CHR ''.'' # m" "s \<noteq> []" "m \<noteq> []" "m \<noteq> ''*''"
      "CHR ''.'' \<notin> set s" "CHR ''.'' \<notin> set m"
    by (auto simp: exact_entry_def)
  then show ?thesis by (simp add: Cut_append Contains_byte)
qed

lemma addEntries_service:
  assumes "TrimSpace raw = s @ ''.*''" and "s \<noteq> []" and "CHR ''.'' \<notin> set s"
  shows "addEntries (raw # raws) a =
    addEntries raws (a\<lparr>alServices := insert s (alServices a)\<rparr>)"
  using assms by (simp add: Cut_append Contains_byte)

text \<open>Every accepted entry is blank, exact or a wildcard; anything else is an error.\<close>

lemma entry_cases:
  obtains (blank) "TrimSpace raw = []"
  | (exact) "exact_entry (TrimSpace raw)"
  | (service) s where "TrimSpace raw = s @ ''.*''" "service_entry s"
  | (bad) e where "\<And>raws a. addEntries (raw # raws) a = Inl e"
proof (cases "TrimSpace raw = []")
  case False
  obtain sv rest ok where c: "Cut (TrimSpace raw) CHR ''.'' = (sv, rest, ok)"
    by (cases "Cut (TrimSpace raw) CHR ''.''") auto
  show ?thesis
  proof (cases "\<not> ok \<or> sv = [] \<or> rest = [] \<or> Contains rest ''.''")
    case True
    show ?thesis
    proof (cases "\<not> ok \<or> sv = [] \<or> rest = []")
      case True
      then show ?thesis using False c
        by (intro bad) (simp only: addEntries.simps Let_def c prod.case if_False if_True)
    next
      case no: False
      with True have "Contains rest ''.''" by simp
      then show ?thesis using False c no
        by (intro bad) (simp only: addEntries.simps Let_def c prod.case if_False if_True)
    qed
  next
    case ok: False
    then have e: "TrimSpace raw = sv @ CHR ''.'' # rest" "CHR ''.'' \<notin> set sv" "CHR ''.'' \<notin> set rest"
      using Cut_True [of "TrimSpace raw" "CHR ''.''" sv rest] c by (auto simp: Contains_byte)
    have i: "TrimSpace (sv @ CHR ''.'' # rest) = sv @ CHR ''.'' # rest"
      using TrimSpace_idem [of raw] e(1) by simp
    show ?thesis
    proof (cases "rest = ''*''")
      case True
      with e i ok show ?thesis by (intro service [of sv]) (auto simp: service_entry_def)
    next
      case False
      with e i ok have "exact_entry (TrimSpace raw)" by (auto simp: exact_entry_def)
      then show ?thesis by (rule exact)
    qed
  qed
qed (rule blank)

lemma addEntries_wf:
  "addEntries raws a = Inr b \<Longrightarrow> allowlist_wf a \<Longrightarrow> allowlist_wf b \<and> alPolicy b = alPolicy a"
proof (induction raws arbitrary: a)
  case Nil
  then show ?case by simp
next
  case (Cons raw raws)
  show ?case
  proof (cases raw rule: entry_cases)
    case blank
    with Cons show ?thesis by simp
  next
    case exact
    with Cons.prems have "allowlist_wf (a\<lparr>alExact := insert (TrimSpace raw) (alExact a)\<rparr>)"
      by (simp add: allowlist_wf_def)
    with Cons exact show ?thesis by (fastforce simp: addEntries_exact simp del: addEntries.simps)
  next
    case (service s)
    with Cons.prems have "allowlist_wf (a\<lparr>alServices := insert s (alServices a)\<rparr>)"
      by (simp add: allowlist_wf_def)
    with Cons service show ?thesis
      by (fastforce simp: addEntries_service service_entry_def simp del: addEntries.simps)
  next
    case (bad e)
    with Cons.prems show ?thesis by simp
  qed
qed

lemma NewAllowlist_wf:
  assumes "NewAllowlist es p = Inr a"
  shows "allowlist_wf a \<and> alPolicy a = p"
proof -
  let ?a0 = "\<lparr>alPolicy = p, alExact = {}, alServices = {}\<rparr>"
  have "allowlist_wf ?a0" by (simp add: allowlist_wf_def)
  with assms show ?thesis using addEntries_wf [of es ?a0 a] by (simp add: NewAllowlist_def)
qed

subsection \<open>The sets an entry list denotes\<close>

definition exacts_of :: "string list \<Rightarrow> string set" where
  "exacts_of raws = {TrimSpace r |r. r \<in> set raws \<and> exact_entry (TrimSpace r)}"

definition services_of :: "string list \<Rightarrow> string set" where
  "services_of raws = {s. service_entry s \<and> (\<exists>r \<in> set raws. TrimSpace r = s @ ''.*'')}"

definition entry_ok :: "string \<Rightarrow> bool" where
  "entry_ok raw \<longleftrightarrow> TrimSpace raw = [] \<or>
     (\<exists>s m. TrimSpace raw = s @ CHR ''.'' # m \<and> s \<noteq> [] \<and> m \<noteq> [] \<and>
            CHR ''.'' \<notin> set s \<and> CHR ''.'' \<notin> set m)"

lemma split_dot_unique:
  assumes "s @ CHR ''.'' # m = s' @ CHR ''.'' # m'" "CHR ''.'' \<notin> set s" "CHR ''.'' \<notin> set s'"
  shows "s = s' \<and> m = m'"
proof -
  have "(s, m, True) = Cut (s @ CHR ''.'' # m) CHR ''.''"
    by (rule Cut_append [OF assms(2), symmetric])
  also have "\<dots> = (s', m', True)"
    by (subst assms(1)) (rule Cut_append [OF assms(3)])
  finally show ?thesis by simp
qed

lemma not_exact_blank: "\<not> exact_entry []"
  by (simp add: exact_entry_def)

lemma not_exact_star:
  assumes "CHR ''.'' \<notin> set s"
  shows "\<not> exact_entry (s @ ''.*'')"
proof
  assume "exact_entry (s @ ''.*'')"
  then obtain s' m where "s @ CHR ''.'' # ''*'' = s' @ CHR ''.'' # m" "m \<noteq> ''*''" "CHR ''.'' \<notin> set s'"
    by (auto simp: exact_entry_def)
  with split_dot_unique [of s "''*''" s' m] assms show False by simp
qed

lemma exact_entry_not_star: "exact_entry (s @ ''.*'') \<Longrightarrow> service_entry s \<Longrightarrow> False"
  using not_exact_star [of s] by (simp add: service_entry_def)

lemma exact_entry_ok: "exact_entry (TrimSpace raw) \<Longrightarrow> entry_ok raw"
  by (auto simp: exact_entry_def entry_ok_def)

lemma service_entry_ok: "TrimSpace raw = s @ ''.*'' \<Longrightarrow> service_entry s \<Longrightarrow> entry_ok raw"
  by (force simp: service_entry_def entry_ok_def)

lemma entry_ok_cases:
  assumes "entry_ok raw"
  shows "TrimSpace raw = [] \<or> exact_entry (TrimSpace raw) \<or>
    (\<exists>s. TrimSpace raw = s @ ''.*'' \<and> service_entry s)"
proof (cases "TrimSpace raw = []")
  case False
  with assms obtain s m where e: "TrimSpace raw = s @ CHR ''.'' # m" "s \<noteq> []" "m \<noteq> []"
      "CHR ''.'' \<notin> set s" "CHR ''.'' \<notin> set m"
    by (auto simp: entry_ok_def)
  have i: "TrimSpace (s @ CHR ''.'' # m) = s @ CHR ''.'' # m"
    using TrimSpace_idem [of raw] e(1) by simp
  show ?thesis
  proof (cases "m = ''*''")
    case True
    with e i have "service_entry s" by (simp add: service_entry_def)
    with True e show ?thesis by blast
  next
    case False
    with e i have "exact_entry (TrimSpace raw)" by (auto simp: exact_entry_def)
    then show ?thesis by blast
  qed
qed simp

lemma addEntries_ok:
  assumes "\<forall>raw \<in> set raws. entry_ok raw"
  shows "addEntries raws a =
    Inr (a\<lparr>alExact := alExact a \<union> exacts_of raws, alServices := alServices a \<union> services_of raws\<rparr>)"
  using assms
proof (induction raws arbitrary: a)
  case Nil
  show ?case by (simp add: exacts_of_def services_of_def)
next
  case (Cons raw raws)
  from Cons.prems consider (blank) "TrimSpace raw = []" | (exact) "exact_entry (TrimSpace raw)"
    | (service) s where "TrimSpace raw = s @ ''.*''" "service_entry s"
    using entry_ok_cases [of raw] by auto
  then show ?case
  proof cases
    case blank
    then have "exacts_of (raw # raws) = exacts_of raws" "services_of (raw # raws) = services_of raws"
      by (auto simp: exacts_of_def services_of_def not_exact_blank)
    with blank Cons show ?thesis by simp
  next
    case exact
    then have "exacts_of (raw # raws) = insert (TrimSpace raw) (exacts_of raws)"
        "services_of (raw # raws) = services_of raws"
      by (auto simp: exacts_of_def services_of_def dest: exact_entry_not_star)
    with exact Cons show ?thesis
      by (simp add: addEntries_exact Un_insert_right del: addEntries.simps)
  next
    case (service s)
    then have "exacts_of (raw # raws) = exacts_of raws"
        "services_of (raw # raws) = insert s (services_of raws)"
      by (auto simp: exacts_of_def services_of_def dest: exact_entry_not_star)
    with service Cons show ?thesis
      by (simp add: addEntries_service service_entry_def Un_insert_right del: addEntries.simps)
  qed
qed

lemma addEntries_bad:
  assumes "\<exists>raw \<in> set raws. \<not> entry_ok raw"
  shows "\<exists>e. addEntries raws a = Inl e"
  using assms
proof (induction raws arbitrary: a)
  case (Cons raw raws)
  show ?case
  proof (cases raw rule: entry_cases)
    case blank
    then have "entry_ok raw" by (simp add: entry_ok_def)
    with Cons blank show ?thesis by simp
  next
    case exact
    with Cons show ?thesis using exact_entry_ok [OF exact]
      by (simp add: addEntries_exact del: addEntries.simps)
  next
    case (service s)
    with Cons show ?thesis using service_entry_ok [OF service]
      by (simp add: addEntries_service service_entry_def del: addEntries.simps)
  next
    case (bad e)
    then show ?thesis by blast
  qed
qed simp

lemma NewAllowlist_Inr_iff:
  "NewAllowlist es p = Inr a \<longleftrightarrow> (\<forall>raw \<in> set es. entry_ok raw) \<and>
     a = \<lparr>alPolicy = p, alExact = exacts_of es, alServices = services_of es\<rparr>"
proof (cases "\<forall>raw \<in> set es. entry_ok raw")
  case True
  then show ?thesis by (auto simp: NewAllowlist_def addEntries_ok)
next
  case False
  then obtain e where "NewAllowlist es p = Inl e"
    using addEntries_bad by (metis NewAllowlist_def)
  with False show ?thesis by auto
qed

lemma finite_exacts_of [simp]: "finite (exacts_of es)"
proof -
  have "exacts_of es \<subseteq> TrimSpace ` set es" by (auto simp: exacts_of_def)
  then show ?thesis by (rule finite_subset) simp
qed

lemma finite_services_of [simp]: "finite (services_of es)"
proof -
  have "services_of es \<subseteq> (\<lambda>r. take (length (TrimSpace r) - 2) (TrimSpace r)) ` set es"
    by (force simp: services_of_def image_iff)
  then show ?thesis by (rule finite_subset) simp
qed

subsection \<open>The decision\<close>

text \<open>The methods a receiver lets through.\<close>

definition permitted :: "Allowlist option \<Rightarrow> string set" where
  "permitted r =
     (case r of
        None \<Rightarrow> UNIV
      | Some a \<Rightarrow>
          let listed = alExact a \<union> {m. \<exists>s \<in> alServices a. SplitMethod m = Some s}
          in if alPolicy a = PolicyDefault
             then (if alExact a = {} \<and> alServices a = {} then UNIV else listed)
             else if alPolicy a = PolicyDenyEmpty then listed
             else {})"

definition allowlist_valid :: "Allowlist option \<Rightarrow> bool" where
  "allowlist_valid r = (case r of None \<Rightarrow> True | Some a \<Rightarrow> allowlist_wf a)"

lemma allows_iff: "allows a m \<longleftrightarrow> m \<in> alExact a \<or> (\<exists>s \<in> alServices a. SplitMethod m = Some s)"
  by (auto simp: allows_def split: option.split)

lemma Allowed_iff: "allowlist_valid r \<Longrightarrow> Allowed r m = None \<longleftrightarrow> m \<in> permitted r"
  by (auto simp: Allowed_def permitted_def allowlist_valid_def allowlist_wf_def allows_iff Let_def
      PolicyDefault_def PolicyDenyEmpty_def card_gt_0_iff split: option.splits)

interpretation al: allowlister Allowed permitted allowlist_valid
  by unfold_locales (rule Allowed_iff)

lemma NewAllowlist_valid: "NewAllowlist es p = Inr a \<Longrightarrow> allowlist_valid (Some a)"
  by (simp add: allowlist_valid_def NewAllowlist_wf)

subsection \<open>Properties\<close>

text \<open>The trimmed entries of a list, blank ones left out: what the configuration says.\<close>

definition listed_entries :: "string list \<Rightarrow> string set" where
  "listed_entries es = TrimSpace ` set es - {[]}"

lemma listed_exact_or_service:
  assumes "\<forall>raw \<in> set es. entry_ok raw"
  shows "listed_entries es = exacts_of es \<union> (\<lambda>s. s @ ''.*'') ` services_of es"
proof (intro equalityI subsetI)
  fix e assume "e \<in> listed_entries es"
  then obtain r where r: "r \<in> set es" "e = TrimSpace r" "TrimSpace r \<noteq> []"
    by (auto simp: listed_entries_def)
  with assms entry_ok_cases [of r] consider (ex) "exact_entry e"
    | (sv) s where "e = s @ ''.*''" "service_entry s" by auto
  then show "e \<in> exacts_of es \<union> (\<lambda>s. s @ ''.*'') ` services_of es"
  proof cases
    case ex
    then show ?thesis using r by (auto simp: exacts_of_def)
  next
    case (sv s)
    then have "s \<in> services_of es" using r by (auto simp: services_of_def)
    with sv show ?thesis by blast
  qed
next
  fix e assume "e \<in> exacts_of es \<union> (\<lambda>s. s @ ''.*'') ` services_of es"
  then consider (ex) r where "r \<in> set es" "e = TrimSpace r" "exact_entry e"
    | (sv) s r where "e = s @ ''.*''" "r \<in> set es" "TrimSpace r = s @ ''.*''"
    by (auto simp: exacts_of_def services_of_def)
  then show "e \<in> listed_entries es"
  proof cases
    case ex
    then have "e \<noteq> []" by (auto simp: not_exact_blank)
    with ex show ?thesis by (auto simp: listed_entries_def)
  next
    case sv
    then show ?thesis by (auto simp: listed_entries_def) (metis imageI)
  qed
qed

lemma SplitMethod_star: "SplitMethod m = Some s \<Longrightarrow> s \<noteq> [] \<and> CHR ''.'' \<notin> set s"
  by (auto simp: SplitMethod_Some_iff)

lemma listed_permitted:
  assumes "\<forall>raw \<in> set es. entry_ok raw"
  shows "m \<in> exacts_of es \<or> (\<exists>s \<in> services_of es. SplitMethod m = Some s) \<longleftrightarrow>
    m \<in> listed_entries es \<or> (\<exists>s. SplitMethod m = Some s \<and> s @ ''.*'' \<in> listed_entries es)"
proof -
  have star: "SplitMethod (s @ ''.*'') = Some s" if "s \<in> services_of es" for s
    using that by (auto simp: SplitMethod_Some_iff services_of_def service_entry_def)
  have ex: "s @ ''.*'' \<notin> exacts_of es" if "SplitMethod m = Some s" for s
    using not_exact_star [of s] SplitMethod_star [OF that] by (auto simp: exacts_of_def)
  show ?thesis
    using star ex by (auto simp: listed_exact_or_service [OF assms])
qed

text \<open>
  \<open>NewAllowlist\<close> accepts an entry list exactly when every entry that is not blank has,
  after trimming, the form "left.right" with both parts non-empty and no other dot.
\<close>

theorem NewAllowlist_accepts_iff:
  "(\<exists>a. NewAllowlist entries policy = Inr a) \<longleftrightarrow>
   (\<forall>raw \<in> set entries. TrimSpace raw \<noteq> [] \<longrightarrow>
      (\<exists>l r. TrimSpace raw = l @ CHR ''.'' # r \<and> l \<noteq> [] \<and> r \<noteq> [] \<and>
             CHR ''.'' \<notin> set l \<and> CHR ''.'' \<notin> set r))"
  by (simp add: NewAllowlist_Inr_iff entry_ok_def imp_conv_disj)

theorem NewAllowlist_accepts_iff_witness:
  "\<not> (\<exists>a. NewAllowlist [''a.b.*''] PolicyDefault = Inr a)"
proof -
  have t: "TrimSpace ''a.b.*'' = ''a.b.*''" by (simp add: graphic_def)
  have "\<not> (\<exists>l r. ''a.b.*'' = l @ CHR ''.'' # r \<and> l \<noteq> [] \<and> r \<noteq> [] \<and>
             CHR ''.'' \<notin> set l \<and> CHR ''.'' \<notin> set r)"
    by (auto simp: Cons_eq_append_conv)
  then show ?thesis
    using NewAllowlist_accepts_iff [of "[''a.b.*'']" PolicyDefault] t by auto
qed

text \<open>
  C30: the decision of an allowlist built under the default policy. A method is allowed
  exactly when the list has no entry but blank ones, or the method is one of the trimmed
  entries, or its service has a wildcard entry.
\<close>

theorem default_policy_decision:
  assumes "NewAllowlist entries PolicyDefault = Inr a"
  shows "Allowed (Some a) m = None \<longleftrightarrow>
    listed_entries entries = {} \<or> m \<in> listed_entries entries \<or>
    (\<exists>s. SplitMethod m = Some s \<and> s @ ''.*'' \<in> listed_entries entries)"
proof -
  have ok: "\<forall>raw \<in> set entries. entry_ok raw"
    and a: "a = \<lparr>alPolicy = PolicyDefault, alExact = exacts_of entries, alServices = services_of entries\<rparr>"
    using assms by (auto simp: NewAllowlist_Inr_iff)
  have "listed_entries entries = {} \<longleftrightarrow> exacts_of entries = {} \<and> services_of entries = {}"
    by (simp add: listed_exact_or_service [OF ok])
  moreover have "Allowed (Some a) m = None \<longleftrightarrow> m \<in> permitted (Some a)"
    by (rule al.allowed_iff [OF NewAllowlist_valid [OF assms]])
  ultimately show ?thesis
    using listed_permitted [OF ok, of m] by (simp add: permitted_def a) blast
qed

theorem default_policy_decision_witness:
  "\<exists>a. NewAllowlist [''miki.*'', '' ''] PolicyDefault = Inr a \<and>
     Allowed (Some a) ''miki.A.B'' = None \<and> Allowed (Some a) ''mailer.Send'' \<noteq> None"
proof -
  let ?es = "[''miki.*'', '' '']"
  have t: "TrimSpace ''miki.*'' = ''miki.*''" "TrimSpace '' '' = []"
    by (simp_all add: graphic_def)
  then have l: "listed_entries ?es = {''miki.*''}" by (auto simp: listed_entries_def)
  let ?a = "\<lparr>alPolicy = PolicyDefault, alExact = {}, alServices = {''miki''}\<rparr>"
  have a: "NewAllowlist ?es PolicyDefault = Inr ?a"
    by (simp add: NewAllowlist_def t Cut_def HasPrefix_def)
  have "SplitMethod ''miki.A.B'' = Some ''miki''" "SplitMethod ''mailer.Send'' = Some ''mailer''"
    by (simp_all add: SplitMethod_def)
  with default_policy_decision [OF a, of "''miki.A.B''"]
    default_policy_decision [OF a, of "''mailer.Send''"] l a
  show ?thesis by auto
qed

lemma entries_of_wf:
  assumes "allowlist_wf a" and "set es = alExact a" and "set ss = alServices a"
  shows "(\<forall>raw \<in> set (Entries (Some a) es ss). entry_ok raw) \<and>
    exacts_of (Entries (Some a) es ss) = alExact a \<and>
    services_of (Entries (Some a) es ss) = alServices a"
proof -
  have x: "exact_entry e" "TrimSpace e = e" if "e \<in> alExact a" for e
    using assms(1) that by (auto simp: allowlist_wf_def exact_entry_def)
  have v: "service_entry s" "TrimSpace (s @ ''.*'') = s @ ''.*''" if "s \<in> alServices a" for s
    using assms(1) that by (auto simp: allowlist_wf_def service_entry_def)
  have e: "set (Entries (Some a) es ss) = alExact a \<union> (\<lambda>s. s @ ''.*'') ` alServices a"
    using assms by (auto simp: Entries_def)
  have "entry_ok raw" if "raw \<in> set (Entries (Some a) es ss)" for raw
    using that x v exact_entry_ok [of raw] service_entry_ok [of raw] by (auto simp: e)
  moreover have "exacts_of (Entries (Some a) es ss) = alExact a"
  proof (intro equalityI subsetI)
    fix t assume "t \<in> exacts_of (Entries (Some a) es ss)"
    then obtain r where r: "r \<in> alExact a \<union> (\<lambda>s. s @ ''.*'') ` alServices a"
        "t = TrimSpace r" "exact_entry t"
      by (auto simp: exacts_of_def e)
    show "t \<in> alExact a"
    proof (cases "r \<in> alExact a")
      case True
      then show ?thesis using x r(2) by simp
    next
      case False
      then obtain s where "r = s @ ''.*''" "s \<in> alServices a" using r(1) by auto
      with v [of s] r(2,3) show ?thesis using exact_entry_not_star [of s] by simp
    qed
  next
    fix t assume "t \<in> alExact a"
    then show "t \<in> exacts_of (Entries (Some a) es ss)"
      using x [of t] by (auto simp: exacts_of_def e intro: exI [of _ t])
  qed
  moreover have "s \<in> services_of (Entries (Some a) es ss)" if "s \<in> alServices a" for s
    using v [OF that] that by (auto simp: services_of_def e)
  moreover have "s \<in> alServices a" if s: "s \<in> services_of (Entries (Some a) es ss)" for s
  proof -
    from s obtain r where r: "r \<in> alExact a \<union> (\<lambda>s. s @ ''.*'') ` alServices a"
        "TrimSpace r = s @ ''.*''" "service_entry s"
      by (auto simp: services_of_def e)
    have "r \<notin> alExact a"
      using x [of r] r exact_entry_not_star [of s] by auto
    then obtain s' where "r = s' @ ''.*''" "s' \<in> alServices a" using r(1) by auto
    then show ?thesis using v [of s'] r(2) by simp
  qed
  ultimately show ?thesis by blast
qed

text \<open>
  The listing of an allowlist, in any iteration order of its two maps, is an entry list
  that builds the same allowlist again.
\<close>

theorem Entries_roundtrip:
  assumes "NewAllowlist entries policy = Inr a"
    and "set es = alExact a" and "set ss = alServices a"
  shows "NewAllowlist (Entries (Some a) es ss) policy = Inr a"
proof -
  have wf: "allowlist_wf a" "alPolicy a = policy" using NewAllowlist_wf [OF assms(1)] by auto
  have "(\<forall>raw \<in> set (Entries (Some a) es ss). entry_ok raw) \<and>
      exacts_of (Entries (Some a) es ss) = alExact a \<and>
      services_of (Entries (Some a) es ss) = alServices a"
    by (rule entries_of_wf [OF wf(1) assms(2,3)])
  then show ?thesis using wf by (simp add: NewAllowlist_Inr_iff)
qed

theorem Entries_roundtrip_witness:
  "\<exists>a. NewAllowlist [''kata.*'', ''miki.Get''] PolicyDenyEmpty = Inr a \<and>
     NewAllowlist (Entries (Some a) [''miki.Get''] [''kata'']) PolicyDenyEmpty = Inr a"
proof -
  have t: "TrimSpace ''kata.*'' = ''kata.*''" "TrimSpace ''miki.Get'' = ''miki.Get''" by (simp_all add: graphic_def)
  let ?a = "\<lparr>alPolicy = PolicyDenyEmpty, alExact = {''miki.Get''}, alServices = {''kata''}\<rparr>"
  have a: "NewAllowlist [''kata.*'', ''miki.Get''] PolicyDenyEmpty = Inr ?a"
    by (simp add: NewAllowlist_def t Cut_def HasPrefix_def)
  show ?thesis
    using a Entries_roundtrip [OF a, of "[''miki.Get'']" "[''kata'']"] by auto
qed

text \<open>
  Adding entries to a list that already filters never takes a permission away: what the
  allowlist of \<open>es\<close> lets through, the allowlist of any longer list does too, under either
  policy.
\<close>

theorem allowlist_monotone:
  assumes "NewAllowlist es policy = Inr a" and "NewAllowlist es' policy = Inr b"
    and "set es \<subseteq> set es'" and "policy = PolicyDefault \<Longrightarrow> listed_entries es \<noteq> {}"
    and "Allowed (Some a) m = None"
  shows "Allowed (Some b) m = None"
proof (rule al.larger_allows [OF NewAllowlist_valid [OF assms(1)] NewAllowlist_valid [OF assms(2)] _ assms(5)])
  have a: "a = \<lparr>alPolicy = policy, alExact = exacts_of es, alServices = services_of es\<rparr>"
      "\<forall>raw \<in> set es. entry_ok raw"
    and b: "b = \<lparr>alPolicy = policy, alExact = exacts_of es', alServices = services_of es'\<rparr>"
    using assms by (auto simp: NewAllowlist_Inr_iff)
  have "exacts_of es \<subseteq> exacts_of es'" "services_of es \<subseteq> services_of es'"
    using assms(3) by (auto simp: exacts_of_def services_of_def)
  moreover have "policy = PolicyDefault \<Longrightarrow> \<not> (exacts_of es = {} \<and> services_of es = {})"
    using assms(4) listed_exact_or_service [OF a(2)] by auto
  ultimately show "permitted (Some a) \<subseteq> permitted (Some b)"
    by (auto simp: permitted_def a b Let_def)
qed

theorem allowlist_monotone_witness:
  "\<exists>a b. NewAllowlist [''a.B''] PolicyDefault = Inr a \<and> NewAllowlist [''a.B'', ''c.*''] PolicyDefault = Inr b \<and>
     Allowed (Some b) ''a.B'' = None"
proof -
  have t: "TrimSpace ''a.B'' = ''a.B''" "TrimSpace ''c.*'' = ''c.*''" by (simp_all add: graphic_def)
  let ?a = "\<lparr>alPolicy = PolicyDefault, alExact = {''a.B''}, alServices = {}\<rparr>"
  let ?b = "\<lparr>alPolicy = PolicyDefault, alExact = {''a.B''}, alServices = {''c''}\<rparr>"
  have a: "NewAllowlist [''a.B''] PolicyDefault = Inr ?a"
    and b: "NewAllowlist [''a.B'', ''c.*''] PolicyDefault = Inr ?b"
    by (simp_all add: NewAllowlist_def t Cut_def HasPrefix_def)
  have "listed_entries [''a.B''] \<noteq> {}" "Allowed (Some ?a) ''a.B'' = None"
    by (simp_all add: listed_entries_def t Allowed_def allows_def)
  with allowlist_monotone [OF a b, of "''a.B''"] a b show ?thesis by auto
qed

end
