(* ===== verification/ProxyInvoke.thy ===== *)
theory ProxyInvoke
  imports ProxyInterfaces GoContext JsonStream
begin

text \<open>
  The invoker of the proxy (\<open>v3/proxy/invoke.go\<close>): options, identity headers, payload limit,
  and \<open>Invoke\<close> with its four early returns and its deferred calls. What the operating system
  decides is in an environment of oracles indexed by the moment: the timer of
  \<open>context.WithTimeout\<close> and the branch the \<open>select\<close> on the concurrency channel takes
  (\<open>None\<close>: the slot; \<open>Some e\<close>: \<open>callCtx.Done()\<close> with \<open>callCtx.Err() = e\<close>). The client a
  factory makes is an interface value of unknown state type \<open>'c\<close>; its methods act on what lies
  behind it, of type \<open>'o\<close> (the network, for the default factory), which outlives the client. The
  trace records the calls \<open>Invoke\<close> makes, oldest first. Logging is left out.
\<close>

datatype event =
    EvAcquire
  | EvRelease
  | EvNewClient Target
  | EvCall string bytes header
  | EvClose
  | EvObserve CallStats

record 'o world =
  wTick :: nat
  wTrace :: "event list"
  wOut :: 'o

definition emit :: "event \<Rightarrow> 'o world \<Rightarrow> 'o world" where
  "emit e w = w\<lparr>wTick := Suc (wTick w), wTrace := wTrace w @ [e]\<rparr>"

record env =
  eTimer :: "nat \<Rightarrow> nat option"
  eSelect :: "nat \<Rightarrow> ctx \<Rightarrow> err option"
  eLatency :: "nat \<Rightarrow> int"

text \<open>
  The \<open>rpcClient\<close> interface and the factory \<open>newClient\<close>. Each takes the moment and what is behind the
  client, and gives its result, the client after it, and both anew.
\<close>

record ('c, 'o) client_api =
  newClient :: "Target \<Rightarrow> nat \<Rightarrow> 'o \<Rightarrow> (err + 'c) \<times> nat \<times> 'o"
  clientCall :: "'c \<Rightarrow> ctx \<Rightarrow> string \<Rightarrow> bytes \<Rightarrow> nat \<Rightarrow> 'o \<Rightarrow> ((err option \<times> bytes) \<times> 'c) \<times> nat \<times> 'o"
  clientClose :: "'c \<Rightarrow> nat \<Rightarrow> 'o \<Rightarrow> (err option \<times> 'c) \<times> nat \<times> 'o"

definition outside :: "(nat \<Rightarrow> 'o \<Rightarrow> 'x \<times> nat \<times> 'o) \<Rightarrow> 'o world \<Rightarrow> 'x \<times> 'o world" where
  "outside f w = (case f (wTick w) (wOut w) of (x, t, out) \<Rightarrow> (x, w\<lparr>wTick := t, wOut := out\<rparr>))"

record ('c, 'o) RPCInvoker =
  invMaxPayload :: int
  invCallTimeout :: int
  invLimitCh :: "nat option"
  invNewClient :: "('c, 'o) client_api"

definition defaultCallTimeout :: int where
  "defaultCallTimeout = 30 * 1000000000"

type_synonym ('c, 'o) InvokerOption = "('c, 'o) RPCInvoker \<Rightarrow> ('c, 'o) RPCInvoker"

definition InvokerWithMaxPayload :: "int \<Rightarrow> ('c, 'o) InvokerOption" where
  "InvokerWithMaxPayload value = (\<lambda>i. i\<lparr>invMaxPayload := value\<rparr>)"

definition InvokerWithCallTimeout :: "int \<Rightarrow> ('c, 'o) InvokerOption" where
  "InvokerWithCallTimeout value = (\<lambda>i. i\<lparr>invCallTimeout := value\<rparr>)"

definition InvokerWithMaxConcurrent :: "int \<Rightarrow> ('c, 'o) InvokerOption" where
  "InvokerWithMaxConcurrent value =
     (\<lambda>i. if value > 0 then i\<lparr>invLimitCh := Some (nat value)\<rparr> else i)"

definition InvokerWithClientFactory :: "('c, 'o) client_api \<Rightarrow> ('c, 'o) InvokerOption" where
  "InvokerWithClientFactory value = (\<lambda>i. i\<lparr>invNewClient := value\<rparr>)"

definition NewRPCInvoker :: "('c, 'o) client_api \<Rightarrow> ('c, 'o) InvokerOption list \<Rightarrow> ('c, 'o) RPCInvoker" where
  "NewRPCInvoker defaultClientFactory opts =
     foldl (\<lambda>iv opt. opt iv)
       \<lparr>invMaxPayload = 0, invCallTimeout = defaultCallTimeout, invLimitCh = None,
        invNewClient = defaultClientFactory\<rparr> opts"

definition payloadLimit :: "('c, 'o) RPCInvoker \<Rightarrow> int" where
  "payloadLimit iv = (if invMaxPayload iv > 0 then invMaxPayload iv else DefaultMaxJSONBody)"

subsection \<open>identityHeaders\<close>

definition identityHeaderKeys :: "string list" where
  "identityHeaderKeys = [''X-User-Id'', ''X-Tenant-Id'', ''X-Groups'', ''X-Request-Id'']"

definition mdGet :: "(string \<rightharpoonup> string) \<Rightarrow> string \<Rightarrow> string" where
  "mdGet md k = (case md k of None \<Rightarrow> [] | Some v \<Rightarrow> v)"

definition fromMetadata :: "rpc_lib \<Rightarrow> (string \<rightharpoonup> string) \<Rightarrow> header \<Rightarrow> string list \<Rightarrow> header" where
  "fromMetadata R md =
     foldl (\<lambda>h k. if mdGet md k \<noteq> [] then hSet R h k (mdGet md k) else h)"

definition fromInbound :: "rpc_lib \<Rightarrow> header \<Rightarrow> header \<Rightarrow> string list \<Rightarrow> header" where
  "fromInbound R inbound =
     foldl (\<lambda>h k. if hValues R inbound k \<noteq> [] then h(k \<mapsto> hValues R inbound k) else h)"

definition identityHeaders :: "rpc_lib \<Rightarrow> ctx \<Rightarrow> (string \<rightharpoonup> string) \<Rightarrow> header" where
  "identityHeaders R ctx md =
     fromInbound R (ContextHeader R ctx)
       (fromMetadata R md Map.empty identityHeaderKeys) identityHeaderKeys"

subsection \<open>Invoke\<close>

definition callFail :: "string \<Rightarrow> string \<Rightarrow> string \<Rightarrow> bytes \<times> CallError option" where
  "callFail code msg tgt = ([], Some \<lparr>ceCode = code, ceMessage = msg, ceTarget = tgt\<rparr>)"

text \<open>The two returns before anything is done: the context, and the size of the request.\<close>

definition admit :: "('c, 'o) RPCInvoker \<Rightarrow> ctx \<Rightarrow> Target \<Rightarrow> bytes \<Rightarrow> nat \<Rightarrow> (bytes \<times> CallError option) option" where
  "admit iv ctx target payload now =
     (let tgtStr = targetString target in
      case ctxErr ctx now of
        Some e \<Rightarrow> Some (callFail CodeTransport (err_text e) tgtStr)
      | None \<Rightarrow>
          let limit = payloadLimit iv in
          if int (length payload) > limit
          then Some (callFail CodePayload
                 (Sprintf ''request payload %d bytes exceeds limit %d''
                    [AInt (int (length payload)), AInt limit] []) tgtStr)
          else None)"

definition callContext :: "('c, 'o) RPCInvoker \<Rightarrow> env \<Rightarrow> ctx \<Rightarrow> nat \<Rightarrow> ctx" where
  "callContext iv env ctx now = WithTimeout (eTimer env now) now (invCallTimeout iv) ctx"

text \<open>The second branch of the \<open>select\<close>.\<close>

definition slotRefused :: "Target \<Rightarrow> err \<Rightarrow> bytes \<times> CallError option" where
  "slotRefused target e =
     callFail CodeTransport (''proxy: concurrency limit exceeded: '' @ err_text e) (targetString target)"

definition openClient :: "('c, 'o) RPCInvoker \<Rightarrow> Target \<Rightarrow> 'o world \<Rightarrow> (err + 'c) \<times> 'o world" where
  "openClient iv target w =
     (case outside (newClient (invNewClient iv) target) w of (r, w') \<Rightarrow> (r, emit (EvNewClient target) w'))"

definition clientFailed :: "Target \<Rightarrow> err \<Rightarrow> bytes \<times> CallError option" where
  "clientFailed target e = callFail CodeTransport (''proxy: client init: '' @ err_text e) (targetString target)"

text \<open>\<open>client.Call\<close> under the identity headers, and the result the return makes of it.\<close>

definition runCall ::
  "('c, 'o) RPCInvoker \<Rightarrow> rpc_lib \<Rightarrow> ctx \<Rightarrow> ctx \<Rightarrow> Target \<Rightarrow> string \<Rightarrow> bytes \<Rightarrow> (string \<rightharpoonup> string) \<Rightarrow> 'c \<Rightarrow>
   'o world \<Rightarrow> ((bytes \<times> CallError option) \<times> 'c) \<times> 'o world" where
  "runCall iv R ctx callCtx target method payload md client w =
     (let limit = payloadLimit iv;
          callCtx' = ContextWithHeaders R callCtx (identityHeaders R ctx md)
      in case outside (clientCall (invNewClient iv) client callCtx' method payload) w of
           (((e, reply), client'), w') \<Rightarrow>
             (((case e of
                  Some e \<Rightarrow> ([], Some (mapCallError e (targetString target)))
                | None \<Rightarrow>
                    if int (length reply) > limit
                    then callFail CodePayload
                           (Sprintf ''response payload %d bytes exceeds limit %d''
                              [AInt (int (length reply)), AInt limit] []) (targetString target)
                    else (reply, None)),
               client'),
              emit (EvCall method payload (ContextHeader R callCtx')) w'))"

text \<open>The deferred \<open>client.Close\<close>; its error is dropped.\<close>

definition closeClient :: "('c, 'o) RPCInvoker \<Rightarrow> 'c \<Rightarrow> 'o world \<Rightarrow> 'o world" where
  "closeClient iv client w =
     (case outside (clientClose (invNewClient iv) client) w of (_, w') \<Rightarrow> emit EvClose w')"

text \<open>
  From \<open>inv.newClient(target)\<close> to the return, the deferred \<open>client.Close\<close> included.
\<close>

definition invokeClient ::
  "('c, 'o) RPCInvoker \<Rightarrow> rpc_lib \<Rightarrow> ctx \<Rightarrow> ctx \<Rightarrow> Target \<Rightarrow> string \<Rightarrow> bytes \<Rightarrow> (string \<rightharpoonup> string) \<Rightarrow> 'o world \<Rightarrow>
   (bytes \<times> CallError option) \<times> 'o world" where
  "invokeClient iv R ctx callCtx target method payload md w =
     (case openClient iv target w of
        (Inl e, w1) \<Rightarrow> (clientFailed target e, w1)
      | (Inr client, w1) \<Rightarrow>
          (case runCall iv R ctx callCtx target method payload md client w1 of
             ((res, client'), w2) \<Rightarrow> (res, closeClient iv client' w2)))"

definition Invoke ::
  "('c, 'o) RPCInvoker \<Rightarrow> rpc_lib \<Rightarrow> env \<Rightarrow> ctx \<Rightarrow> Target \<Rightarrow> string \<Rightarrow> bytes \<Rightarrow> (string \<rightharpoonup> string) \<Rightarrow> 'o world \<Rightarrow>
   (bytes \<times> CallError option) \<times> 'o world" where
  "Invoke iv R env ctx target method payload md w =
     (case admit iv ctx target payload (wTick w) of
        Some res \<Rightarrow> (res, w)
      | None \<Rightarrow>
          let callCtx = callContext iv env ctx (wTick w) in
          case invLimitCh iv of
            None \<Rightarrow> invokeClient iv R ctx callCtx target method payload md w
          | Some cap \<Rightarrow>
              (case eSelect env (wTick w) callCtx of
                 Some e \<Rightarrow> (slotRefused target e, w)
               | None \<Rightarrow>
                   (case invokeClient iv R ctx callCtx target method payload md (emit EvAcquire w) of
                      (res, w') \<Rightarrow> (res, emit EvRelease w'))))"

subsection \<open>Headers\<close>

lemma hSet_eq: "rpc_lib_ok R K \<Longrightarrow> k \<in> K \<Longrightarrow> hSet R h k v = h(k \<mapsto> [v])"
  by (simp add: rpc_lib_ok_def)

lemma hValues_eq: "rpc_lib_ok R K \<Longrightarrow> k \<in> K \<Longrightarrow> hValues R h k = (case h k of None \<Rightarrow> [] | Some vs \<Rightarrow> vs)"
  by (simp add: rpc_lib_ok_def)

lemma fromMetadata_apply:
  assumes "rpc_lib_ok R K" and "set ks \<subseteq> K"
  shows "fromMetadata R md h ks k =
    (if k \<in> set ks \<and> mdGet md k \<noteq> [] then Some [mdGet md k] else h k)"
  using assms(2)
  by (induction ks arbitrary: h) (auto simp: fromMetadata_def hSet_eq [OF assms(1)])

lemma fromInbound_apply:
  "fromInbound R i h ks k =
    (if k \<in> set ks \<and> hValues R i k \<noteq> [] then Some (hValues R i k) else h k)"
  by (induction ks arbitrary: h) (auto simp: fromInbound_def)

abbreviation idKeys :: "string set" where
  "idKeys \<equiv> set identityHeaderKeys"

lemma identityHeaders_apply:
  assumes "rpc_lib_ok R idKeys"
  shows "identityHeaders R c md k =
    (if k \<notin> idKeys then None
     else if hValues R (ContextHeader R c) k \<noteq> [] then Some (hValues R (ContextHeader R c) k)
     else if mdGet md k \<noteq> [] then Some [mdGet md k] else None)"
  by (simp add: identityHeaders_def fromInbound_apply fromMetadata_apply [OF assms order_refl])

subsection \<open>Results and traces\<close>

lemma callFail_simps [simp]:
  "fst (callFail c m t) = []" "callFail c m t \<noteq> (out, None)"
  "callFail c m t = (out, Some ce) \<longleftrightarrow> out = [] \<and> ce = \<lparr>ceCode = c, ceMessage = m, ceTarget = t\<rparr>"
  by (auto simp: callFail_def)

definition in_slot :: "('c, 'o) RPCInvoker \<Rightarrow> event list \<Rightarrow> event list" where
  "in_slot iv evs = (if invLimitCh iv = None then evs else EvAcquire # evs @ [EvRelease])"

definition call_events ::
  "rpc_lib \<Rightarrow> ctx \<Rightarrow> Target \<Rightarrow> string \<Rightarrow> bytes \<Rightarrow> (string \<rightharpoonup> string) \<Rightarrow> event list" where
  "call_events R c t m p md = [EvNewClient t, EvCall m p (identityHeaders R c md), EvClose]"

lemma emit_simps [simp]:
  "wTrace (emit e w) = wTrace w @ [e]" "wOut (emit e w) = wOut w" "wTick (emit e w) = Suc (wTick w)"
  by (simp_all add: emit_def)

lemma outside_trace: "outside f w = (x, w') \<Longrightarrow> wTrace w' = wTrace w"
  by (auto simp: outside_def split: prod.splits)

lemma openClient_trace: "openClient iv t w = (r, w') \<Longrightarrow> wTrace w' = wTrace w @ [EvNewClient t]"
  by (auto simp: openClient_def dest: outside_trace split: prod.splits)

lemma closeClient_trace: "wTrace (closeClient iv cl w) = wTrace w @ [EvClose]"
  by (auto simp: closeClient_def dest: outside_trace split: prod.splits)

lemma runCall_trace:
  assumes "rpc_lib_ok R idKeys" and "runCall iv R c cc t m p md cl w = (r, w')"
  shows "wTrace w' = wTrace w @ [EvCall m p (identityHeaders R c md)]"
  using assms by (auto simp: runCall_def rpc_lib_ok_def Let_def dest!: outside_trace split: prod.splits)

text \<open>The two ways \<open>invokeClient\<close> goes.\<close>

lemma invokeClient_cases:
  assumes "invokeClient iv R c cc t m p md w = (res, w')"
  obtains (no_client) e where "openClient iv t w = (Inl e, w')" "clientFailed t e = res"
  | (called) cl w1 cl' w2 where "openClient iv t w = (Inr cl, w1)"
      "runCall iv R c cc t m p md cl w1 = ((res, cl'), w2)" "w' = closeClient iv cl' w2"
proof -
  obtain r w1 where o: "openClient iv t w = (r, w1)" by (metis prod.exhaust)
  show ?thesis
  proof (cases r)
    case (Inl e)
    then show ?thesis using assms o by (intro no_client [of e]) (simp_all add: invokeClient_def)
  next
    case (Inr cl)
    obtain res' cl' w2 where k: "runCall iv R c cc t m p md cl w1 = ((res', cl'), w2)" by (metis prod.exhaust)
    then have "res' = res" "w' = closeClient iv cl' w2" using assms o Inr by (simp_all add: invokeClient_def)
    then show ?thesis using called [of cl w1 cl' w2] o Inr k by simp
  qed
qed

lemma clientFailed_simps [simp]:
  "clientFailed t e = (out, ce) \<longleftrightarrow> out = [] \<and>
     ce = Some \<lparr>ceCode = CodeTransport, ceMessage = ''proxy: client init: '' @ err_text e, ceTarget = targetString t\<rparr>"
  by (auto simp: clientFailed_def callFail_def)

lemma runCall_result:
  assumes "runCall iv R c cc t m p md cl w = (((out, ce), cl'), w')"
  shows "case ce of
      Some e \<Rightarrow> out = [] \<and> ceCode e \<in> invoke_codes \<and> ceTarget e = targetString t
    | None \<Rightarrow> int (length out) \<le> payloadLimit iv"
  using assms
  by (auto simp: runCall_def Let_def invoke_codes_def mapCallError_code callFail_def
      split: prod.splits option.splits if_splits)

lemma invokeClient_trace:
  assumes "rpc_lib_ok R idKeys" and "invokeClient iv R c cc t m p md w = ((out, ce), w')"
  shows "wTrace w' = wTrace w @ [EvNewClient t] \<and> (\<exists>e. ce = Some e \<and> ceCode e = CodeTransport) \<or>
    wTrace w' = wTrace w @ call_events R c t m p md"
  using assms(2)
proof (cases rule: invokeClient_cases)
  case (no_client e)
  then show ?thesis using openClient_trace [of iv t w] by simp
next
  case (called cl w1 cl' w2)
  then show ?thesis
    using openClient_trace [OF called(1)] runCall_trace [OF assms(1) called(2)]
    by (simp add: closeClient_trace call_events_def)
qed

lemma invokeClient_error:
  assumes "invokeClient iv R c cc t m p md w = ((out, Some ce), w')"
  shows "out = [] \<and> ceCode ce \<in> invoke_codes \<and> ceTarget ce = targetString t"
  using assms
  by (cases rule: invokeClient_cases) (auto simp: invoke_codes_def dest!: runCall_result)

lemma invokeClient_ok:
  assumes "invokeClient iv R c cc t m p md w = ((out, None), w')"
  shows "int (length out) \<le> payloadLimit iv"
  using assms
  by (cases rule: invokeClient_cases) (auto dest!: runCall_result)

text \<open>The branches of \<open>Invoke\<close>.\<close>

lemma Invoke_cases:
  assumes "Invoke iv R env c t m p md w = ((out, ce), w')"
  obtains (ctx_done) e where "ctxErr c (wTick w) = Some e" "w' = w"
      "callFail CodeTransport (err_text e) (targetString t) = (out, ce)"
  | (too_large) msg where "ctxErr c (wTick w) = None" "int (length p) > payloadLimit iv" "w' = w"
      "callFail CodePayload msg (targetString t) = (out, ce)"
  | (no_slot) e msg where "ctxErr c (wTick w) = None" "int (length p) \<le> payloadLimit iv"
      "invLimitCh iv \<noteq> None" "w' = w" "callFail CodeTransport msg (targetString t) = (out, ce)"
  | (called) cc w1 w2 where "ctxErr c (wTick w) = None" "int (length p) \<le> payloadLimit iv"
      "cc = callContext iv env c (wTick w)"
      "w1 = (if invLimitCh iv = None then w else emit EvAcquire w)"
      "invokeClient iv R c cc t m p md w1 = ((out, ce), w2)"
      "w' = (if invLimitCh iv = None then w2 else emit EvRelease w2)"
proof (cases "ctxErr c (wTick w)")
  case (Some e)
  with assms have r: "w' = w" "callFail CodeTransport (err_text e) (targetString t) = (out, ce)"
    by (simp_all add: Invoke_def admit_def Let_def del: callFail_simps)
  show ?thesis by (rule ctx_done [OF Some r])
next
  case None
  show ?thesis
  proof (cases "int (length p) > payloadLimit iv")
    case True
    with assms None have r: "w' = w" "\<exists>msg. callFail CodePayload msg (targetString t) = (out, ce)"
      by (auto simp add: Invoke_def admit_def Let_def simp del: callFail_simps Sprintf.simps)
    then show ?thesis using too_large [OF None True] by blast
  next
    case False
    then have le: "int (length p) \<le> payloadLimit iv" by simp
    let ?cc = "callContext iv env c (wTick w)"
    have admitted: "admit iv c t p (wTick w) = None" using None le by (simp add: admit_def)
    consider (free) "invLimitCh iv = None" | (slot) cap where "invLimitCh iv = Some cap"
        "eSelect env (wTick w) ?cc = None"
      | (full) cap e where "invLimitCh iv = Some cap" "eSelect env (wTick w) ?cc = Some e"
      by (cases "invLimitCh iv"; cases "eSelect env (wTick w) ?cc") auto
    then show ?thesis
    proof cases
      case free
      with assms None False have "invokeClient iv R c ?cc t m p md w = ((out, ce), w')"
        by (simp add: Invoke_def admitted Let_def)
      then show ?thesis using called [OF None le refl refl] free by simp
    next
      case slot
      with assms None False obtain w2 where
        "invokeClient iv R c ?cc t m p md (emit EvAcquire w) = ((out, ce), w2)" "w' = emit EvRelease w2"
        by (auto simp: Invoke_def admitted Let_def split: prod.splits)
      then show ?thesis using called [OF None le refl refl] slot by simp
    next
      case full
      with assms None False have r: "w' = w" "\<exists>msg. callFail CodeTransport msg (targetString t) = (out, ce)"
        by (auto simp add: Invoke_def admitted slotRefused_def Let_def simp del: callFail_simps)
      have "invLimitCh iv \<noteq> None" using full by simp
      with r show ?thesis using no_slot [OF None le] by blast
    qed
  qed
qed

lemma Invoke_error:
  assumes "Invoke iv R env c t m p md w = ((out, Some ce), w')"
  shows "out = [] \<and> ceCode ce \<in> invoke_codes \<and> ceTarget ce = targetString t"
  using assms
  by (cases rule: Invoke_cases) (auto simp: callFail_def invoke_codes_def dest!: invokeClient_error)

interpretation rpcinv: invoker_api "Invoke iv R env" for iv R env
  by unfold_locales (use Invoke_error in blast)+

subsection \<open>Properties\<close>

text \<open>
  C29: the headers that leave the proxy. For every key outside the whitelist of four nothing
  goes out; for a whitelisted key the values of the inbound context win, then the metadata
  of the request, then nothing. (\<open>rpc_lib_ok\<close> states the documented behaviour of the header
  operations of \<open>go.slink.ws/rpc\<close> on the four keys.)
\<close>

theorem identityHeaders_whitelist:
  assumes "rpc_lib_ok R (set identityHeaderKeys)"
  shows "identityHeaders R c md k =
    (if k \<notin> {''X-User-Id'', ''X-Tenant-Id'', ''X-Groups'', ''X-Request-Id''} then None
     else case ContextHeader R c k of
            Some (v # vs) \<Rightarrow> Some (v # vs)
          | _ \<Rightarrow> (case md k of Some (x # xs) \<Rightarrow> Some [x # xs] | _ \<Rightarrow> None))"
proof -
  have i: "idKeys = {''X-User-Id'', ''X-Tenant-Id'', ''X-Groups'', ''X-Request-Id''}"
    by (simp add: identityHeaderKeys_def)
  show ?thesis
    unfolding i [symmetric] using assms
    by (simp add: identityHeaders_apply hValues_eq mdGet_def split: option.split list.split)
qed

theorem identityHeaders_whitelist_witness:
  "identityHeaders plain_rpc_lib (background\<lparr>ctxHeader := [''X-User-Id'' \<mapsto> [''ctx'']]\<rparr>)
     [''X-User-Id'' \<mapsto> ''md'', ''X-Groups'' \<mapsto> ''g1,g2'', ''X-Sneaky'' \<mapsto> ''drop''] =
   [''X-User-Id'' \<mapsto> [''ctx''], ''X-Groups'' \<mapsto> [''g1,g2'']]"
proof
  fix k
  show "identityHeaders plain_rpc_lib (background\<lparr>ctxHeader := [''X-User-Id'' \<mapsto> [''ctx'']]\<rparr>)
     [''X-User-Id'' \<mapsto> ''md'', ''X-Groups'' \<mapsto> ''g1,g2'', ''X-Sneaky'' \<mapsto> ''drop''] k =
   [''X-User-Id'' \<mapsto> [''ctx''], ''X-Groups'' \<mapsto> [''g1,g2'']] k"
    using identityHeaders_whitelist [OF plain_rpc_lib_ok]
    by (simp add: plain_rpc_lib_def background_def)
qed

text \<open>
  C17: what one invocation does to the outside, and what its error says of it. Either it stops
  before making a client, with the payload code exactly when the context is not done and the request
  is too large, and the transport code otherwise; or the client could not be made, which is a
  transport error; or it makes exactly one client, passes it the method and the payload unchanged with
  the identity headers only, and closes it. With a concurrency limit all of this happens
  between taking a slot and giving it back, on every path. A nil error means the whole sequence ran.
\<close>

theorem Invoke_trace:
  assumes "rpc_lib_ok R (set identityHeaderKeys)"
    and "Invoke iv R env c t m p md w = ((out, ce), w')"
  shows "\<exists>evs. wTrace w' = wTrace w @ evs \<and>
    (evs = [] \<and> (\<exists>e. ce = Some e \<and> ceCode e =
        (if ctxErr c (wTick w) = None \<and> payloadLimit iv < int (length p) then CodePayload else CodeTransport)) \<or>
     evs = in_slot iv [EvNewClient t] \<and> (\<exists>e. ce = Some e \<and> ceCode e = CodeTransport) \<or>
     evs = in_slot iv [EvNewClient t, EvCall m p (identityHeaders R c md), EvClose])"
  using assms(2)
proof (cases rule: Invoke_cases)
  case (called cc w1 w2)
  then show ?thesis
    using invokeClient_trace [OF assms(1) called(5)]
    by (auto simp: in_slot_def call_events_def)
qed (auto simp: callFail_def)

text \<open>
  The result of one invocation. With an error there is no payload, the code is one of
  transport, payload, backend and no-JSON, and the target is the printed address; without
  one, the context was not done, and the request and the response are within the limit in
  force (the option's, or 4 MiB).
\<close>

theorem Invoke_result:
  assumes "Invoke iv R env c t m p md w = ((out, ce), w')"
  shows "(case ce of
            Some e \<Rightarrow> out = [] \<and> ceTarget e = targetString t \<and>
              ceCode e \<in> {CodeTransport, CodePayload, CodeBackend, CodeNoJSON}
          | None \<Rightarrow> ctxErr c (wTick w) = None \<and>
              int (length p) \<le> payloadLimit iv \<and> int (length out) \<le> payloadLimit iv) \<and>
    0 < payloadLimit iv"
proof (cases ce)
  case (Some e)
  then show ?thesis using Invoke_error [of iv R env c t m p md w out e w'] assms
    by (simp add: invoke_codes_def payloadLimit_def DefaultMaxJSONBody_def)
next
  case None
  from assms have "ctxErr c (wTick w) = None \<and> int (length p) \<le> payloadLimit iv \<and> int (length out) \<le> payloadLimit iv"
    by (cases rule: Invoke_cases) (auto simp: None callFail_def dest: invokeClient_ok)
  with None show ?thesis by (simp add: payloadLimit_def DefaultMaxJSONBody_def)
qed

text \<open>An in-memory client for the witnesses: it answers every call with a fixed reply.\<close>

definition echo_api :: "bytes \<Rightarrow> (unit, unit) client_api" where
  "echo_api reply = \<lparr>newClient = (\<lambda>_ now out. (Inr (), now, out)),
     clientCall = (\<lambda>_ c _ _ now out. (((ctxErr c now, reply), ()), now, out)),
     clientClose = (\<lambda>_ now out. ((None, ()), now, out))\<rparr>"

definition calm_env :: env where
  "calm_env = \<lparr>eTimer = (\<lambda>_. None), eSelect = (\<lambda>_ _. None), eLatency = (\<lambda>_. 0)\<rparr>"

definition world_of :: "'o \<Rightarrow> 'o world" where
  "world_of out = \<lparr>wTick = 0, wTrace = [], wOut = out\<rparr>"

abbreviation world0 :: "unit world" where
  "world0 \<equiv> world_of ()"

definition target0 :: Target where
  "target0 = \<lparr>tAddr = ''svc'', tPort = 1234, tSecret = [], tTransport = ''json''\<rparr>"

lemmas invoke_eval = Invoke_def invokeClient_def admit_def callContext_def openClient_def runCall_def
  closeClient_def outside_def NewRPCInvoker_def InvokerWithMaxConcurrent_def calm_env_def world_of_def
  payloadLimit_def DefaultMaxJSONBody_def defaultCallTimeout_def WithTimeout_def plain_rpc_lib_def emit_def
  Let_def

lemma echo_Invoke:
  "Invoke (NewRPCInvoker (echo_api [7]) [InvokerWithMaxConcurrent 1]) plain_rpc_lib calm_env
     background target0 ''miki.Get'' [1, 2] Map.empty world0 =
   (([7], None), \<lparr>wTick = 5, wTrace = [EvAcquire, EvNewClient target0,
      EvCall ''miki.Get'' [1, 2] (identityHeaders plain_rpc_lib background Map.empty), EvClose, EvRelease], wOut = ()\<rparr>)"
  by (simp add: invoke_eval echo_api_def background_def)

theorem Invoke_trace_witness:
  "\<exists>w'. wTrace w' = [EvAcquire, EvNewClient target0, EvCall ''miki.Get'' [1, 2] Map.empty, EvClose, EvRelease] \<and>
    Invoke (NewRPCInvoker (echo_api [7]) [InvokerWithMaxConcurrent 1]) plain_rpc_lib calm_env
     background target0 ''miki.Get'' [1, 2] Map.empty world0 = (([7], None), w')"
proof -
  have "identityHeaders plain_rpc_lib background Map.empty k = None" for k
    by (simp add: identityHeaders_apply [OF plain_rpc_lib_ok])
      (simp add: plain_rpc_lib_def background_def mdGet_def)
  then have h: "identityHeaders plain_rpc_lib background Map.empty = Map.empty" by blast
  show ?thesis
    using Invoke_trace [OF plain_rpc_lib_ok echo_Invoke] echo_Invoke
    by (auto simp: world_of_def h in_slot_def NewRPCInvoker_def InvokerWithMaxConcurrent_def)
qed

theorem Invoke_result_witness:
  "int (length [1 :: byte, 2]) \<le> payloadLimit (NewRPCInvoker (echo_api [7]) [InvokerWithMaxConcurrent 1])"
  using Invoke_result [OF echo_Invoke] by simp

end
