(* ===== verification/ProxyService.thy ===== *)
theory ProxyService
  imports AllowlistPolicy StaticRouting ProxyInvoke
begin

text \<open>
  The proxy service (\<open>v3/proxy/service.go\<close>): options, construction, \<open>Call\<close> and the deferred
  \<open>observe\<close>. The interface fields are optional functions, \<open>None\<close> being the nil interface; the
  state the invoker and the metrics work on is the world of \<open>ProxyInvoke\<close>. Log lines are left
  out. The locale at the end proves what \<open>Call\<close> promises from the contracts of the three
  interfaces only; it is interpreted on \<open>StaticRouter\<close>, \<open>Allowlist\<close> and \<open>RPCInvoker\<close>.
\<close>

type_synonym resolver = "string \<Rightarrow> err + Target"
type_synonym allow_fn = "string \<Rightarrow> err option"
type_synonym 'o invoke_fn = "ctx \<Rightarrow> Target \<Rightarrow> string \<Rightarrow> bytes \<Rightarrow> (string \<rightharpoonup> string) \<Rightarrow> 'o world \<Rightarrow>
  (bytes \<times> CallError option) \<times> 'o world"
type_synonym 'o metrics = "CallStats \<Rightarrow> 'o world \<Rightarrow> 'o world"

record 'o Service =
  svRouter :: "resolver option"
  svAllow :: "allow_fn option"
  svInvoker :: "'o invoke_fn option"
  svMetrics :: "'o metrics"

definition ServiceName :: string where
  "ServiceName = ''proxy''"

definition noopMetrics :: "'o metrics" where
  "noopMetrics = (\<lambda>_ w. w)"

text \<open>A metrics implementation that records what it is given.\<close>

definition traceMetrics :: "'o metrics" where
  "traceMetrics = (\<lambda>st w. emit (EvObserve st) w)"

definition WithMetrics :: "'o metrics option \<Rightarrow> 'o Service \<Rightarrow> 'o Service" where
  "WithMetrics value = (\<lambda>s. case value of None \<Rightarrow> s | Some m \<Rightarrow> s\<lparr>svMetrics := m\<rparr>)"

definition NewService ::
  "resolver option \<Rightarrow> allow_fn option \<Rightarrow> 'o invoke_fn option \<Rightarrow> ('o Service \<Rightarrow> 'o Service) list \<Rightarrow> 'o Service" where
  "NewService router allow invoker opts =
     foldl (\<lambda>s opt. opt s)
       \<lparr>svRouter = router, svAllow = allow, svInvoker = invoker, svMetrics = noopMetrics\<rparr> opts"

definition observe ::
  "'o Service \<Rightarrow> GenericRequest \<Rightarrow> GenericResponse \<Rightarrow> string \<Rightarrow> nat \<Rightarrow> int \<Rightarrow> 'o world \<Rightarrow> 'o world" where
  "observe s req res targetStr reqBytes latency w =
     (let stats = \<lparr>csMethod = reqMethod req, csTarget = targetStr, csOutcome = [], csCode = [],
                   csLatency = latency, csReqBytes = reqBytes, csResBytes = length (resPayload res)\<rparr>;
          stats' = (case resError res of
             Some e \<Rightarrow> stats\<lparr>csOutcome := OutcomeError, csCode := ceCode e,
                             csTarget := (if targetStr = [] then ceTarget e else targetStr)\<rparr>
           | None \<Rightarrow> stats\<lparr>csOutcome := OutcomeOK\<rparr>)
      in svMetrics s stats' w)"

definition setError :: "string \<Rightarrow> string \<Rightarrow> GenericResponse \<Rightarrow> GenericResponse" where
  "setError code msg res =
     res\<lparr>resError := Some \<lparr>ceCode = code, ceMessage = msg, ceTarget = []\<rparr>\<rparr>"

text \<open>
  The body of \<open>Call\<close> after its two guards: the filled response, \<open>targetStr\<close> at the return, and
  the world before the deferred \<open>observe\<close>.
\<close>

definition callBody ::
  "resolver \<Rightarrow> allow_fn option \<Rightarrow> 'o invoke_fn \<Rightarrow> ctx \<Rightarrow> GenericRequest \<Rightarrow> GenericResponse \<Rightarrow> 'o world \<Rightarrow>
   GenericResponse \<times> string \<times> 'o world" where
  "callBody router allow invoker ctx req res w =
     (case SplitMethod (reqMethod req) of
        None \<Rightarrow>
          (setError CodeBadRequest
             (Sprintf (''method must be '' @ dquoted ''Service.Method'' @ '', got %q'')
                [AStr (reqMethod req)] []) res, [], w)
      | Some service \<Rightarrow>
          (case (case allow of None \<Rightarrow> None | Some al \<Rightarrow> al (reqMethod req)) of
             Some e \<Rightarrow> (setError CodeAllowlist (err_text e) res, [], w)
           | None \<Rightarrow>
               (case router service of
                  Inl e \<Rightarrow> (setError CodeRoute (err_text e) res, [], w)
                | Inr target \<Rightarrow>
                    (case invoker ctx target (reqMethod req) (reqPayload req) (reqMetadata req) w of
                       ((payload, Some callErr), w') \<Rightarrow>
                         (res\<lparr>resError := Some callErr\<rparr>, targetString target, w')
                     | ((payload, None), w') \<Rightarrow>
                         (res\<lparr>resPayload := payload\<rparr>, targetString target, w')))))"

definition Call ::
  "'o Service \<Rightarrow> env \<Rightarrow> ctx \<Rightarrow> GenericRequest \<Rightarrow> GenericResponse option \<Rightarrow> 'o world \<Rightarrow>
   err option \<times> GenericResponse option \<times> 'o world" where
  "Call s env ctx req res w =
     (case res of
        None \<Rightarrow> (Some (Errorf ''proxy: nil response argument'' [] None), None, w)
      | Some r \<Rightarrow>
          (case (svRouter s, svInvoker s) of
             (Some router, Some invoker) \<Rightarrow>
               (case callBody router (svAllow s) invoker ctx req r w of
                  (r', targetStr, w') \<Rightarrow>
                    (None, Some r',
                     observe s req r' targetStr (length (reqPayload req)) (eLatency env (wTick w)) w'))
           | _ \<Rightarrow> (Some (Errorf ''proxy: service is not fully configured'' [] None), Some r, w)))"

definition emptyResponse :: GenericResponse where
  "emptyResponse = \<lparr>resPayload = [], resError = None\<rparr>"

subsection \<open>What the contracts give\<close>

locale proxy =
  router_api resolve routes + allowlister allowed permits valid + invoker_api invoke
  for resolve :: "'r \<Rightarrow> string \<Rightarrow> err + Target"
    and routes :: "'r \<Rightarrow> string \<rightharpoonup> Target"
    and allowed :: "'a \<Rightarrow> string \<Rightarrow> err option"
    and permits :: "'a \<Rightarrow> string set"
    and valid :: "'a \<Rightarrow> bool"
    and invoke :: "ctx \<Rightarrow> Target \<Rightarrow> string \<Rightarrow> bytes \<Rightarrow> (string \<rightharpoonup> string) \<Rightarrow> 'o world \<Rightarrow>
      (bytes \<times> CallError option) \<times> 'o world"
begin

text \<open>The outcome of \<open>callBody\<close> in terms of the abstract route table and permission set.\<close>

lemma body_bad_request:
  "SplitMethod (reqMethod req) = None \<Longrightarrow>
   \<exists>msg. callBody (resolve r) al invoke c req res w = (setError CodeBadRequest msg res, [], w)"
  by (auto simp: callBody_def)

lemma body_denied:
  assumes "SplitMethod (reqMethod req) = Some s" "valid a" "reqMethod req \<notin> permits a"
  shows "\<exists>msg. callBody (resolve r) (Some (allowed a)) invoke c req res w =
    (setError CodeAllowlist msg res, [], w)"
  using denied_error [OF assms(2,3)] assms(1) by (auto simp: callBody_def)

lemma body_no_route:
  assumes "SplitMethod (reqMethod req) = Some s" "valid a" "reqMethod req \<in> permits a" "routes r s = None"
  shows "\<exists>msg. callBody (resolve r) (Some (allowed a)) invoke c req res w =
    (setError CodeRoute msg res, [], w)"
  using resolve_None [OF assms(4)] allowed_iff [OF assms(2), of "reqMethod req"] assms(1,3)
  by (auto simp: callBody_def)

lemma body_invoked:
  assumes "SplitMethod (reqMethod req) = Some s" "valid a" "reqMethod req \<in> permits a" "routes r s = Some t"
    and "invoke c t (reqMethod req) (reqPayload req) (reqMetadata req) w = ((out, ce), w')"
  shows "callBody (resolve r) (Some (allowed a)) invoke c req res w =
    ((case ce of Some e \<Rightarrow> res\<lparr>resError := Some e\<rparr> | None \<Rightarrow> res\<lparr>resPayload := out\<rparr>), targetString t, w')"
  using resolve_Some [OF assms(4)] allowed_iff [OF assms(2), of "reqMethod req"] assms
  by (auto simp: callBody_def split: option.split)

text \<open>The four ways a call ends, with what each does to the world.\<close>

lemma body_cases:
  assumes "valid a" "callBody (resolve r) (Some (allowed a)) invoke c req res w = (res', tgt, w')"
  obtains (bad_request) msg where "SplitMethod (reqMethod req) = None"
      "res' = setError CodeBadRequest msg res" "tgt = []" "w' = w"
  | (denied) s msg where "SplitMethod (reqMethod req) = Some s" "reqMethod req \<notin> permits a"
      "res' = setError CodeAllowlist msg res" "tgt = []" "w' = w"
  | (no_route) s msg where "SplitMethod (reqMethod req) = Some s" "reqMethod req \<in> permits a"
      "routes r s = None" "res' = setError CodeRoute msg res" "tgt = []" "w' = w"
  | (invoked) s t out ce where "SplitMethod (reqMethod req) = Some s" "reqMethod req \<in> permits a"
      "routes r s = Some t"
      "invoke c t (reqMethod req) (reqPayload req) (reqMetadata req) w = ((out, ce), w')"
      "res' = (case ce of Some e \<Rightarrow> res\<lparr>resError := Some e\<rparr> | None \<Rightarrow> res\<lparr>resPayload := out\<rparr>)"
      "tgt = targetString t"
proof (cases "SplitMethod (reqMethod req)")
  case None
  then show ?thesis using body_bad_request [OF None] assms(2) bad_request by (metis prod.inject)
next
  case (Some s)
  show ?thesis
  proof (cases "reqMethod req \<in> permits a")
    case False
    then show ?thesis using body_denied [OF Some assms(1) False] assms(2) denied [OF Some False]
      by (metis prod.inject)
  next
    case True
    show ?thesis
    proof (cases "routes r s")
      case None
      then show ?thesis
        using body_no_route [OF Some assms(1) True None] assms(2) no_route [OF Some True None]
        by (metis prod.inject)
    next
      case (Some t)
      obtain out ce w2 where i:
        "invoke c t (reqMethod req) (reqPayload req) (reqMetadata req) w = ((out, ce), w2)"
        by (metis prod.exhaust)
      show ?thesis
        using body_invoked [OF \<open>SplitMethod _ = Some s\<close> assms(1) True Some i, of res] assms(2) i
          invoked [OF \<open>SplitMethod _ = Some s\<close> True Some]
        by simp
    qed
  qed
qed

end

interpretation px: proxy Resolve srTargets Allowed permitted allowlist_valid "Invoke iv R env" for iv R env
  by unfold_locales


subsection \<open>A configured service\<close>

text \<open>The service the three providers make, with a metrics implementation that records.\<close>

definition gateway ::
  "StaticRouter \<Rightarrow> Allowlist option \<Rightarrow> ('c, 'o) RPCInvoker \<Rightarrow> rpc_lib \<Rightarrow> env \<Rightarrow> 'o Service" where
  "gateway rt al iv R env =
     NewService (Some (Resolve rt)) (Some (Allowed al)) (Some (Invoke iv R env))
       [WithMetrics (Some traceMetrics)]"

lemma gateway_simps [simp]:
  "svRouter (gateway rt al iv R env) = Some (Resolve rt)"
  "svAllow (gateway rt al iv R env) = Some (Allowed al)"
  "svInvoker (gateway rt al iv R env) = Some (Invoke iv R env)"
  "svMetrics (gateway rt al iv R env) = traceMetrics"
  by (simp_all add: gateway_def NewService_def WithMetrics_def)

definition callStats :: "GenericRequest \<Rightarrow> GenericResponse \<Rightarrow> string \<Rightarrow> int \<Rightarrow> CallStats" where
  "callStats req res tgt latency =
     \<lparr>csMethod = reqMethod req,
      csTarget = (case resError res of Some e \<Rightarrow> if tgt = [] then ceTarget e else tgt | None \<Rightarrow> tgt),
      csOutcome = (if resError res = None then OutcomeOK else OutcomeError),
      csCode = (case resError res of Some e \<Rightarrow> ceCode e | None \<Rightarrow> []),
      csLatency = latency, csReqBytes = length (reqPayload req), csResBytes = length (resPayload res)\<rparr>"

lemma observe_traced:
  "svMetrics s = traceMetrics \<Longrightarrow>
     observe s req res tgt (length (reqPayload req)) l w = emit (EvObserve (callStats req res tgt l)) w"
  by (simp add: observe_def traceMetrics_def callStats_def Let_def split: option.split)

lemma Call_gateway:
  assumes "Call (gateway rt al iv R env) env c req (Some r) w = (e, res, w')"
  obtains res' tgt w1 where
    "callBody (Resolve rt) (Some (Allowed al)) (Invoke iv R env) c req r w = (res', tgt, w1)"
    "e = None" "res = Some res'"
    "w' = emit (EvObserve (callStats req res' tgt (eLatency env (wTick w)))) w1"
proof -
  obtain res' tgt w1 where b:
    "callBody (Resolve rt) (Some (Allowed al)) (Invoke iv R env) c req r w = (res', tgt, w1)"
    by (metis prod.exhaust)
  show ?thesis
    using assms by (intro that [OF b]) (simp_all add: Call_def b observe_traced)
qed

text \<open>The target a method goes to: named, permitted and in the table.\<close>

definition routed :: "StaticRouter \<Rightarrow> Allowlist option \<Rightarrow> string \<Rightarrow> Target option" where
  "routed rt al m =
     (case SplitMethod m of
        Some s \<Rightarrow> if m \<in> permitted al then srTargets rt s else None
      | None \<Rightarrow> None)"

lemma targetString_nonempty: "targetString t \<noteq> []"
  by (simp add: targetString_def JoinHostPort_def)

lemma Invoke_no_observe:
  assumes "rpc_lib_ok R idKeys" and "Invoke iv R env c t m p md w = ((out, ce), w')"
  shows "\<exists>evs. wTrace w' = wTrace w @ evs \<and> (\<forall>st. EvObserve st \<notin> set evs)"
  using assms(2)
proof (cases rule: Invoke_cases)
  case (called cc w1 w2)
  then show ?thesis
    using invokeClient_trace [OF assms(1) called(5)]
    by (auto simp: in_slot_def call_events_def)
qed auto

lemma setError_simps [simp]:
  "resPayload (setError code msg r) = resPayload r"
  "resError (setError code msg r) = Some \<lparr>ceCode = code, ceMessage = msg, ceTarget = []\<rparr>"
  by (simp_all add: setError_def)

subsection \<open>Properties\<close>

text \<open>
  The error channel of \<open>Call\<close>. The Go error is for programming errors only: it is set
  exactly when the response pointer is nil or the router or the invoker is missing, and then
  neither the response nor the outside world is touched; every other failure goes to the
  response.
\<close>

theorem Call_error_channel:
  assumes "Call s env c req r w = (e, r', w')"
  shows "(e \<noteq> None \<longleftrightarrow> r = None \<or> svRouter s = None \<or> svInvoker s = None) \<and>
    (e \<noteq> None \<longrightarrow> r' = r \<and> w' = w)"
  using assms by (auto simp: Call_def split: option.splits prod.splits)

theorem Call_error_channel_witness:
  "fst (Call (NewService None None None []) calm_env background
     \<lparr>reqMethod = ''a.B'', reqPayload = [], reqMetadata = Map.empty\<rparr> (Some emptyResponse) world0) \<noteq> None"
proof -
  obtain e r' w' where c: "Call (NewService None None None []) calm_env background
     \<lparr>reqMethod = ''a.B'', reqPayload = [], reqMetadata = Map.empty\<rparr> (Some emptyResponse) world0 = (e, r', w')"
    by (metis prod.exhaust)
  have "e \<noteq> None" using Call_error_channel [OF c] by (simp add: NewService_def)
  with c show ?thesis by simp
qed

text \<open>
  C1: no bypass. On a service made of a static router, an allowlist and the RPC invoker, a
  request whose method is malformed, is not permitted by the allowlist or has no route never
  reaches the invoker: the only thing that happens is the observation of the failed call, and
  nothing behind the clients is touched. The guards come in this order, and the code in the
  response tells which one it was.
\<close>

theorem Call_guards:
  assumes "NewAllowlist entries policy = Inr a"
    and "Call (gateway rt (Some a) iv R env) env c req (Some emptyResponse) w = (e, Some res, w')"
    and "\<not> (\<exists>s. SplitMethod (reqMethod req) = Some s \<and> reqMethod req \<in> permitted (Some a) \<and>
              srTargets rt s \<noteq> None)"
  shows "\<exists>st ce. wTrace w' = wTrace w @ [EvObserve st] \<and> wOut w' = wOut w \<and> csOutcome st = OutcomeError \<and>
    resError res = Some ce \<and> resPayload res = [] \<and> csCode st = ceCode ce \<and>
    ceCode ce = (if SplitMethod (reqMethod req) = None then CodeBadRequest
                 else if reqMethod req \<notin> permitted (Some a) then CodeAllowlist else CodeRoute)"
proof -
  obtain res' tgt w1 where b: "callBody (Resolve rt) (Some (Allowed (Some a))) (Invoke iv R env) c req
      emptyResponse w = (res', tgt, w1)"
    and r: "res = res'" "w' = emit (EvObserve (callStats req res' tgt (eLatency env (wTick w)))) w1"
    using assms(2) by (cases rule: Call_gateway) auto
  show ?thesis
    using NewAllowlist_valid [OF assms(1)] b
    by (cases rule: px.body_cases) (use assms(3) in \<open>auto simp: r callStats_def emptyResponse_def\<close>)
qed

text \<open>
  C16: one channel in the response. Starting from an empty response, a configured service
  fills the payload or the error, never both; an error has one of the seven codes, and a
  payload comes only from a call that passed every guard and is within the limit in force.
\<close>

theorem Call_response_contract:
  assumes "NewAllowlist entries policy = Inr a"
    and "Call (gateway rt (Some a) iv R env) env c req (Some emptyResponse) w = (e, Some res, w')"
  shows "case resError res of
      Some ce \<Rightarrow> resPayload res = [] \<and>
        ceCode ce \<in> {CodeBadRequest, CodeAllowlist, CodeRoute, CodeTransport, CodePayload, CodeBackend, CodeNoJSON}
    | None \<Rightarrow> reqMethod req \<in> permitted (Some a) \<and> ctxErr c (wTick w) = None \<and>
        (\<exists>s. SplitMethod (reqMethod req) = Some s \<and> srTargets rt s \<noteq> None) \<and>
        int (length (reqPayload req)) \<le> payloadLimit iv \<and> int (length (resPayload res)) \<le> payloadLimit iv"
proof -
  obtain res' tgt w1 where b: "callBody (Resolve rt) (Some (Allowed (Some a))) (Invoke iv R env) c req
      emptyResponse w = (res', tgt, w1)" and r: "res = res'"
    using assms(2) by (cases rule: Call_gateway) auto
  show ?thesis
    using NewAllowlist_valid [OF assms(1)] b
  proof (cases rule: px.body_cases)
    case (invoked s t out ce)
    show ?thesis
    proof (cases ce)
      case None
      have "ctxErr c (wTick w) = None \<and> int (length (reqPayload req)) \<le> payloadLimit iv \<and>
          int (length out) \<le> payloadLimit iv"
        using invoked(4) unfolding None
        by (cases rule: Invoke_cases) (auto simp: callFail_def dest: invokeClient_ok)
      with invoked show ?thesis by (simp add: r None emptyResponse_def)
    next
      case (Some x)
      then show ?thesis using invoked Invoke_error [of iv R env c t]
        by (auto simp: r emptyResponse_def invoke_codes_def)
    qed
  qed (simp_all add: r emptyResponse_def)
qed

text \<open>
  C18: every call of a configured service is observed exactly once, as its last effect, with
  the method, the sizes and the outcome that the response shows, and the address of the routed
  target, which is empty when the call never got a route.
\<close>

theorem Call_observed_once:
  assumes "rpc_lib_ok R (set identityHeaderKeys)" and "NewAllowlist entries policy = Inr a"
    and "Call (gateway rt (Some a) iv R env) env c req (Some r) w = (e, Some res, w')"
  shows "\<exists>evs st. wTrace w' = wTrace w @ evs @ [EvObserve st] \<and> (\<forall>st'. EvObserve st' \<notin> set evs) \<and>
    csMethod st = reqMethod req \<and> csReqBytes st = length (reqPayload req) \<and>
    csResBytes st = length (resPayload res) \<and>
    csOutcome st = (if resError res = None then OutcomeOK else OutcomeError) \<and>
    csCode st = (case resError res of Some ce \<Rightarrow> ceCode ce | None \<Rightarrow> []) \<and>
    csTarget st = (case routed rt (Some a) (reqMethod req) of Some t \<Rightarrow> targetString t | None \<Rightarrow> [])"
proof -
  obtain res' tgt w1 where b: "callBody (Resolve rt) (Some (Allowed (Some a))) (Invoke iv R env) c req
      r w = (res', tgt, w1)"
    and r: "res = res'" "w' = emit (EvObserve (callStats req res' tgt (eLatency env (wTick w)))) w1"
    using assms(3) by (cases rule: Call_gateway) auto
  have "(\<exists>evs. wTrace w1 = wTrace w @ evs \<and> (\<forall>st. EvObserve st \<notin> set evs)) \<and>
      csTarget (callStats req res' tgt (eLatency env (wTick w))) =
        (case routed rt (Some a) (reqMethod req) of Some t \<Rightarrow> targetString t | None \<Rightarrow> [])"
    using NewAllowlist_valid [OF assms(2)] b
  proof (cases rule: px.body_cases)
    case (invoked s t out ce)
    then show ?thesis
      using Invoke_no_observe [OF assms(1) invoked(4)] targetString_nonempty [of t]
      by (auto simp: callStats_def routed_def split: option.split)
  qed (auto simp: callStats_def routed_def)
  then show ?thesis by (auto simp: r callStats_def)
qed

subsection \<open>Witnesses\<close>

definition router0 :: StaticRouter where
  "router0 = \<lparr>srTargets = [''miki'' \<mapsto> target0]\<rparr>"

definition invoker0 :: "(unit, unit) RPCInvoker" where
  "invoker0 = NewRPCInvoker (echo_api [7]) [InvokerWithMaxConcurrent 1]"

definition allowlist0 :: Allowlist where
  "allowlist0 = \<lparr>alPolicy = PolicyDenyEmpty, alExact = {}, alServices = {''miki''}\<rparr>"

definition request0 :: "string \<Rightarrow> GenericRequest" where
  "request0 m = \<lparr>reqMethod = m, reqPayload = [1, 2], reqMetadata = Map.empty\<rparr>"

lemma allowlist0_made: "NewAllowlist [''miki.*''] PolicyDenyEmpty = Inr allowlist0"
proof -
  have "TrimSpace ''miki.*'' = ''miki.*''" by (simp add: graphic_def)
  then show ?thesis by (simp add: NewAllowlist_def Cut_def HasPrefix_def allowlist0_def)
qed

lemma Call_exists:
  obtains e res w' where "Call (gateway rt al iv R env) env c req (Some r) w = (e, Some res, w')"
proof -
  obtain res' tgt w1 where
    "callBody (Resolve rt) (Some (Allowed al)) (Invoke iv R env) c req r w = (res', tgt, w1)"
    by (metis prod.exhaust)
  then show ?thesis by (intro that) (simp add: Call_def)
qed

theorem Call_guards_witness:
  "\<exists>res w' st ce. Call (gateway router0 (Some allowlist0) invoker0 plain_rpc_lib calm_env) calm_env background
     (request0 ''mailer.Send'') (Some emptyResponse) world0 = (None, Some res, w') \<and>
     wTrace w' = [EvObserve st] \<and> resError res = Some ce \<and> ceCode ce = CodeAllowlist"
proof -
  obtain e res w' where c: "Call (gateway router0 (Some allowlist0) invoker0 plain_rpc_lib calm_env) calm_env
      background (request0 ''mailer.Send'') (Some emptyResponse) world0 = (e, Some res, w')"
    by (rule Call_exists)
  then have e: "e = None" by (cases rule: Call_gateway) simp
  have m: "SplitMethod ''mailer.Send'' = Some ''mailer''" by (simp add: SplitMethod_def)
  have n: "''mailer.Send'' \<notin> permitted (Some allowlist0)"
    by (simp add: permitted_def allowlist0_def PolicyDefault_def PolicyDenyEmpty_def m)
  show ?thesis
    using Call_guards [OF allowlist0_made c] c e
    by (simp add: request0_def m n world_of_def) metis
qed

theorem Call_response_contract_witness:
  "\<exists>res w'. Call (gateway router0 (Some allowlist0) invoker0 plain_rpc_lib calm_env) calm_env background
     (request0 ''miki.Get'') (Some emptyResponse) world0 = (None, Some res, w') \<and>
     resError res = None \<and> resPayload res = [7] \<and> int (length (resPayload res)) \<le> payloadLimit invoker0"
proof -
  have s: "SplitMethod ''miki.Get'' = Some ''miki''" by (simp add: SplitMethod_def)
  obtain e res w' where c: "Call (gateway router0 (Some allowlist0) invoker0 plain_rpc_lib calm_env) calm_env
      background (request0 ''miki.Get'') (Some emptyResponse) world0 = (e, Some res, w')"
    by (rule Call_exists)
  then have r: "e = None" "resError res = None" "resPayload res = [7]"
    by (auto simp: Call_def callBody_def request0_def s router0_def Resolve_def invoker0_def echo_Invoke
        Allowed_def allowlist0_def allows_def PolicyDefault_def PolicyDenyEmpty_def emptyResponse_def
        split: prod.splits)
  then show ?thesis using Call_response_contract [OF allowlist0_made c] c by simp
qed

theorem Call_observed_once_witness:
  "\<exists>res w' evs st. Call (gateway router0 (Some allowlist0) invoker0 plain_rpc_lib calm_env) calm_env background
     (request0 ''miki.Get'') (Some emptyResponse) world0 = (None, Some res, w') \<and>
     wTrace w' = evs @ [EvObserve st] \<and> csMethod st = ''miki.Get'' \<and> csReqBytes st = 2"
proof -
  obtain e res w' where c: "Call (gateway router0 (Some allowlist0) invoker0 plain_rpc_lib calm_env) calm_env
      background (request0 ''miki.Get'') (Some emptyResponse) world0 = (e, Some res, w')"
    by (rule Call_exists)
  then have "e = None" by (cases rule: Call_gateway) simp
  with c show ?thesis
    using Call_observed_once [OF plain_rpc_lib_ok allowlist0_made c]
    by (auto simp: request0_def world_of_def)
qed

end
