(* ===== verification/Rpc3Client.thy ===== *)
theory Rpc3Client
  imports Negotiate GoContext GoStrings
begin

text \<open>
  The v3 client (\<open>v3/client.go\<close>, \<open>v3/client_option.go\<close>): one lazily dialled connection, reset
  after every failed call, and the one-time fallback from JSON to the legacy codec. Dialling and
  the calls of the RPC library (\<open>go.slink.ws/rpc\<close>) are oracles indexed by the moment; the log
  records what happens to connections, oldest first. Each section under the mutex is one
  definition, so that \<open>Call\<close> is their composition. Logging and \<open>SetNoDelay\<close> are left out.
\<close>

datatype transportKind = TransportAuto | TransportJSON | TransportLegacy

type_synonym middleware = "ctx \<Rightarrow> ctx"

record CustomRpcClient =
  rcAddress :: string
  rcPort :: int
  rcCryptoKey :: bytes
  rcMaxJSONBody :: int
  rcTransport :: transportKind
  rcMiddlewares :: "middleware list"
  rcCl :: "nat option"
  rcActive :: transportKind
  rcFallback :: bool

type_synonym ClientOption = "CustomRpcClient \<Rightarrow> CustomRpcClient"

definition ClientWithCryptoKey :: "bytes \<Rightarrow> ClientOption" where
  "ClientWithCryptoKey value = (\<lambda>s. s\<lparr>rcCryptoKey := value\<rparr>)"

definition ClientWithAddress :: "string \<Rightarrow> ClientOption" where
  "ClientWithAddress value = (\<lambda>s. s\<lparr>rcAddress := value\<rparr>)"

definition ClientWithPort :: "int \<Rightarrow> ClientOption" where
  "ClientWithPort value = (\<lambda>s. s\<lparr>rcPort := value\<rparr>)"

definition ClientWithTransport :: "string \<Rightarrow> ClientOption" where
  "ClientWithTransport value = (\<lambda>c.
     if value = ''json'' then c\<lparr>rcTransport := TransportJSON\<rparr>
     else if value = ''legacy'' then c\<lparr>rcTransport := TransportLegacy\<rparr>
     else c\<lparr>rcTransport := TransportAuto\<rparr>)"

definition ClientWithMaxJSONBody :: "int \<Rightarrow> ClientOption" where
  "ClientWithMaxJSONBody value = (\<lambda>c. c\<lparr>rcMaxJSONBody := value\<rparr>)"

definition ClientWithMiddleware :: "middleware \<Rightarrow> ClientOption" where
  "ClientWithMiddleware function = (\<lambda>c. c\<lparr>rcMiddlewares := rcMiddlewares c @ [function]\<rparr>)"

definition NewRpcClient :: "ClientOption list \<Rightarrow> CustomRpcClient" where
  "NewRpcClient opts =
     foldl (\<lambda>client opt. opt client)
       \<lparr>rcAddress = ''127.0.0.1'', rcPort = 2233, rcCryptoKey = [], rcMaxJSONBody = 0,
        rcTransport = TransportAuto, rcMiddlewares = [], rcCl = None, rcActive = TransportAuto,
        rcFallback = False\<rparr> opts"

subsection \<open>The network\<close>

datatype net_event =
    Opened nat string
  | Client nat clientCodecV3
  | RpcCall nat string
  | Closed nat

record net =
  nTick :: nat
  nNext :: nat
  nLog :: "net_event list"

definition log :: "net_event \<Rightarrow> net \<Rightarrow> net" where
  "log ev n = n\<lparr>nTick := Suc (nTick n), nLog := nLog n @ [ev]\<rparr>"

record ('a, 'r) net_env =
  neCrypto :: crypto_lib
  neDial :: "nat \<Rightarrow> ctx \<Rightarrow> string \<Rightarrow> err + conn"
  neCall :: "nat \<Rightarrow> nat \<Rightarrow> ctx \<Rightarrow> string \<Rightarrow> 'a \<Rightarrow> 'r \<Rightarrow> err option \<times> 'r"
  neClose :: "nat \<Rightarrow> err option"

text \<open>\<open>rpc.Client.Call\<close> on connection \<open>i\<close>.\<close>

definition rpcCall ::
  "('a, 'r) net_env \<Rightarrow> nat \<Rightarrow> ctx \<Rightarrow> string \<Rightarrow> 'a \<Rightarrow> 'r \<Rightarrow> net \<Rightarrow> (err option \<times> 'r) \<times> net" where
  "rpcCall env i ctx method args reply n =
     (neCall env (nTick n) i ctx method args reply, log (RpcCall i method) n)"

subsection \<open>Sections under the mutex\<close>

definition effectiveTransport :: "CustomRpcClient \<Rightarrow> transportKind" where
  "effectiveTransport c =
     (case rcTransport c of
        TransportJSON \<Rightarrow> TransportJSON
      | TransportLegacy \<Rightarrow> TransportLegacy
      | TransportAuto \<Rightarrow> if rcFallback c then TransportLegacy else TransportJSON)"

definition getClient ::
  "('a, 'r) net_env \<Rightarrow> ctx \<Rightarrow> CustomRpcClient \<times> net \<Rightarrow> (err + nat) \<times> CustomRpcClient \<times> net" where
  "getClient env ctx cn =
     (case cn of (c, n) \<Rightarrow>
        case rcCl c of
          Some i \<Rightarrow> (Inr i, c, n)
        | None \<Rightarrow>
            let addr = JoinHostPort (rcAddress c) (Itoa (rcPort c)) in
            (case neDial env (nTick n) ctx addr of
               Inl e \<Rightarrow> (Inl e, c, n\<lparr>nTick := Suc (nTick n)\<rparr>)
             | Inr conn \<Rightarrow>
                 let i = nNext n;
                     n1 = (log (Opened i addr) n)\<lparr>nNext := Suc i\<rparr>;
                     kind = effectiveTransport c
                 in (case NewClientCodecV3 (neCrypto env) (newWriter \<lparr>snkOut = [], snkLimit = None\<rparr>) conn
                            (rcCryptoKey c) (rcMaxJSONBody c) (kind = TransportJSON) of
                       Inl e \<Rightarrow> (Inl e, c, log (Closed i) n1)
                     | Inr cdc \<Rightarrow> (Inr i, c\<lparr>rcCl := Some i, rcActive := kind\<rparr>, log (Client i cdc) n1))))"

definition invalidate :: "CustomRpcClient \<times> net \<Rightarrow> CustomRpcClient \<times> net" where
  "invalidate cn =
     (case cn of (c, n) \<Rightarrow>
        case rcCl c of
          None \<Rightarrow> (c, n)
        | Some i \<Rightarrow> (c\<lparr>rcCl := None\<rparr>, log (Closed i) n))"

definition Close :: "('a, 'r) net_env \<Rightarrow> CustomRpcClient \<times> net \<Rightarrow> err option \<times> CustomRpcClient \<times> net" where
  "Close env cn =
     (case cn of (c, n) \<Rightarrow>
        case rcCl c of
          None \<Rightarrow> (None, c, n)
        | Some i \<Rightarrow> (neClose env (nTick n), c\<lparr>rcCl := None\<rparr>, log (Closed i) n))"

text \<open>
  \<open>wasJSON\<close> and \<open>alreadyFallback\<close>, and the flag set.
\<close>

definition markFallback :: "CustomRpcClient \<Rightarrow> bool \<times> bool \<times> CustomRpcClient" where
  "markFallback c = (rcActive c = TransportJSON, rcFallback c, c\<lparr>rcFallback := True\<rparr>)"

definition isConnError :: "err option \<Rightarrow> bool" where
  "isConnError oe =
     (case oe of
        None \<Rightarrow> False
      | Some e \<Rightarrow>
          if As_server e \<noteq> None then False
          else if As_net e \<noteq> None then True
          else list_ex is_shutdown (err_chain e) \<or> errors_Is e EOF \<or> errors_Is e ErrUnexpectedEOF)"

subsection \<open>Call\<close>

definition runMiddlewares :: "middleware list \<Rightarrow> ctx \<Rightarrow> ctx" where
  "runMiddlewares mws ctx = foldl (\<lambda>ctx mw. mw ctx) ctx mws"

text \<open>The single repetition on a legacy connection.\<close>

definition fallbackCall ::
  "('a, 'r) net_env \<Rightarrow> ctx \<Rightarrow> string \<Rightarrow> 'a \<Rightarrow> 'r \<Rightarrow> CustomRpcClient \<times> net \<Rightarrow>
   (err option \<times> 'r) \<times> CustomRpcClient \<times> net" where
  "fallbackCall env ctx method args reply cn =
     (case getClient env ctx cn of
        (Inl e, cn1) \<Rightarrow> ((Some e, reply), cn1)
      | (Inr i, (c1, n1)) \<Rightarrow>
          (case rpcCall env i ctx method args reply n1 of
             ((None, reply'), n2) \<Rightarrow> ((ctxErr ctx (nTick n2), reply'), (c1, n2))
           | ((Some e, reply'), n2) \<Rightarrow> ((Some e, reply'), invalidate (c1, n2))))"

definition CallClient ::
  "('a, 'r) net_env \<Rightarrow> ctx \<Rightarrow> string \<Rightarrow> 'a \<Rightarrow> 'r \<Rightarrow> CustomRpcClient \<times> net \<Rightarrow>
   (err option \<times> 'r) \<times> CustomRpcClient \<times> net" where
  "CallClient env ctx0 method args reply cn =
     (let ctx = runMiddlewares (rcMiddlewares (fst cn)) ctx0 in
      case ctxErr ctx (nTick (snd cn)) of
        Some e \<Rightarrow> ((Some e, reply), cn)
      | None \<Rightarrow>
          (case getClient env ctx cn of
             (Inl e, cn1) \<Rightarrow> ((Some e, reply), cn1)
           | (Inr i, (c1, n1)) \<Rightarrow>
               (case rpcCall env i ctx method args reply n1 of
                  ((None, reply'), n2) \<Rightarrow> ((ctxErr ctx (nTick n2), reply'), (c1, n2))
                | ((Some e, reply'), n2) \<Rightarrow>
                    (case invalidate (c1, n2) of (c3, n3) \<Rightarrow>
                       if \<not> isConnError (Some e) then ((Some e, reply'), (c3, n3))
                       else
                         (case markFallback c3 of (wasJSON, alreadyFallback, c4) \<Rightarrow>
                            if rcTransport c4 = TransportAuto \<and> wasJSON \<and> \<not> alreadyFallback
                            then fallbackCall env ctx method args reply' (c4, n3)
                            else ((Some e, reply'), (c4, n3)))))))"

subsection \<open>Connections\<close>

definition opened :: "net_event list \<Rightarrow> nat set" where
  "opened l = {i. \<exists>a. Opened i a \<in> set l}"

definition closed :: "net_event list \<Rightarrow> nat set" where
  "closed l = {i. Closed i \<in> set l}"

definition live :: "net_event list \<Rightarrow> nat set" where
  "live l = opened l - closed l"

lemma opened_simps [simp]:
  "opened [] = {}" "opened (l @ m) = opened l \<union> opened m" "opened (Opened i a # l) = insert i (opened l)"
  "opened (Client i cdc # l) = opened l" "opened (RpcCall i m' # l) = opened l" "opened (Closed i # l) = opened l"
  by (auto simp: opened_def)

lemma closed_simps [simp]:
  "closed [] = {}" "closed (l @ m) = closed l \<union> closed m" "closed (Closed i # l) = insert i (closed l)"
  "closed (Client i cdc # l) = closed l" "closed (RpcCall i m' # l) = closed l" "closed (Opened i a # l) = closed l"
  by (auto simp: closed_def)

lemma log_simps [simp]:
  "nLog (log ev n) = nLog n @ [ev]" "nNext (log ev n) = nNext n" "nTick (log ev n) = Suc (nTick n)"
  by (simp_all add: log_def)

text \<open>
  The invariant of a client that owns its connections: the connections ever opened are
  numbered in order, the one it holds is the only live one, and no connection is closed twice.
\<close>

definition owns :: "CustomRpcClient \<times> net \<Rightarrow> bool" where
  "owns cn \<longleftrightarrow>
     opened (nLog (snd cn)) = {..<nNext (snd cn)} \<and>
     closed (nLog (snd cn)) \<subseteq> {..<nNext (snd cn)} \<and>
     live (nLog (snd cn)) = set_option (rcCl (fst cn)) \<and>
     distinct (filter (\<lambda>ev. \<exists>i. ev = Closed i) (nLog (snd cn)))"

lemma owns_rpcCall: "owns (c, n) \<Longrightarrow> owns (c, log (RpcCall i m) n)"
  by (auto simp: owns_def live_def)

lemma owns_closed:
  assumes "owns (c, n)" "rcCl c = Some i"
  shows "owns (c\<lparr>rcCl := None\<rparr>, log (Closed i) n)"
proof -
  have i: "i \<in> opened (nLog n)" "i \<notin> closed (nLog n)"
    using assms by (auto simp: owns_def live_def)
  then have "Closed i \<notin> set (nLog n)" by (simp add: closed_def)
  then show ?thesis using assms i by (auto simp: owns_def live_def)
qed

lemma owns_invalidate: "owns cn \<Longrightarrow> owns (invalidate cn)"
  by (auto simp: invalidate_def owns_closed split: prod.splits option.splits)

lemma owns_Close: "owns cn \<Longrightarrow> Close env cn = (r, cn') \<Longrightarrow> owns cn' \<and> rcCl (fst cn') = None"
  by (auto simp: Close_def owns_closed split: prod.splits option.splits)

lemma owns_opened:
  assumes "owns (c, n)" "rcCl c = None"
  shows "owns (c\<lparr>rcCl := Some (nNext n), rcActive := k\<rparr>, log (Client (nNext n) cdc) ((log (Opened (nNext n) a) n)\<lparr>nNext := Suc (nNext n)\<rparr>))"
    and "owns (c, log (Closed (nNext n)) ((log (Opened (nNext n) a) n)\<lparr>nNext := Suc (nNext n)\<rparr>))"
proof -
  have "nNext n \<notin> closed (nLog n)" using assms(1) by (auto simp: owns_def)
  moreover from this have "Closed (nNext n) \<notin> set (nLog n)" by (simp add: closed_def)
  ultimately show "owns (c\<lparr>rcCl := Some (nNext n), rcActive := k\<rparr>, log (Client (nNext n) cdc) ((log (Opened (nNext n) a) n)\<lparr>nNext := Suc (nNext n)\<rparr>))"
    and "owns (c, log (Closed (nNext n)) ((log (Opened (nNext n) a) n)\<lparr>nNext := Suc (nNext n)\<rparr>))"
    using assms by (auto simp: owns_def live_def lessThan_Suc)
qed

lemma owns_tick: "owns (c, n) \<Longrightarrow> owns (c, n\<lparr>nTick := t\<rparr>)"
  by (simp add: owns_def)

lemma owns_getClient:
  assumes "owns cn" "getClient env ctx cn = (r, cn')"
  shows "owns cn' \<and> (\<forall>i. r = Inr i \<longrightarrow> rcCl (fst cn') = Some i)"
  using assms owns_opened owns_tick
  by (auto simp: getClient_def Let_def split: prod.splits option.splits sum.splits)

lemma invalidate_simps:
  "rcCl (fst (invalidate cn)) = None" "rcTransport (fst (invalidate cn)) = rcTransport (fst cn)"
  "rcActive (fst (invalidate cn)) = rcActive (fst cn)" "rcFallback (fst (invalidate cn)) = rcFallback (fst cn)"
  by (auto simp: invalidate_def split: prod.splits option.splits)

text \<open>The ways a call ends.\<close>

lemma CallClient_cases:
  assumes "CallClient env ctx0 method args reply (c, n) = ((r, rep), cn')"
  obtains (ctx_done) e where "ctxErr (runMiddlewares (rcMiddlewares c) ctx0) (nTick n) = Some e"
      "r = Some e" "cn' = (c, n)"
  | (no_client) e where "getClient env (runMiddlewares (rcMiddlewares c) ctx0) (c, n) = (Inl e, cn')" "r = Some e"
  | (ok) i c1 n1 where "getClient env (runMiddlewares (rcMiddlewares c) ctx0) (c, n) = (Inr i, (c1, n1))"
      "neCall env (nTick n1) i (runMiddlewares (rcMiddlewares c) ctx0) method args reply = (None, rep)"
      "r = ctxErr (runMiddlewares (rcMiddlewares c) ctx0) (Suc (nTick n1))" "cn' = (c1, log (RpcCall i method) n1)"
  | (call_failed) i c1 n1 e where "getClient env (runMiddlewares (rcMiddlewares c) ctx0) (c, n) = (Inr i, (c1, n1))"
      "neCall env (nTick n1) i (runMiddlewares (rcMiddlewares c) ctx0) method args reply = (Some e, rep)"
      "r = Some e" "\<not> isConnError (Some e)" "cn' = invalidate (c1, log (RpcCall i method) n1)"
  | (no_retry) i c1 n1 e c3 n3 where "getClient env (runMiddlewares (rcMiddlewares c) ctx0) (c, n) = (Inr i, (c1, n1))"
      "neCall env (nTick n1) i (runMiddlewares (rcMiddlewares c) ctx0) method args reply = (Some e, rep)"
      "r = Some e" "isConnError (Some e)" "invalidate (c1, log (RpcCall i method) n1) = (c3, n3)"
      "cn' = (c3\<lparr>rcFallback := True\<rparr>, n3)"
      "\<not> (rcTransport c3 = TransportAuto \<and> rcActive c3 = TransportJSON \<and> \<not> rcFallback c3)"
  | (retry) i c1 n1 e rep1 c3 n3 where "getClient env (runMiddlewares (rcMiddlewares c) ctx0) (c, n) = (Inr i, (c1, n1))"
      "neCall env (nTick n1) i (runMiddlewares (rcMiddlewares c) ctx0) method args reply = (Some e, rep1)"
      "isConnError (Some e)" "invalidate (c1, log (RpcCall i method) n1) = (c3, n3)"
      "rcTransport c3 = TransportAuto" "rcActive c3 = TransportJSON" "\<not> rcFallback c3"
      "fallbackCall env (runMiddlewares (rcMiddlewares c) ctx0) method args rep1 (c3\<lparr>rcFallback := True\<rparr>, n3) = ((r, rep), cn')"
proof -
  let ?ctx = "runMiddlewares (rcMiddlewares c) ctx0"
  show ?thesis
  proof (cases "ctxErr ?ctx (nTick n)")
    case (Some e)
    then show ?thesis using assms by (intro ctx_done [OF Some]) (simp_all add: CallClient_def)
  next
    case None
    obtain g cn1 where g: "getClient env ?ctx (c, n) = (g, cn1)" by (metis prod.exhaust)
    obtain c1 n1 where cn1: "cn1 = (c1, n1)" by (cases cn1)
    show ?thesis
    proof (cases g)
      case (Inl e)
      then show ?thesis using assms None g cn1 by (intro no_client [of e]) (simp_all add: CallClient_def)
    next
      case (Inr i)
      obtain oe rep1 where k: "neCall env (nTick n1) i ?ctx method args reply = (oe, rep1)" by (metis prod.exhaust)
      have g': "getClient env ?ctx (c, n) = (Inr i, (c1, n1))" using g Inr cn1 by simp
      show ?thesis
      proof (cases oe)
        case no: None
        then show ?thesis using assms None g' k by (intro ok [OF g']) (simp_all add: CallClient_def rpcCall_def)
      next
        case (Some e)
        obtain c3 n3 where v: "invalidate (c1, log (RpcCall i method) n1) = (c3, n3)" by (metis prod.exhaust)
        have tr: "rcTransport (c3\<lparr>rcFallback := True\<rparr>) = rcTransport c3" by simp
        have eq: "(if \<not> isConnError (Some e) then ((Some e, rep1), (c3, n3))
            else if rcTransport c3 = TransportAuto \<and> rcActive c3 = TransportJSON \<and> \<not> rcFallback c3
            then fallbackCall env ?ctx method args rep1 (c3\<lparr>rcFallback := True\<rparr>, n3)
            else ((Some e, rep1), (c3\<lparr>rcFallback := True\<rparr>, n3))) = ((r, rep), cn')"
          using assms None g' k Some v
          by (simp only: CallClient_def rpcCall_def markFallback_def Let_def fst_conv snd_conv prod.case option.case sum.case tr)
        show ?thesis
          using eq call_failed [OF g', of e] no_retry [OF g' _ _ _ v, of e] retry [OF g' _ _ v, of e rep1] k Some v
          by (auto split: if_splits)
      qed
    qed
  qed
qed

lemma fallbackCall_cases:
  assumes "fallbackCall env ctx method args reply cn = ((r, rep), cn')"
  obtains (no_client) e where "getClient env ctx cn = (Inl e, cn')" "r = Some e"
  | (ok) i c1 n1 where "getClient env ctx cn = (Inr i, (c1, n1))"
      "neCall env (nTick n1) i ctx method args reply = (None, rep)" "r = ctxErr ctx (Suc (nTick n1))"
      "cn' = (c1, log (RpcCall i method) n1)"
  | (call_failed) i c1 n1 e where "getClient env ctx cn = (Inr i, (c1, n1))"
      "neCall env (nTick n1) i ctx method args reply = (Some e, rep)" "r = Some e"
      "cn' = invalidate (c1, log (RpcCall i method) n1)"
proof -
  obtain g cn1 where g: "getClient env ctx cn = (g, cn1)" by (metis prod.exhaust)
  obtain c1 n1 where cn1: "cn1 = (c1, n1)" by (cases cn1)
  show ?thesis
  proof (cases g)
    case (Inl e)
    then show ?thesis using assms g by (intro no_client [of e]) (simp_all add: fallbackCall_def)
  next
    case (Inr i)
    obtain oe rep1 where k: "neCall env (nTick n1) i ctx method args reply = (oe, rep1)" by (metis prod.exhaust)
    show ?thesis
      using assms g Inr cn1 k ok [of i c1 n1] call_failed [of i c1 n1]
      by (cases oe) (auto simp: fallbackCall_def rpcCall_def)
  qed
qed

subsection \<open>Invariants\<close>

lemma owns_fallback_flag: "owns (c, n) \<Longrightarrow> owns (c\<lparr>rcFallback := b\<rparr>, n)"
  by (simp add: owns_def)

lemma owns_fallbackCall:
  assumes "owns cn" "fallbackCall env ctx method args reply cn = ((r, rep), cn')"
  shows "owns cn'"
  using assms(2)
proof (cases rule: fallbackCall_cases)
  case (no_client e)
  then show ?thesis using owns_getClient [OF assms(1)] by blast
next
  case (ok i c1 n1)
  then show ?thesis using owns_getClient [OF assms(1) ok(1)] owns_rpcCall by auto
next
  case (call_failed i c1 n1 e)
  then show ?thesis using owns_getClient [OF assms(1) call_failed(1)] owns_rpcCall owns_invalidate by blast
qed

lemma owns_CallClient:
  assumes "owns (c, n)" "CallClient env ctx method args reply (c, n) = ((r, rep), cn')"
  shows "owns cn'"
  using assms(2)
proof (cases rule: CallClient_cases)
  case (no_client e)
  then show ?thesis using owns_getClient [OF assms(1)] by blast
next
  case (ok i c1 n1)
  then show ?thesis using owns_getClient [OF assms(1) ok(1)] owns_rpcCall by auto
next
  case (call_failed i c1 n1 e)
  then show ?thesis using owns_getClient [OF assms(1) call_failed(1)] owns_rpcCall owns_invalidate by blast
next
  case (no_retry i c1 n1 e c3 n3)
  have "owns (c3, n3)"
    using owns_invalidate [of "(c1, log (RpcCall i method) n1)"] owns_getClient [OF assms(1) no_retry(1)]
      owns_rpcCall no_retry(5) by auto
  then show ?thesis using owns_fallback_flag no_retry(6) by blast
next
  case (retry i c1 n1 e rep1 c3 n3)
  have "owns (c3, n3)"
    using owns_invalidate [of "(c1, log (RpcCall i method) n1)"] owns_getClient [OF assms(1) retry(1)]
      owns_rpcCall retry(4) by auto
  then show ?thesis using owns_fallbackCall [OF _ retry(8)] owns_fallback_flag by blast
qed (use assms(1) in simp)

text \<open>What the codec of a new connection is, by the transport in force.\<close>

fun json_codec :: "clientCodecV3 \<Rightarrow> bool" where
  "json_codec (LegacyClient _) = False"
| "json_codec (JSONClient _) = True"
| "json_codec (JSONCryptoClient _) = True"

lemma NewClientCodecV3_kind:
  "NewClientCodecV3 L w conn key m j = Inr cdc \<Longrightarrow> json_codec cdc = j"
proof (cases "j")
  case True
  then show "NewClientCodecV3 L w conn key m j = Inr cdc \<Longrightarrow> json_codec cdc = j"
    by (cases "newJSONCryptoClientCodec L w conn key m") (auto simp: NewClientCodecV3_def split: if_splits)
next
  case False
  then show "NewClientCodecV3 L w conn key m j = Inr cdc \<Longrightarrow> json_codec cdc = j"
    by (cases "NewClientCodec L w (newBufio conn) conn key") (auto simp: NewClientCodecV3_def)
qed

definition codecs :: "net_event list \<Rightarrow> bool list" where
  "codecs l = concat (map (\<lambda>ev. case ev of Client i cdc \<Rightarrow> [json_codec cdc] | _ \<Rightarrow> []) l)"

lemma codecs_simps [simp]:
  "codecs [] = []" "codecs (l @ m) = codecs l @ codecs m" "codecs (Client i cdc # l) = json_codec cdc # codecs l"
  "codecs (Opened i a # l) = codecs l" "codecs (RpcCall i m' # l) = codecs l" "codecs (Closed i # l) = codecs l"
  by (simp_all add: codecs_def)

text \<open>
  The codecs made so far: of one kind under a fixed transport; under auto JSON first and, once
  the fallback flag is set, legacy for ever.
\<close>

definition transports_ok :: "CustomRpcClient \<times> net \<Rightarrow> bool" where
  "transports_ok cn \<longleftrightarrow>
     (case rcTransport (fst cn) of
        TransportJSON \<Rightarrow> False \<notin> set (codecs (nLog (snd cn)))
      | TransportLegacy \<Rightarrow> True \<notin> set (codecs (nLog (snd cn)))
      | TransportAuto \<Rightarrow>
          (\<exists>j k. codecs (nLog (snd cn)) = replicate j True @ replicate k False \<and>
            (\<not> rcFallback (fst cn) \<longrightarrow> k = 0)))"

lemma transports_ok_extend:
  assumes "transports_ok (c, n)" "rcTransport c' = rcTransport c" "rcFallback c' = rcFallback c"
    and l: "codecs (nLog n') = codecs (nLog n) @ [effectiveTransport c = TransportJSON]"
  shows "transports_ok (c', n')"
proof (cases "rcTransport c")
  case TransportAuto
  then obtain j k where jk: "codecs (nLog n) = replicate j True @ replicate k False" "\<not> rcFallback c \<longrightarrow> k = 0"
    using assms(1) by (auto simp: transports_ok_def)
  show ?thesis
  proof (cases "rcFallback c")
    case True
    then have "codecs (nLog n') = replicate j True @ replicate (Suc k) False"
      using l jk(1) TransportAuto by (simp add: effectiveTransport_def replicate_append_same)
    then show ?thesis using assms(2,3) True TransportAuto
      unfolding transports_ok_def by (simp del: replicate.simps) blast
  next
    case False
    then have "codecs (nLog n') = replicate (Suc j) True @ replicate 0 False"
      using l jk TransportAuto by (simp add: effectiveTransport_def replicate_append_same)
    then show ?thesis using assms(2,3) False TransportAuto
      unfolding transports_ok_def by (simp del: replicate.simps)
  qed
qed (use assms in \<open>simp_all add: transports_ok_def effectiveTransport_def\<close>)

lemma transports_getClient:
  assumes "transports_ok cn" "getClient env ctx cn = (r, cn')"
  shows "transports_ok cn' \<and> rcTransport (fst cn') = rcTransport (fst cn) \<and> rcFallback (fst cn') = rcFallback (fst cn)"
proof -
  obtain c n where cn: "cn = (c, n)" by (cases cn)
  show ?thesis
  proof (cases "rcCl c")
    case (Some i)
    then show ?thesis using assms by (auto simp: getClient_def cn)
  next
    case None
    show ?thesis
    proof (cases "neDial env (nTick n) ctx (JoinHostPort (rcAddress c) (Itoa (rcPort c)))")
      case (Inl e)
      then have "cn' = (c, n\<lparr>nTick := Suc (nTick n)\<rparr>)" using assms(2) None by (simp add: getClient_def cn)
      then show ?thesis using assms(1) by (cases "rcTransport c") (simp_all add: cn transports_ok_def)
    next
      case (Inr conn)
      let ?j = "effectiveTransport c = TransportJSON"
      show ?thesis
      proof (cases "NewClientCodecV3 (neCrypto env) (newWriter \<lparr>snkOut = [], snkLimit = None\<rparr>) conn
          (rcCryptoKey c) (rcMaxJSONBody c) ?j")
        case e: (Inl e)
        then have "cn' = (c, log (Closed (nNext n))
            ((log (Opened (nNext n) (JoinHostPort (rcAddress c) (Itoa (rcPort c)))) n)\<lparr>nNext := Suc (nNext n)\<rparr>))"
          using assms(2) None Inr by (simp add: getClient_def cn Let_def)
        then show ?thesis using assms(1) by (cases "rcTransport c") (simp_all add: cn transports_ok_def)
      next
        case cdc: (Inr cdc)
        have j: "json_codec cdc = ?j" by (rule NewClientCodecV3_kind [OF cdc])
        have cn': "cn' = (c\<lparr>rcCl := Some (nNext n), rcActive := effectiveTransport c\<rparr>,
            log (Client (nNext n) cdc) ((log (Opened (nNext n) (JoinHostPort (rcAddress c) (Itoa (rcPort c)))) n)\<lparr>nNext := Suc (nNext n)\<rparr>))"
          using assms(2) None Inr cdc by (auto simp: getClient_def cn Let_def)
        have l: "codecs (nLog (snd cn')) = codecs (nLog n) @ [?j]" using j by (simp add: cn')
        have f: "rcTransport (fst cn') = rcTransport c" "rcFallback (fst cn') = rcFallback c" by (simp_all add: cn')
        have "transports_ok (fst cn', snd cn')"
          by (rule transports_ok_extend [OF assms(1) [unfolded cn] f l])
        with f show ?thesis by (simp add: cn)
      qed
    qed
  qed
qed

end
