(* ===== verification/Rpc3Calls.thy ===== *)
theory Rpc3Calls
  imports Rpc3Client
begin

text \<open>
  What the v3 client promises over any sequence of calls and closes: it owns at most one
  connection and leaks none, a call repeats itself at most once and only to leave JSON, the
  transports of its connections follow the option, and it keeps a connection only after a
  call that succeeded on it.
\<close>

subsection \<open>Sequences of operations\<close>

datatype ('a, 'r) client_op = DoCall ctx string 'a 'r | DoClose

fun runOp :: "('a, 'r) net_env \<Rightarrow> ('a, 'r) client_op \<Rightarrow> CustomRpcClient \<times> net \<Rightarrow> CustomRpcClient \<times> net" where
  "runOp env (DoCall ctx method args reply) cn = snd (CallClient env ctx method args reply cn)"
| "runOp env DoClose cn = snd (Close env cn)"

definition runOps :: "('a, 'r) net_env \<Rightarrow> ('a, 'r) client_op list \<Rightarrow> CustomRpcClient \<times> net \<Rightarrow> CustomRpcClient \<times> net" where
  "runOps env ops cn = foldl (\<lambda>cn op. runOp env op cn) cn ops"

definition net0 :: net where
  "net0 = \<lparr>nTick = 0, nNext = 0, nLog = []\<rparr>"

lemma owns_runOp: "owns cn \<Longrightarrow> owns (runOp env op cn)"
proof (cases op)
  case (DoCall ctx mth arg rply)
  obtain c n where cn: "cn = (c, n)" by (cases cn)
  obtain r rep cn' where e: "CallClient env ctx mth arg rply cn = ((r, rep), cn')" by (metis prod.exhaust)
  show "owns cn \<Longrightarrow> owns (runOp env op cn)"
    using owns_CallClient [of c n env ctx mth arg rply r rep cn'] e by (simp add: cn DoCall)
next
  case DoClose
  obtain r cn' where "Close env cn = (r, cn')" by (metis prod.exhaust)
  then show "owns cn \<Longrightarrow> owns (runOp env op cn)" using owns_Close [of cn env r cn'] by (simp add: DoClose)
qed

interpretation op_owns: steps_keep "runOp env" owns for env
  by unfold_locales (rule owns_runOp)

lemma owns_start: "rcCl c = None \<Longrightarrow> owns (c, net0)"
  by (simp add: owns_def net0_def live_def)

lemma NewRpcClient_unconnected:
  assumes "\<forall>opt \<in> set opts. \<forall>c. rcCl (opt c) = rcCl c"
  shows "rcCl (NewRpcClient opts) = None"
proof -
  have "rcCl (foldl (\<lambda>client opt. opt client) c opts) = rcCl c" for c
    using assms by (induction opts arbitrary: c) simp_all
  then show ?thesis by (simp add: NewRpcClient_def)
qed

subsection \<open>The transports of its connections\<close>

lemma transports_fewer_closed:
  "transports_ok (c, n) \<Longrightarrow> transports_ok (c, log (RpcCall i m) n)"
  "transports_ok (c, n) \<Longrightarrow> transports_ok (c\<lparr>rcCl := x\<rparr>, log (Closed i) n)"
  by (cases "rcTransport c"; simp add: transports_ok_def)+

lemma transports_flag: "transports_ok (c, n) \<Longrightarrow> transports_ok (c\<lparr>rcFallback := True\<rparr>, n)"
  by (cases "rcTransport c") (auto simp: transports_ok_def)

lemma transports_invalidate: "transports_ok cn \<Longrightarrow> transports_ok (invalidate cn)"
  by (auto simp: invalidate_def transports_fewer_closed split: prod.splits option.splits)

text \<open>A transport is never changed, and the fallback flag never reset.\<close>

definition sticky :: "CustomRpcClient \<Rightarrow> CustomRpcClient \<Rightarrow> bool" where
  "sticky c c' \<longleftrightarrow> rcTransport c' = rcTransport c \<and> (rcFallback c \<longrightarrow> rcFallback c')"

lemma sticky_getClient: "getClient env ctx cn = (r, cn') \<Longrightarrow> sticky (fst cn) (fst cn')"
  by (auto simp: getClient_def sticky_def Let_def split: prod.splits option.splits sum.splits)

lemma fallback_getClient: "getClient env ctx cn = (r, cn') \<Longrightarrow> rcFallback (fst cn') = rcFallback (fst cn)"
  by (auto simp: getClient_def Let_def split: prod.splits option.splits sum.splits)

lemma sticky_refl [simp]: "sticky c c"
  by (simp add: sticky_def)

lemma sticky_trans: "sticky a b \<Longrightarrow> sticky b c \<Longrightarrow> sticky a c"
  by (simp add: sticky_def)

text \<open>The state after a call on a connection, and after that connection is dropped.\<close>

lemma transports_called:
  assumes "transports_ok (c, n)" "getClient env ctx (c, n) = (Inr i, (c1, n1))"
  shows "transports_ok (c1, log (RpcCall i m) n1)" "sticky c c1"
  using transports_getClient [OF assms] sticky_getClient [OF assms(2)] transports_fewer_closed(1) [of c1 n1 i m]
  by simp_all

lemma transports_reset:
  assumes "transports_ok (c, n)" "getClient env ctx (c, n) = (Inr i, (c1, n1))"
    and "invalidate (c1, log (RpcCall i m) n1) = (c3, n3)"
  shows "transports_ok (c3, n3)" "sticky c c3"
proof -
  show "transports_ok (c3, n3)"
    using transports_invalidate [OF transports_called(1) [OF assms(1,2)], of m] assms(3) by simp
  show "sticky c c3"
    using transports_called(2) [OF assms(1,2)] invalidate_simps [of "(c1, log (RpcCall i m) n1)"] assms(3)
    by (simp add: sticky_def)
qed

lemma transports_fallbackCall:
  assumes "transports_ok (c, n)" "fallbackCall env ctx method args reply (c, n) = ((r, rep), cn')"
  shows "transports_ok cn' \<and> sticky c (fst cn')"
  using assms(2)
proof (cases rule: fallbackCall_cases)
  case (no_client e)
  then show ?thesis using transports_getClient [OF assms(1) no_client(1)] sticky_getClient [OF no_client(1)] by simp
next
  case (ok i c1 n1)
  then show ?thesis using transports_called [OF assms(1) ok(1)] by simp
next
  case (call_failed i c1 n1 e)
  obtain c3 n3 where v: "invalidate (c1, log (RpcCall i method) n1) = (c3, n3)" by (metis prod.exhaust)
  show ?thesis using transports_reset [OF assms(1) call_failed(1) v] by (simp add: call_failed(4) v)
qed

lemma transports_CallClient:
  assumes "transports_ok (c, n)" "CallClient env ctx method args reply (c, n) = ((r, rep), cn')"
  shows "transports_ok cn' \<and> sticky c (fst cn')"
  using assms(2)
proof (cases rule: CallClient_cases)
  case (ctx_done e)
  then show ?thesis using assms(1) by simp
next
  case (no_client e)
  then show ?thesis using transports_getClient [OF assms(1) no_client(1)] sticky_getClient [OF no_client(1)] by simp
next
  case (ok i c1 n1)
  then show ?thesis using transports_called [OF assms(1) ok(1)] by simp
next
  case (call_failed i c1 n1 e)
  obtain c3 n3 where v: "invalidate (c1, log (RpcCall i method) n1) = (c3, n3)" by (metis prod.exhaust)
  show ?thesis using transports_reset [OF assms(1) call_failed(1) v] by (simp add: call_failed(5) v)
next
  case (no_retry i c1 n1 e c3 n3)
  then show ?thesis
    using transports_reset [OF assms(1) no_retry(1,5)] transports_flag by (simp add: sticky_def)
next
  case (retry i c1 n1 e rep1 c3 n3)
  note t = transports_reset [OF assms(1) retry(1,4)]
  have "sticky c3 (c3\<lparr>rcFallback := True\<rparr>)" by (simp add: sticky_def)
  then show ?thesis
    using transports_fallbackCall [OF transports_flag [OF t(1)] retry(8)] t(2) sticky_trans by blast
qed

lemma transports_runOp: "transports_ok cn \<Longrightarrow> transports_ok (runOp env op cn) \<and> sticky (fst cn) (fst (runOp env op cn))"
proof (cases op)
  case (DoCall ctx mth arg rply)
  obtain c n where cn: "cn = (c, n)" by (cases cn)
  obtain r rep cn' where e: "CallClient env ctx mth arg rply cn = ((r, rep), cn')" by (metis prod.exhaust)
  show "transports_ok cn \<Longrightarrow> transports_ok (runOp env op cn) \<and> sticky (fst cn) (fst (runOp env op cn))"
    using transports_CallClient [of c n env ctx mth arg rply r rep cn'] e by (simp add: cn DoCall)
next
  case DoClose
  show "transports_ok cn \<Longrightarrow> transports_ok (runOp env op cn) \<and> sticky (fst cn) (fst (runOp env op cn))"
    by (auto simp: DoClose Close_def sticky_def transports_fewer_closed split: prod.splits option.splits)
qed

lemma transports_start: "transports_ok (c, net0)"
  by (cases "rcTransport c") (simp_all add: transports_ok_def net0_def)

lemma runOps_owns: "rcCl c = None \<Longrightarrow> owns (runOps env ops (c, net0))"
  unfolding runOps_def by (rule op_owns.run) (rule owns_start)

interpretation op_transports: steps_keep "runOp env" "\<lambda>cn. transports_ok cn \<and> sticky c (fst cn)" for env c
  using transports_runOp sticky_trans by unfold_locales blast

lemma runOps_transports:
  "transports_ok (runOps env ops (c, net0)) \<and> sticky c (fst (runOps env ops (c, net0)))"
  unfolding runOps_def by (rule op_transports.run) (simp add: transports_start)

subsection \<open>The calls one Call makes\<close>

definition calls :: "net_event list \<Rightarrow> nat list" where
  "calls l = concat (map (\<lambda>ev. case ev of RpcCall i m \<Rightarrow> [i] | _ \<Rightarrow> []) l)"

lemma calls_simps [simp]:
  "calls [] = []" "calls (l @ m) = calls l @ calls m" "calls (RpcCall i m' # l) = i # calls l"
  "calls (Opened i a # l) = calls l" "calls (Client i cdc # l) = calls l" "calls (Closed i # l) = calls l"
  by (simp_all add: calls_def)

lemma calls_getClient: "getClient env ctx (c, n) = (r, (c1, n1)) \<Longrightarrow> calls (nLog n1) = calls (nLog n)"
  by (auto simp: getClient_def Let_def split: option.splits sum.splits)

lemma calls_invalidate: "invalidate (c, n) = (c1, n1) \<Longrightarrow> calls (nLog n1) = calls (nLog n)"
  by (auto simp: invalidate_def split: option.splits)

lemma getClient_dials:
  assumes "getClient env ctx (c, n) = (Inr i, (c1, n1))" "rcCl c = None"
  obtains cdc where "i = nNext n" "Client i cdc \<in> set (nLog n1)"
    "json_codec cdc = (effectiveTransport c = TransportJSON)"
proof -
  obtain conn where d: "neDial env (nTick n) ctx (JoinHostPort (rcAddress c) (Itoa (rcPort c))) = Inr conn"
    using assms by (auto simp: getClient_def Let_def split: sum.splits)
  obtain cdc where k: "NewClientCodecV3 (neCrypto env) (newWriter \<lparr>snkOut = [], snkLimit = None\<rparr>) conn
      (rcCryptoKey c) (rcMaxJSONBody c) (effectiveTransport c = TransportJSON) = Inr cdc"
    using assms d by (auto simp: getClient_def Let_def split: sum.splits)
  have "i = nNext n" "Client i cdc \<in> set (nLog n1)"
    using assms d k by (auto simp: getClient_def Let_def)
  then show ?thesis using that NewClientCodecV3_kind [OF k] by blast
qed

lemma getClient_error: "getClient env ctx (c, n) = (Inl e, (c1, n1)) \<Longrightarrow> rcCl c1 = None"
  by (auto simp: getClient_def Let_def split: option.splits sum.splits)

lemma getClient_connects:
  assumes "rcCl c = None" and "\<And>t a. \<exists>conn. neDial env t ctx a = Inr conn"
    and "\<And>w conn j. \<exists>cdc. NewClientCodecV3 (neCrypto env) w conn (rcCryptoKey c) (rcMaxJSONBody c) j = Inr cdc"
  shows "\<exists>n1. getClient env ctx (c, n) =
    (Inr (nNext n), (c\<lparr>rcCl := Some (nNext n), rcActive := effectiveTransport c\<rparr>, n1)) \<and> nNext n1 = Suc (nNext n)"
proof -
  obtain conn where d: "neDial env (nTick n) ctx (JoinHostPort (rcAddress c) (Itoa (rcPort c))) = Inr conn"
    using assms(2) by blast
  obtain cdc where k: "NewClientCodecV3 (neCrypto env) (newWriter \<lparr>snkOut = [], snkLimit = None\<rparr>) conn
      (rcCryptoKey c) (rcMaxJSONBody c) (effectiveTransport c = TransportJSON) = Inr cdc"
    using assms(3) by blast
  show ?thesis using assms(1) d k by (simp add: getClient_def Let_def)
qed

lemma sticky_fallbackCall:
  assumes "fallbackCall env ctx method args reply (c, n) = ((r, rep), cn')"
  shows "sticky c (fst cn')"
  using assms
proof (cases rule: fallbackCall_cases)
  case (no_client e)
  then show ?thesis using sticky_getClient [OF no_client(1)] by simp
next
  case (ok i c1 n1)
  then show ?thesis using sticky_getClient [OF ok(1)] by simp
next
  case (call_failed i c1 n1 e)
  then show ?thesis
    using sticky_getClient [OF call_failed(1)] invalidate_simps [of "(c1, log (RpcCall i method) n1)"]
    by (simp add: sticky_def)
qed

lemma sticky_reset:
  assumes "getClient env ctx (c, n) = (Inr i, (c1, n1))" "invalidate (c1, n2) = (c3, n3)"
  shows "sticky c c3"
  using sticky_getClient [OF assms(1)] invalidate_simps [of "(c1, n2)"] assms(2) by (simp add: sticky_def)

lemma sticky_CallClient:
  assumes "CallClient env ctx method args reply (c, n) = ((r, rep), cn')"
  shows "sticky c (fst cn')"
  using assms
proof (cases rule: CallClient_cases)
  case (no_client e)
  then show ?thesis using sticky_getClient [OF no_client(1)] by simp
next
  case (ok i c1 n1)
  then show ?thesis using sticky_getClient [OF ok(1)] by simp
next
  case (call_failed i c1 n1 e)
  then show ?thesis
    using sticky_getClient [OF call_failed(1)] invalidate_simps [of "(c1, log (RpcCall i method) n1)"]
    by (simp add: sticky_def)
next
  case (no_retry i c1 n1 e c3 n3)
  then show ?thesis using sticky_reset [OF no_retry(1,5)] by (simp add: sticky_def)
next
  case (retry i c1 n1 e rep1 c3 n3)
  then show ?thesis using sticky_reset [OF retry(1,4)] sticky_fallbackCall [OF retry(8)] by (simp add: sticky_def)
qed simp

lemma sticky_runOp: "sticky (fst cn) (fst (runOp env op cn))"
proof (cases op)
  case (DoCall ctx mth arg rply)
  obtain c n where cn: "cn = (c, n)" by (cases cn)
  obtain r rep cn' where e: "CallClient env ctx mth arg rply cn = ((r, rep), cn')" by (metis prod.exhaust)
  show ?thesis using sticky_CallClient [of env ctx mth arg rply c n r rep cn'] e by (simp add: cn DoCall)
next
  case DoClose
  show ?thesis by (auto simp: DoClose Close_def sticky_def split: prod.splits option.splits)
qed

interpretation op_sticky: steps_keep "runOp env" "\<lambda>cn. sticky c (fst cn)" for env c
  using sticky_runOp sticky_trans by unfold_locales blast

lemma runOps_sticky: "sticky (fst cn) (fst (runOps env ops cn))"
  unfolding runOps_def by (rule op_sticky.run) simp

subsection \<open>Properties\<close>

text \<open>
  The client owns its connections. After any sequence of calls and closes, whatever the
  network and the calls answered, the connections opened and not closed are exactly the one
  the client holds (none or one); no connection is closed twice or before it is opened; and a
  final Close leaves none open.
\<close>

theorem client_owns_connection:
  assumes "rcCl c = None" and "runOps env ops (c, net0) = (c', n')"
  shows "live (nLog n') = set_option (rcCl c') \<and>
    closed (nLog n') \<subseteq> opened (nLog n') \<and>
    distinct (filter (\<lambda>ev. \<exists>i. ev = Closed i) (nLog n')) \<and>
    live (nLog (snd (snd (Close env (c', n'))))) = {}"
proof -
  have o: "owns (c', n')" using runOps_owns [OF assms(1), of env ops] assms(2) by simp
  obtain r cn' where cl: "Close env (c', n') = (r, cn')" by (metis prod.exhaust)
  have "live (nLog (snd cn')) = {}"
    using owns_Close [OF o cl] by (simp add: owns_def)
  then show ?thesis using o cl by (simp add: owns_def)
qed

text \<open>An environment for the witnesses: every dial succeeds with a silent connection, the
  call on connection \<open>i\<close> answers what \<open>answer i\<close> says.\<close>

definition env_of :: "(nat \<Rightarrow> err option) \<Rightarrow> (nat, nat) net_env" where
  "env_of answer = \<lparr>neCrypto = plain_crypto_lib, neDial = (\<lambda>t ctx a. Inr []),
     neCall = (\<lambda>t i ctx m a r. (answer i, if answer i = None then a else r)), neClose = (\<lambda>t. None)\<rparr>"

definition client0 :: CustomRpcClient where
  "client0 = NewRpcClient []"

lemmas client_eval = runOps_def CallClient_def getClient_def invalidate_def rpcCall_def markFallback_def
  fallbackCall_def Close_def env_of_def client0_def NewRpcClient_def net0_def background_def
  runMiddlewares_def effectiveTransport_def NewClientCodecV3_def NewClientCodec_def isConnError_def
  As_server_def As_net_def is_server_error_def is_net_error_def Let_def log_def

theorem client_owns_connection_witness:
  "\<exists>c' n'. runOps (env_of (\<lambda>i. if i = 0 then Some EOF else None))
      [DoCall background ''S.M'' 1 0, DoCall background ''S.M'' 2 0] (client0, net0) = (c', n') \<and>
    live (nLog n') = set_option (rcCl c') \<and> closed (nLog n') \<subseteq> opened (nLog n')"
proof -
  obtain c' n' where r: "runOps (env_of (\<lambda>i. if i = 0 then Some EOF else None))
      [DoCall background ''S.M'' 1 0, DoCall background ''S.M'' 2 0] (client0, net0) = (c', n')"
    by (metis prod.exhaust)
  have "rcCl client0 = None" by (simp add: client0_def NewRpcClient_def)
  from client_owns_connection [OF this r] r show ?thesis by blast
qed

text \<open>
  C19: The transports of a client's connections. Under a fixed transport every connection ever
  made has that transport's codec; under auto the connections are JSON first and legacy
  afterwards, never JSON again.
\<close>

theorem client_transports:
  "case rcTransport c of
     TransportJSON \<Rightarrow> False \<notin> set (codecs (nLog (snd (runOps env ops (c, net0)))))
   | TransportLegacy \<Rightarrow> True \<notin> set (codecs (nLog (snd (runOps env ops (c, net0)))))
   | TransportAuto \<Rightarrow>
       (\<exists>j k. codecs (nLog (snd (runOps env ops (c, net0)))) = replicate j True @ replicate k False)"
proof -
  have t: "transports_ok (runOps env ops (c, net0))"
    "rcTransport (fst (runOps env ops (c, net0))) = rcTransport c"
    using runOps_transports [of env ops c] by (simp_all add: sticky_def)
  then show ?thesis by (cases "rcTransport c") (auto simp: transports_ok_def)
qed

lemma fallbackCall_calls:
  assumes "fallbackCall env ctx method args reply (c, n) = ((r, rep), (c', n'))"
    and "rcCl c = None" and "effectiveTransport c \<noteq> TransportJSON"
  obtains (none) "calls (nLog n') = calls (nLog n)"
  | (one) cdc where "calls (nLog n') = calls (nLog n) @ [nNext n]" "Client (nNext n) cdc \<in> set (nLog n')"
      "\<not> json_codec cdc"
  using assms(1)
proof (cases rule: fallbackCall_cases)
  case (no_client e)
  then show ?thesis using calls_getClient [OF no_client(1)] none by simp
next
  case (ok i c1 n1)
  then show ?thesis
    using getClient_dials [OF ok(1) assms(2)] assms(3) calls_getClient [OF ok(1)] one by auto
next
  case (call_failed i c1 n1 e)
  have "set (nLog n1) \<subseteq> set (nLog n')" "calls (nLog n') = calls (nLog n1) @ [i]"
    using call_failed(4) by (auto simp: invalidate_def split: option.splits)
  moreover obtain cdc where "i = nNext n" "Client i cdc \<in> set (nLog n1)" "\<not> json_codec cdc"
    using getClient_dials [OF call_failed(1) assms(2)] assms(3) by auto
  ultimately show ?thesis using calls_getClient [OF call_failed(1)] one [of cdc] by auto
qed

lemma owns_getClient_bound:
  assumes "owns (c, n)" "getClient env ctx (c, n) = (Inr i, (c1, n1))"
  shows "i < nNext n1"
proof -
  have o: "owns (c1, n1)" "rcCl c1 = Some i" using owns_getClient [OF assms] by simp_all
  then have "i \<in> opened (nLog n1)" by (auto simp: owns_def live_def)
  then show ?thesis using o by (auto simp: owns_def)
qed

lemma CallClient_calls:
  assumes "CallClient env ctx method args reply (c, n) = ((r, rep), (c', n'))"
    and "owns (c, n)"
  shows "\<exists>is. calls (nLog n') = calls (nLog n) @ is \<and> length is \<le> 2 \<and>
    (length is = 2 \<longrightarrow> rcTransport c = TransportAuto \<and> \<not> rcFallback c \<and> rcFallback c' \<and>
       (\<exists>i1 i2 cdc. is = [i1, i2] \<and> i1 < i2 \<and> Client i2 cdc \<in> set (nLog n') \<and> \<not> json_codec cdc))"
  using assms(1)
proof (cases rule: CallClient_cases)
  case (ctx_done e)
  then show ?thesis by simp
next
  case (no_client e)
  then show ?thesis using calls_getClient [OF no_client(1)] by simp
next
  case (ok i c1 n1)
  then show ?thesis using calls_getClient [OF ok(1)] by simp
next
  case (call_failed i c1 n1 e)
  then show ?thesis using calls_getClient [OF call_failed(1)] calls_invalidate [OF call_failed(5) [symmetric]] by simp
next
  case (no_retry i c1 n1 e c3 n3)
  then show ?thesis using calls_getClient [OF no_retry(1)] calls_invalidate [OF no_retry(5)] by simp
next
  case (retry i c1 n1 e rep1 c3 n3)
  have s: "sticky c c1" "rcFallback c1 = rcFallback c"
    using sticky_getClient [OF retry(1)] fallback_getClient [OF retry(1)] by simp_all
  have v: "rcCl c3 = None" "rcTransport c3 = rcTransport c1" "rcFallback c3 = rcFallback c1"
    using invalidate_simps [of "(c1, log (RpcCall i method) n1)"] retry(4) by simp_all
  have l: "calls (nLog n3) = calls (nLog n) @ [i]"
    using calls_getClient [OF retry(1)] calls_invalidate [OF retry(4)] by simp
  have i: "i < nNext n3"
    using owns_getClient_bound [OF assms(2) retry(1)] retry(4) by (auto simp: invalidate_def split: option.splits)
  have leg: "rcCl (c3\<lparr>rcFallback := True\<rparr>) = None" "effectiveTransport (c3\<lparr>rcFallback := True\<rparr>) \<noteq> TransportJSON"
    using retry(5) v(1) by (simp_all add: effectiveTransport_def)
  have fb: "rcFallback c'" using sticky_fallbackCall [OF retry(8)] by (simp add: sticky_def)
  have auto: "rcTransport c = TransportAuto" "\<not> rcFallback c" using s v retry(5,7) by (simp_all add: sticky_def)
  from retry(8) leg show ?thesis
  proof (cases rule: fallbackCall_calls)
    case none
    then show ?thesis using l by simp
  next
    case (one cdc)
    then show ?thesis using l i auto fb by auto
  qed
qed

text \<open>
  C7: A call is repeated at most once, and only to leave JSON. One Call makes at most two RPC
  calls; the second one is made only by a client in auto mode that had not fallen back, on
  another connection, one with the legacy codec, and it makes the fallback permanent.
\<close>

theorem client_repeats_once:
  assumes "CallClient env ctx method args reply (c, n) = ((r, rep), (c', n'))"
    and "owns (c, n)"
  shows "\<exists>is. calls (nLog n') = calls (nLog n) @ is \<and> length is \<le> 2 \<and>
    (length is = 2 \<longrightarrow> rcTransport c = TransportAuto \<and> \<not> rcFallback c \<and> rcFallback c' \<and>
       (\<exists>i1 i2 cdc. is = [i1, i2] \<and> i1 < i2 \<and> Client i2 cdc \<in> set (nLog n') \<and> \<not> json_codec cdc))"
  by (rule CallClient_calls [OF assms])

theorem client_repeats_once_witness:
  "\<exists>r rep c' n' is. CallClient (env_of (\<lambda>i. if i = 0 then Some EOF else None)) background ''S.M'' 1 0 (client0, net0) =
      ((r, rep), (c', n')) \<and> calls (nLog n') = is \<and> length is \<le> 2"
proof -
  obtain r rep c' n' where k: "CallClient (env_of (\<lambda>i. if i = 0 then Some EOF else None)) background ''S.M'' 1 0
      (client0, net0) = ((r, rep), (c', n'))" by (metis prod.exhaust)
  have "owns (client0, net0)" by (rule owns_start) (simp add: client0_def NewRpcClient_def)
  from client_repeats_once [OF k this] k show ?thesis by (auto simp: net0_def)
qed

text \<open>
  A connection is kept only after success. With a context that stays alive, a Call returns
  no error exactly when the client holds a connection afterwards: after any failure, of the
  dial, of the codec or of the call, the next Call starts from a fresh connection.
\<close>

theorem client_keeps_iff_success:
  assumes "CallClient env ctx method args reply (c, n) = ((r, rep), (c', n'))"
    and "\<forall>t. ctxErr (runMiddlewares (rcMiddlewares c) ctx) t = None" and "owns (c, n)"
  shows "r = None \<longleftrightarrow> rcCl c' \<noteq> None"
  using assms(1)
proof (cases rule: CallClient_cases)
  case (ctx_done e)
  then show ?thesis using assms(2) by simp
next
  case (no_client e)
  then show ?thesis using getClient_error [OF no_client(1)] by simp
next
  case (ok i c1 n1)
  then show ?thesis using assms(2) owns_getClient [OF assms(3) ok(1)] by simp
next
  case (call_failed i c1 n1 e)
  then show ?thesis using invalidate_simps(1) [of "(c1, log (RpcCall i method) n1)"] call_failed(5) [symmetric] by simp
next
  case (no_retry i c1 n1 e c3 n3)
  then show ?thesis using invalidate_simps(1) [of "(c1, log (RpcCall i method) n1)"] by simp
next
  case (retry i c1 n1 e rep1 c3 n3)
  have "owns (c3, n3)"
    using owns_invalidate [of "(c1, log (RpcCall i method) n1)"] owns_getClient [OF assms(3) retry(1)]
      owns_rpcCall retry(4) by auto
  then have o: "owns (c3\<lparr>rcFallback := True\<rparr>, n3)" by (rule owns_fallback_flag)
  show ?thesis
    using retry(8)
  proof (cases rule: fallbackCall_cases)
    case (no_client e)
    then show ?thesis using getClient_error [OF no_client(1)] by simp
  next
    case (ok i2 c5 n5)
    then show ?thesis using assms(2) owns_getClient [OF o ok(1)] by simp
  next
    case (call_failed i2 c5 n5 e')
    then show ?thesis
      using invalidate_simps(1) [of "(c5, log (RpcCall i2 method) n5)"] call_failed(4) [symmetric] by simp
  qed
qed

theorem client_keeps_iff_success_witness:
  "\<exists>rep c' n'. CallClient (env_of (\<lambda>i. None)) background ''S.M'' 7 0 (client0, net0) = ((None, rep), (c', n')) \<and>
    rcCl c' \<noteq> None"
proof -
  obtain r rep c' n' where k: "CallClient (env_of (\<lambda>i. None)) background ''S.M'' (7 :: nat) 0 (client0, net0) =
      ((r, rep), (c', n'))" by (metis prod.exhaust)
  have r: "r = None" using k by (simp add: client_eval)
  have "owns (client0, net0)" by (rule owns_start) (simp add: client0_def NewRpcClient_def)
  moreover have "\<forall>t. ctxErr (runMiddlewares (rcMiddlewares client0) background) t = None"
    by (simp add: client0_def NewRpcClient_def runMiddlewares_def background_def)
  ultimately show ?thesis using client_keeps_iff_success [OF k] k r by blast
qed

text \<open>
  C20: The fallback works. A client in auto mode that holds no connection, has not fallen back
  and meets a server that breaks the JSON connection, dials again, repeats the call once on a
  legacy connection, and returns the reply of the repetition.
\<close>

theorem client_fallback_succeeds:
  assumes "rcTransport c = TransportAuto" and "\<not> rcFallback c" and "rcCl c = None"
    and "ctxErr (runMiddlewares (rcMiddlewares c) ctx) = (\<lambda>t. None)"
    and "\<And>t a. \<exists>conn. neDial env t (runMiddlewares (rcMiddlewares c) ctx) a = Inr conn"
    and "\<And>w conn j. \<exists>cdc. NewClientCodecV3 (neCrypto env) w conn (rcCryptoKey c) (rcMaxJSONBody c) j = Inr cdc"
    and "\<And>t. neCall env t (nNext n) (runMiddlewares (rcMiddlewares c) ctx) method args reply = (Some e, reply1)"
    and "isConnError (Some e)"
    and "\<And>t. neCall env t (Suc (nNext n)) (runMiddlewares (rcMiddlewares c) ctx) method args reply1 = (None, reply2)"
  shows "\<exists>c' n'. CallClient env ctx method args reply (c, n) = ((None, reply2), (c', n')) \<and>
    rcFallback c' \<and> rcActive c' = TransportLegacy \<and> rcCl c' = Some (Suc (nNext n)) \<and>
    calls (nLog n') = calls (nLog n) @ [nNext n, Suc (nNext n)]"
proof -
  let ?ctx = "runMiddlewares (rcMiddlewares c) ctx"
  obtain n1 where g1: "getClient env ?ctx (c, n) = (Inr (nNext n), (c\<lparr>rcCl := Some (nNext n), rcActive := TransportJSON\<rparr>, n1))"
      "nNext n1 = Suc (nNext n)"
    using getClient_connects [OF assms(3) assms(5,6)] assms(1,2) by (auto simp: effectiveTransport_def)
  let ?c4 = "c\<lparr>rcActive := TransportJSON, rcCl := None, rcFallback := True\<rparr>"
  let ?n3 = "log (Closed (nNext n)) (log (RpcCall (nNext n) method) n1)"
  have e4: "effectiveTransport ?c4 = TransportLegacy" "rcCl ?c4 = None" using assms(1) by (simp_all add: effectiveTransport_def)
  obtain n5 where g2: "getClient env ?ctx (?c4, ?n3) =
      (Inr (Suc (nNext n)), (?c4\<lparr>rcCl := Some (Suc (nNext n)), rcActive := TransportLegacy\<rparr>, n5))"
    using getClient_connects [of ?c4 env ?ctx ?n3] e4 assms(5,6) g1(2) by auto
  have l: "calls (nLog n5) = calls (nLog n) @ [nNext n]"
    using calls_getClient [OF g1(1)] calls_getClient [OF g2] by simp
  have "CallClient env ctx method args reply (c, n) =
      ((None, reply2), (?c4\<lparr>rcCl := Some (Suc (nNext n)), rcActive := TransportLegacy\<rparr>, log (RpcCall (Suc (nNext n)) method) n5))"
    using assms(1,2,4,7,8,9) g1 g2
    by (simp add: CallClient_def rpcCall_def invalidate_def markFallback_def fallbackCall_def Let_def)
  then show ?thesis using l by simp
qed

theorem client_fallback_succeeds_witness:
  "\<exists>c' n'. CallClient (env_of (\<lambda>i. if i = 0 then Some EOF else None)) background ''S.M'' 7 0 (client0, net0) =
    ((None, 7), (c', n')) \<and> rcFallback c' \<and> rcActive c' = TransportLegacy \<and> calls (nLog n') = [0, 1]"
proof -
  have k: "\<exists>cdc. NewClientCodecV3 plain_crypto_lib w conn [] 0 j = Inr cdc" for w and conn :: conn and j
    by (cases j) (simp_all add: NewClientCodecV3_def NewClientCodec_def)
  have "\<exists>c' n'. CallClient (env_of (\<lambda>i. if i = 0 then Some EOF else None)) background ''S.M'' 7 0 (client0, net0) =
      ((None, 7), (c', n')) \<and> rcFallback c' \<and> rcActive c' = TransportLegacy \<and>
      rcCl c' = Some (Suc (nNext net0)) \<and> calls (nLog n') = calls (nLog net0) @ [nNext net0, Suc (nNext net0)]"
    by (rule client_fallback_succeeds [where e = EOF and ?reply1.0 = 0])
      (simp_all add: k client0_def NewRpcClient_def background_def runMiddlewares_def env_of_def net0_def
        isConnError_def As_server_def As_net_def is_server_error_def is_net_error_def)
  then show ?thesis by (auto simp: net0_def)
qed

text \<open>
  A timeout counts as a broken connection. A call of a client in auto mode that fails with
  the deadline of its own context, the server being as JSON as any, sets the fallback for good:
  whatever is called afterwards, every new connection is to be a legacy one.
\<close>

theorem client_timeout_downgrades:
  assumes "rcTransport c = TransportAuto"
    and "ctxErr (runMiddlewares (rcMiddlewares c) ctx) (nTick n) = None"
    and "getClient env (runMiddlewares (rcMiddlewares c) ctx) (c, n) = (Inr i, (c1, n1))"
    and "neCall env (nTick n1) i (runMiddlewares (rcMiddlewares c) ctx) method args reply = (Some DeadlineExceeded, reply1)"
  shows "effectiveTransport (fst (runOps env ops (snd (CallClient env ctx method args reply (c, n))))) = TransportLegacy"
proof -
  obtain r rep cn' where k: "CallClient env ctx method args reply (c, n) = ((r, rep), cn')" by (metis prod.exhaust)
  have d: "isConnError (Some DeadlineExceeded)"
    by (simp add: isConnError_def As_server_def As_net_def is_server_error_def is_net_error_def)
  have s1: "sticky c c1" using sticky_getClient [OF assms(3)] by simp
  have "rcFallback (fst cn') \<and> sticky c (fst cn')"
    using k
  proof (cases rule: CallClient_cases)
    case (no_retry i' c1' n1' e c3 n3)
    then show ?thesis using s1 assms(3) invalidate_simps [of "(c1, log (RpcCall i method) n1)"] by (simp add: sticky_def)
  next
    case (retry i' c1' n1' e rep1 c3 n3)
    have "sticky (c3\<lparr>rcFallback := True\<rparr>) (fst cn')" by (rule sticky_fallbackCall [OF retry(8)])
    then show ?thesis
      using retry(1,4) s1 assms(3) invalidate_simps [of "(c1, log (RpcCall i method) n1)"] by (simp add: sticky_def)
  qed (use assms d in \<open>auto\<close>)
  then have "rcFallback (fst cn') \<and> rcTransport (fst cn') = TransportAuto" using assms(1) by (simp add: sticky_def)
  then have "rcFallback (fst (runOps env ops cn')) \<and> rcTransport (fst (runOps env ops cn')) = TransportAuto"
    using runOps_sticky [of cn' env ops] by (simp add: sticky_def)
  then show ?thesis using k by (simp add: effectiveTransport_def)
qed

theorem client_timeout_downgrades_witness:
  "effectiveTransport (fst (runOps (env_of (\<lambda>i. Some DeadlineExceeded)) [DoClose]
     (snd (CallClient (env_of (\<lambda>i. Some DeadlineExceeded)) background ''S.M'' 7 0 (client0, net0))))) = TransportLegacy"
proof -
  let ?env = "env_of (\<lambda>i. Some DeadlineExceeded)"
  let ?ctx = "runMiddlewares (rcMiddlewares client0) background"
  have i: "rcTransport client0 = TransportAuto" "ctxErr ?ctx (nTick net0) = None" "rcCl client0 = None"
    by (simp_all add: client0_def NewRpcClient_def runMiddlewares_def background_def)
  have "\<exists>cdc. NewClientCodecV3 (neCrypto ?env) w conn (rcCryptoKey client0) (rcMaxJSONBody client0) j = Inr cdc" for w and conn :: conn and j
    by (cases j) (simp_all add: NewClientCodecV3_def NewClientCodec_def client0_def NewRpcClient_def)
  then obtain n1 where g: "getClient ?env ?ctx (client0, net0) =
      (Inr (nNext net0), (client0\<lparr>rcCl := Some (nNext net0), rcActive := effectiveTransport client0\<rparr>, n1))"
    using getClient_connects [OF i(3), of ?env ?ctx net0] by (auto simp: env_of_def)
  show ?thesis by (rule client_timeout_downgrades [OF i(1,2) g]) (simp add: env_of_def)
qed

end
