(* ===== verification/ProxyFactory.thy ===== *)
theory ProxyFactory
  imports ProxyService Rpc3Calls
begin

text \<open>
  The default client factory of the invoker (\<open>v3/proxy/invoke.go\<close>): routing table, invoker and v3
  client put together. The factory never returns an error.
\<close>

definition defaultClientFactory :: "Target \<Rightarrow> CustomRpcClient" where
  "defaultClientFactory tgt =
     (let transport = (if tTransport tgt = [] \<or> tTransport tgt = ''auto'' then ''json'' else tTransport tgt);
          opts = [ClientWithAddress (tAddr tgt), ClientWithPort (tPort tgt), ClientWithTransport transport];
          opts' = (if length (tSecret tgt) > 0 then opts @ [ClientWithCryptoKey (tSecret tgt)] else opts)
      in NewRpcClient opts')"

lemma defaultClientFactory_simps:
  "rcTransport (defaultClientFactory tgt) =
     (if tTransport tgt \<in> {[], ''auto'', ''json''} then TransportJSON
      else if tTransport tgt = ''legacy'' then TransportLegacy else TransportAuto)"
  "rcCl (defaultClientFactory tgt) = None" "rcFallback (defaultClientFactory tgt) = False"
  "rcAddress (defaultClientFactory tgt) = tAddr tgt" "rcPort (defaultClientFactory tgt) = tPort tgt"
  "rcCryptoKey (defaultClientFactory tgt) = tSecret tgt" "rcMiddlewares (defaultClientFactory tgt) = []"
  by (auto simp: defaultClientFactory_def NewRpcClient_def ClientWithAddress_def ClientWithPort_def
      ClientWithTransport_def ClientWithCryptoKey_def Let_def)

lemma Resolve_valid:
  assumes "NewStaticRouter order = Inr r" "Resolve r name = Inr tgt"
  shows "tTransport tgt \<in> known_transports"
proof -
  have v: "\<forall>(name, tgt) \<in> set order. valid_entry name tgt" "srTargets r = map_of (rev order)"
    using assms(1) validateTargets_Inr_iff [of order Map.empty "srTargets r"]
    by (auto simp: NewStaticRouter_def split: sum.splits)
  have "srTargets r name = Some tgt" using assms(2) by (auto simp: Resolve_def split: option.splits)
  then have "(name, tgt) \<in> set order" using v(2) map_of_SomeD by fastforce
  then show ?thesis using v(1) by (auto simp: valid_entry_def)
qed

text \<open>
  The proxy speaks JSON unless told otherwise. The client the proxy makes for a target of
  an accepted routing table dials the target's address with the target's secret as its key. Over
  any sequence of calls and closes all its connections are JSON, or, when the target says
  legacy, all legacy: it never falls back; and no Call of it makes more than one RPC call.
\<close>

theorem proxy_client_never_falls_back:
  assumes "NewStaticRouter order = Inr r" and "Resolve r name = Inr tgt"
    and "runOps env ops (defaultClientFactory tgt, net0) = (c, n)"
  shows "rcAddress (defaultClientFactory tgt) = tAddr tgt \<and> rcPort (defaultClientFactory tgt) = tPort tgt \<and>
    rcCryptoKey (defaultClientFactory tgt) = tSecret tgt \<and>
    set (codecs (nLog n)) \<subseteq> {tTransport tgt \<noteq> ''legacy''} \<and>
    length (calls (nLog (snd (snd (CallClient env ctx method args reply (c, n)))))) \<le> Suc (length (calls (nLog n)))"
proof -
  have k: "tTransport tgt \<in> known_transports" by (rule Resolve_valid [OF assms(1,2)])
  have s: "transports_ok (c, n)" "rcTransport c = rcTransport (defaultClientFactory tgt)"
    using runOps_transports [of env ops "defaultClientFactory tgt"] assms(3) by (simp_all add: sticky_def)
  have o: "owns (c, n)"
    using runOps_owns [of "defaultClientFactory tgt" env ops] assms(3) by (simp add: defaultClientFactory_simps)
  obtain r rep c' n' where call: "CallClient env ctx method args reply (c, n) = ((r, rep), (c', n'))"
    by (metis prod.exhaust)
  have fixed: "rcTransport c \<noteq> TransportAuto" and
    "set (codecs (nLog n)) \<subseteq> {tTransport tgt \<noteq> ''legacy''}"
    using k s by (auto simp: defaultClientFactory_simps known_transports_def transports_ok_def split: if_splits)
       (metis (full_types))+
  moreover obtain js where "calls (nLog n') = calls (nLog n) @ js" "length js < 2"
    using CallClient_calls [OF call o] fixed by (metis nat_less_le)
  ultimately show ?thesis using call by (simp add: defaultClientFactory_simps)
qed

theorem proxy_client_never_falls_back_witness:
  "\<exists>r c n. NewStaticRouter [(''mailer'', \<lparr>tAddr = ''h'', tPort = 1, tSecret = [], tTransport = ''auto''\<rparr>)] = Inr r \<and>
    runOps (env_of (\<lambda>i. Some EOF)) [DoCall background ''S.M'' 1 0]
      (defaultClientFactory \<lparr>tAddr = ''h'', tPort = 1, tSecret = [], tTransport = ''auto''\<rparr>, net0) = (c, n) \<and>
    set (codecs (nLog n)) \<subseteq> {True}"
proof -
  let ?t = "\<lparr>tAddr = ''h'', tPort = 1, tSecret = [], tTransport = ''auto''\<rparr>"
  obtain c n where o: "runOps (env_of (\<lambda>i. Some EOF)) [DoCall background ''S.M'' 1 0] (defaultClientFactory ?t, net0) = (c, n)"
    by (metis prod.exhaust)
  have r: "NewStaticRouter [(''mailer'', ?t)] = Inr \<lparr>srTargets = [''mailer'' \<mapsto> ?t]\<rparr>"
    by (simp add: NewStaticRouter_def known_transports_def)
  have t: "Resolve \<lparr>srTargets = [''mailer'' \<mapsto> ?t]\<rparr> ''mailer'' = Inr ?t" by (simp add: Resolve_def)
  show ?thesis using proxy_client_never_falls_back [OF r t o] r o by auto
qed

end
