(* ===== verification/ProxyEndToEnd.thy ===== *)
theory ProxyEndToEnd
  imports ProxyFactory
begin

text \<open>
  The proxy on the network: the RPC invoker with its default client factory, so that
  \<open>client.Call\<close> and \<open>client.Close\<close> are those of the v3 client (\<open>v3/client.go\<close>) on the network of
  \<open>Rpc3Client\<close>. The network is what lies behind the clients: it outlives them, and its log holds
  the connections of every invocation so far.
\<close>

text \<open>\<open>*rpc2.CustomRpcClient\<close> as the interface \<open>rpcClient\<close>; \<open>var reply json.RawMessage\<close> starts empty.\<close>

definition v3_client_api :: "(bytes, bytes) net_env \<Rightarrow> (CustomRpcClient, net) client_api" where
  "v3_client_api env =
     \<lparr>newClient = (\<lambda>tgt t n. (Inr (defaultClientFactory tgt), t, n)),
      clientCall = (\<lambda>c ctx method args t n.
        case CallClient env ctx method args [] (c, n\<lparr>nTick := t\<rparr>) of (r, (c', n')) \<Rightarrow> ((r, c'), nTick n', n')),
      clientClose = (\<lambda>c t n. case Close env (c, n\<lparr>nTick := t\<rparr>) of (e, (c', n')) \<Rightarrow> ((e, c'), nTick n', n'))\<rparr>"

subsection \<open>The log of one call\<close>

lemma getClient_fresh:
  assumes "rcCl c = None" "getClient env ctx (c, n) = (r, (c1, n1))"
  shows "(\<exists>e. r = Inl e \<and> c1 = c \<and>
      (nLog n1 = nLog n \<or>
       nLog n1 = nLog n @ [Opened (nNext n) (JoinHostPort (rcAddress c) (Itoa (rcPort c))), Closed (nNext n)])) \<or>
    (\<exists>cdc. r = Inr (nNext n) \<and> rcCl c1 = Some (nNext n) \<and> rcTransport c1 = rcTransport c \<and>
       json_codec cdc = (effectiveTransport c = TransportJSON) \<and>
       nLog n1 = nLog n @ [Opened (nNext n) (JoinHostPort (rcAddress c) (Itoa (rcPort c))), Client (nNext n) cdc])"
  using assms by (auto simp: getClient_def Let_def dest: NewClientCodecV3_kind split: sum.splits)

text \<open>What a client that will not fall back adds to the log with its first call: nothing, a
  connection without a codec, or one call on one connection, which it keeps if the call succeeds.\<close>

definition first_call :: "CustomRpcClient \<Rightarrow> string \<Rightarrow> nat \<Rightarrow> net_event list \<Rightarrow> bool" where
  "first_call c method k evs \<longleftrightarrow>
     evs = [] \<or>
     evs = [Opened k (JoinHostPort (rcAddress c) (Itoa (rcPort c))), Closed k] \<or>
     (\<exists>cdc. json_codec cdc = (effectiveTransport c = TransportJSON) \<and>
        evs = [Opened k (JoinHostPort (rcAddress c) (Itoa (rcPort c))), Client k cdc, RpcCall k method, Closed k])"

lemma CallClient_first:
  assumes "rcCl c = None" "rcTransport c \<noteq> TransportAuto"
    and "CallClient env ctx method args reply (c, n) = ((r, rep), (c', n'))"
  shows "\<exists>evs. nLog (snd (snd (Close env (c', n'\<lparr>nTick := t\<rparr>)))) = nLog n @ evs \<and> first_call c method (nNext n) evs \<and>
    (r = None \<longrightarrow> calls evs = [nNext n])"
  using assms(3)
proof (cases rule: CallClient_cases)
  case (ctx_done e)
  then show ?thesis using assms(1) by (auto simp: Close_def first_call_def)
next
  case (no_client e)
  then show ?thesis using getClient_fresh [OF assms(1) no_client(1)] assms(1)
    by (auto simp: Close_def first_call_def)
next
  case (ok i c1 n1)
  then show ?thesis using getClient_fresh [OF assms(1) ok(1)]
    by (auto simp: Close_def first_call_def)
next
  case (call_failed i c1 n1 e)
  then show ?thesis using getClient_fresh [OF assms(1) call_failed(1)]
    by (auto simp: Close_def invalidate_def first_call_def)
next
  case (no_retry i c1 n1 e c3 n3)
  then show ?thesis using getClient_fresh [OF assms(1) no_retry(1)]
    by (auto simp: Close_def invalidate_def first_call_def)
next
  case (retry i c1 n1 e rep1 c3 n3)
  then show ?thesis using getClient_fresh [OF assms(1) retry(1)] assms(2)
      invalidate_simps(2) [of "(c1, log (RpcCall i method) n1)"] by auto
qed

subsection \<open>One invocation\<close>

lemma openClient_v3:
  "invNewClient iv = v3_client_api env \<Longrightarrow>
     openClient iv tgt w = (Inr (defaultClientFactory tgt), emit (EvNewClient tgt) w)"
  by (simp add: openClient_def outside_def v3_client_api_def)

lemma runCall_v3:
  assumes "invNewClient iv = v3_client_api env"
    and "runCall iv R ctx cc tgt method payload md cl w = (((out, ce), cl'), w')"
  shows "\<exists>r reply n. CallClient env (ContextWithHeaders R cc (identityHeaders R ctx md)) method payload []
      (cl, (wOut w)\<lparr>nTick := wTick w\<rparr>) = ((r, reply), (cl', n)) \<and> wOut w' = n \<and>
    (case r of
       Some e \<Rightarrow> out = [] \<and> ce = Some (mapCallError e (targetString tgt))
     | None \<Rightarrow> if int (length reply) \<le> payloadLimit iv then out = reply \<and> ce = None
         else out = [] \<and> (\<exists>msg. ce = Some \<lparr>ceCode = CodePayload, ceMessage = msg, ceTarget = targetString tgt\<rparr>))"
  using assms
  by (auto simp: runCall_def outside_def v3_client_api_def Let_def callFail_def
      split: prod.splits option.splits if_splits)

lemma closeClient_v3:
  "invNewClient iv = v3_client_api env \<Longrightarrow>
     wOut (closeClient iv cl w) = snd (snd (Close env (cl, (wOut w)\<lparr>nTick := wTick w\<rparr>)))"
  by (simp add: closeClient_def outside_def v3_client_api_def split: prod.split)

text \<open>The log of an invocation: \<open>first_call\<close> of the client the factory makes.\<close>

definition invocation_log :: "Target \<Rightarrow> string \<Rightarrow> nat \<Rightarrow> net_event list \<Rightarrow> bool" where
  "invocation_log tgt method k evs \<longleftrightarrow>
     evs = [] \<or>
     evs = [Opened k (targetString tgt), Closed k] \<or>
     (\<exists>cdc. json_codec cdc = (tTransport tgt \<noteq> ''legacy'') \<and>
        evs = [Opened k (targetString tgt), Client k cdc, RpcCall k method, Closed k])"

lemma first_call_factory:
  "tTransport tgt \<in> known_transports \<Longrightarrow>
     first_call (defaultClientFactory tgt) method k evs = invocation_log tgt method k evs"
  by (auto simp: first_call_def invocation_log_def defaultClientFactory_simps effectiveTransport_def
      targetString_def known_transports_def)

text \<open>
  An invocation that gets past its early returns is one \<open>Call\<close> of a v3 client and its \<open>Close\<close>.
\<close>

lemma invocation_on_the_network:
  assumes "tTransport tgt \<in> known_transports"
    and "invNewClient iv = v3_client_api env" and "rpc_lib_ok R (set identityHeaderKeys)"
    and "Invoke iv R penv ctx tgt method payload md w = ((out, ce), w')"
  shows "wOut w' = wOut w \<and> out = [] \<and> ce \<noteq> None \<and> wTrace w' = wTrace w \<or>
    (\<exists>callCtx t r reply c n evs.
    CallClient env callCtx method payload [] (defaultClientFactory tgt, (wOut w)\<lparr>nTick := t\<rparr>) = ((r, reply), (c, n)) \<and>
    ContextHeader R callCtx = identityHeaders R ctx md \<and>
    (case r of
        Some e \<Rightarrow> out = [] \<and> ce = Some (mapCallError e (targetString tgt))
      | None \<Rightarrow> if int (length reply) \<le> payloadLimit iv then out = reply \<and> ce = None
          else out = [] \<and> (\<exists>msg. ce = Some \<lparr>ceCode = CodePayload, ceMessage = msg, ceTarget = targetString tgt\<rparr>)) \<and>
    nLog (wOut w') = nLog (wOut w) @ evs \<and> invocation_log tgt method (nNext (wOut w)) evs \<and>
    (r = None \<longrightarrow> calls evs = [nNext (wOut w)]))"
  using assms(4)
proof (cases rule: Invoke_cases)
  case (called cc w1 w2)
  let ?d = "defaultClientFactory tgt" and ?callCtx = "ContextWithHeaders R cc (identityHeaders R ctx md)"
  have w1: "wOut w1 = wOut w" "wOut w' = wOut w2" using called(4,6) by simp_all
  have fixed: "rcTransport ?d \<noteq> TransportAuto"
    using assms(1) by (auto simp: defaultClientFactory_simps known_transports_def)
  have h: "ContextHeader R ?callCtx = identityHeaders R ctx md"
    using assms(3) by (simp add: rpc_lib_ok_def)
  obtain cl' w3 where k: "runCall iv R ctx cc tgt method payload md ?d (emit (EvNewClient tgt) w1) = (((out, ce), cl'), w3)"
      "w2 = closeClient iv cl' w3"
    using called(5) openClient_v3 [OF assms(2), of tgt w1] by (cases rule: invokeClient_cases) auto
  let ?t = "wTick (emit (EvNewClient tgt) w1)"
  obtain r reply n where call: "CallClient env ?callCtx method payload [] (?d, (wOut w)\<lparr>nTick := ?t\<rparr>) = ((r, reply), (cl', n))"
      "wOut w3 = n" and res: "case r of
       Some e \<Rightarrow> out = [] \<and> ce = Some (mapCallError e (targetString tgt))
     | None \<Rightarrow> if int (length reply) \<le> payloadLimit iv then out = reply \<and> ce = None
         else out = [] \<and> (\<exists>msg. ce = Some \<lparr>ceCode = CodePayload, ceMessage = msg, ceTarget = targetString tgt\<rparr>)"
    using runCall_v3 [OF assms(2) k(1)] w1(1) by auto
  obtain evs where "nLog (wOut w') = nLog (wOut w) @ evs" "first_call ?d method (nNext (wOut w)) evs"
      "r = None \<longrightarrow> calls evs = [nNext (wOut w)]"
    using CallClient_first [OF defaultClientFactory_simps(2) fixed call(1), of "wTick w3"]
    by (auto simp: w1(2) k(2) closeClient_v3 [OF assms(2)] call(2))
  then show ?thesis using call(1) h res first_call_factory [OF assms(1)]
    by (intro disjI2 exI [of _ ?callCtx] exI [of _ ?t] exI [of _ r] exI [of _ reply] exI [of _ cl'] exI [of _ n]
        exI [of _ evs]) simp
qed (auto simp: callFail_def)

lemma invocation_log_closed: "invocation_log tgt method k evs \<Longrightarrow> opened evs = closed evs"
  by (auto simp: invocation_log_def)

subsection \<open>Properties\<close>

text \<open>
  C5: The gateway on the network. A call of the proxy that was given an accepted table and
  allowlist never returns a Go error, and leaves no connection open that was not open before. Either it
  ends with an error in the response and without touching the network, or the method is
  permitted and routed, and the answer is that of one Call of a v3 client at the target, with the
  request's payload and the identity headers alone. What the network has seen of it is then one of
  three things: nothing; a connection to the target, closed again; or a connection to the target,
  its codec (JSON unless the target says legacy), one RPC call of the method, and the closing of that
  connection.
\<close>

theorem gateway_call_on_the_network:
  assumes "NewStaticRouter order = Inr rt" and "NewAllowlist entries policy = Inr al"
    and "invNewClient iv = v3_client_api env" and "rpc_lib_ok R (set identityHeaderKeys)"
    and "Call (gateway rt (Some al) iv R penv) penv ctx req (Some emptyResponse) w = (e, Some res, w')"
  shows "e = None \<and> live (nLog (wOut w')) \<subseteq> live (nLog (wOut w)) \<and>
    ((resPayload res = [] \<and> resError res \<noteq> None \<and> wOut w' = wOut w \<and> (\<exists>st. wTrace w' = wTrace w @ [EvObserve st])) \<or>
     (\<exists>service tgt callCtx t r reply c n evs.
        SplitMethod (reqMethod req) = Some service \<and> srTargets rt service = Some tgt \<and>
        reqMethod req \<in> permitted (Some al) \<and>
        CallClient env callCtx (reqMethod req) (reqPayload req) [] (defaultClientFactory tgt, (wOut w)\<lparr>nTick := t\<rparr>) =
          ((r, reply), (c, n)) \<and>
        ContextHeader R callCtx = identityHeaders R ctx (reqMetadata req) \<and>
        (case r of
           Some err \<Rightarrow> resPayload res = [] \<and> resError res = Some (mapCallError err (targetString tgt))
         | None \<Rightarrow> if int (length reply) \<le> payloadLimit iv then resPayload res = reply \<and> resError res = None
             else resPayload res = [] \<and>
               (\<exists>msg. resError res = Some \<lparr>ceCode = CodePayload, ceMessage = msg, ceTarget = targetString tgt\<rparr>)) \<and>
        nLog (wOut w') = nLog (wOut w) @ evs \<and> (r = None \<longrightarrow> calls evs = [nNext (wOut w)]) \<and>
        (evs = [] \<or>
         evs = [Opened (nNext (wOut w)) (targetString tgt), Closed (nNext (wOut w))] \<or>
         (\<exists>cdc. json_codec cdc = (tTransport tgt \<noteq> ''legacy'') \<and>
            evs = [Opened (nNext (wOut w)) (targetString tgt), Client (nNext (wOut w)) cdc,
              RpcCall (nNext (wOut w)) (reqMethod req), Closed (nNext (wOut w))]))))"
proof -
  obtain res' tgt w1 where b: "callBody (Resolve rt) (Some (Allowed (Some al))) (Invoke iv R penv) ctx req
      emptyResponse w = (res', tgt, w1)"
    and r: "e = None" "res = res'" "w' = emit (EvObserve (callStats req res' tgt (eLatency penv (wTick w)))) w1"
    using assms(5) by (cases rule: Call_gateway) auto
  show ?thesis
    using NewAllowlist_valid [OF assms(2)] b
  proof (cases rule: px.body_cases)
    case (invoked s t out ce)
    have t: "tTransport t \<in> known_transports"
      using Resolve_valid [OF assms(1), of s t] invoked(3) by (simp add: Resolve_def)
    show ?thesis
      using invocation_on_the_network [OF t assms(3,4) invoked(4)]
    proof (elim disjE exE)
      assume "wOut w1 = wOut w \<and> out = [] \<and> ce \<noteq> None \<and> wTrace w1 = wTrace w"
      then show ?thesis using invoked(5) by (auto simp: r emptyResponse_def)
    next
      fix callCtx t' re reply c n evs
      assume n: "CallClient env callCtx (reqMethod req) (reqPayload req) [] (defaultClientFactory t, (wOut w)\<lparr>nTick := t'\<rparr>) = ((re, reply), (c, n)) \<and>
        ContextHeader R callCtx = identityHeaders R ctx (reqMetadata req) \<and>
        (case re of Some e \<Rightarrow> out = [] \<and> ce = Some (mapCallError e (targetString t))
         | None \<Rightarrow> if int (length reply) \<le> payloadLimit iv then out = reply \<and> ce = None
             else out = [] \<and> (\<exists>msg. ce = Some \<lparr>ceCode = CodePayload, ceMessage = msg, ceTarget = targetString t\<rparr>)) \<and>
        nLog (wOut w1) = nLog (wOut w) @ evs \<and> invocation_log t (reqMethod req) (nNext (wOut w)) evs \<and>
        (re = None \<longrightarrow> calls evs = [nNext (wOut w)])"
      then have "case re of
           Some err \<Rightarrow> resPayload res = [] \<and> resError res = Some (mapCallError err (targetString t))
         | None \<Rightarrow> if int (length reply) \<le> payloadLimit iv then resPayload res = reply \<and> resError res = None
             else resPayload res = [] \<and>
               (\<exists>msg. resError res = Some \<lparr>ceCode = CodePayload, ceMessage = msg, ceTarget = targetString t\<rparr>)"
        using invoked(5) by (auto simp: r(2) emptyResponse_def split: option.splits if_splits)
      moreover have l: "live (nLog (wOut w')) \<subseteq> live (nLog (wOut w))"
        using n invocation_log_closed [of t "reqMethod req" "nNext (wOut w)" evs] by (auto simp: r(3) live_def)
      ultimately show ?thesis using n invoked(1-3)
        by (intro conjI [OF r(1) conjI [OF l disjI2]] exI [of _ s] exI [of _ t] exI [of _ callCtx] exI [of _ t']
            exI [of _ re] exI [of _ reply] exI [of _ c] exI [of _ n] exI [of _ evs]) (simp add: r(3) invocation_log_def)
    qed
  qed (simp_all add: r emptyResponse_def)
qed

text \<open>A target without a secret, a network that answers [7]: the reply is passed on, the connection closed.\<close>

definition seven_env :: "(bytes, bytes) net_env" where
  "seven_env = \<lparr>neCrypto = plain_crypto_lib, neDial = (\<lambda>t ctx a. Inr []),
     neCall = (\<lambda>t i ctx m a r. (None, [7])), neClose = (\<lambda>t. None)\<rparr>"

lemma seven_Invoke:
  "\<exists>w'. Invoke (NewRPCInvoker (v3_client_api seven_env) []) plain_rpc_lib calm_env
     background target0 ''miki.Get'' [1, 2] Map.empty (world_of net0) = (([7], None), w')"
  by (simp add: invoke_eval v3_client_api_def seven_env_def
      target0_def defaultClientFactory_def ClientWithAddress_def ClientWithPort_def ClientWithTransport_def
      client_eval)

theorem gateway_call_on_the_network_witness:
  "\<exists>res w'. Call (gateway router0 (Some allowlist0) (NewRPCInvoker (v3_client_api seven_env) []) plain_rpc_lib calm_env)
      calm_env background (request0 ''miki.Get'') (Some emptyResponse) (world_of net0) = (None, Some res, w') \<and>
    resPayload res = [7] \<and> calls (nLog (wOut w')) = [0] \<and> closed (nLog (wOut w')) = {0} \<and> live (nLog (wOut w')) = {}"
proof -
  let ?iv = "NewRPCInvoker (v3_client_api seven_env) []"
  obtain e res w' where k: "Call (gateway router0 (Some allowlist0) ?iv plain_rpc_lib calm_env)
      calm_env background (request0 ''miki.Get'') (Some emptyResponse) (world_of net0) = (e, Some res, w')"
    by (rule Call_exists)
  have s: "SplitMethod ''miki.Get'' = Some ''miki''" by (simp add: SplitMethod_def)
  obtain w1 where i: "Invoke ?iv plain_rpc_lib calm_env background target0 ''miki.Get'' [1, 2] Map.empty (world_of net0) = (([7], None), w1)"
    using seven_Invoke by blast
  have res: "resPayload res = [7]" "resError res = None"
    using k i by (auto simp: Call_def callBody_def request0_def s router0_def Resolve_def Allowed_def allowlist0_def
        allows_def PolicyDefault_def PolicyDenyEmpty_def emptyResponse_def split: prod.splits)
  have rt: "NewStaticRouter [(''miki'', target0)] = Inr router0"
    by (simp add: NewStaticRouter_def known_transports_def target0_def router0_def)
  have a: "invNewClient ?iv = v3_client_api seven_env" by (simp add: NewRPCInvoker_def)
  note g = gateway_call_on_the_network [OF rt allowlist0_made a plain_rpc_lib_ok k]
  have "live (nLog (wOut w')) = {}" using g by (simp add: world_of_def net0_def live_def)
  moreover have "calls (nLog (wOut w')) = [0] \<and> closed (nLog (wOut w')) = {0}"
    using g res by (auto simp: world_of_def net0_def split: option.splits)
  ultimately show ?thesis using k g res(1) by simp
qed

text \<open>
  C36: a call timeout that is not positive. It is stored as given (the comment of the option promises
  the default instead): every invocation of an invoker with the default client factory then fails
  with the transport code or for its size, and never so much as dials the target.
\<close>

theorem nonpositive_timeout_never_dials:
  assumes "d \<le> 0" and "rpc_lib_ok R (set identityHeaderKeys)"
    and "Invoke (NewRPCInvoker (v3_client_api env) [InvokerWithCallTimeout d]) R penv ctx tgt method payload md w = ((out, ce), w')"
  shows "(\<exists>e. ce = Some e \<and> ceCode e \<in> {CodeTransport, CodePayload}) \<and> nLog (wOut w') = nLog (wOut w)"
  using assms(3)
proof (cases rule: Invoke_cases)
  case (called cc w1 w2)
  let ?iv = "NewRPCInvoker (v3_client_api env) [InvokerWithCallTimeout d]"
  have iv: "invNewClient ?iv = v3_client_api env" "invCallTimeout ?iv = d"
    by (simp_all add: NewRPCInvoker_def InvokerWithCallTimeout_def)
  let ?d = "defaultClientFactory tgt" and ?callCtx = "ContextWithHeaders R cc (identityHeaders R ctx md)"
  have expired: "ctxErr ?callCtx now = Some DeadlineExceeded" for now
    using called(1) assms(1,2) WithTimeout_expired iv(2) by (simp add: called(3) callContext_def rpc_lib_ok_def)
  obtain cl' w3 where k: "runCall ?iv R ctx cc tgt method payload md ?d (emit (EvNewClient tgt) w1) = (((out, ce), cl'), w3)"
      "w2 = closeClient ?iv cl' w3"
    using called(5) openClient_v3 [OF iv(1), of tgt w1] by (cases rule: invokeClient_cases) auto
  have "CallClient env ?callCtx method payload [] (?d, n) = ((Some DeadlineExceeded, []), (?d, n))" for n
    using expired by (simp add: CallClient_def defaultClientFactory_simps runMiddlewares_def)
  then have "ce = Some (mapCallError DeadlineExceeded (targetString tgt))" "cl' = ?d" "nLog (wOut w3) = nLog (wOut w1)"
    using runCall_v3 [OF iv(1) k(1)] by auto
  then show ?thesis
    using called(4,6) k(2)
    by (simp add: closeClient_v3 [OF iv(1)] Close_def defaultClientFactory_simps mapCallError_code
        As_server_def is_server_error_def errors_Is_def eof_family_def)
qed (auto simp: callFail_def)

theorem nonpositive_timeout_never_dials_witness:
  "\<exists>out ce w'. Invoke (NewRPCInvoker (v3_client_api seven_env) [InvokerWithCallTimeout 0]) plain_rpc_lib calm_env
     background target0 ''miki.Get'' [1, 2] Map.empty (world_of net0) = ((out, ce), w') \<and>
   ce \<noteq> None \<and> nLog (wOut w') = []"
proof -
  obtain out ce w' where i: "Invoke (NewRPCInvoker (v3_client_api seven_env) [InvokerWithCallTimeout 0]) plain_rpc_lib calm_env
     background target0 ''miki.Get'' [1, 2] Map.empty (world_of net0) = ((out, ce), w')"
    by (metis prod.exhaust)
  then show ?thesis
    using nonpositive_timeout_never_dials [OF order_refl plain_rpc_lib_ok i] by (auto simp: world_of_def net0_def)
qed

end
