(* ===== verification/ProxyLimit.thy ===== *)
theory ProxyLimit
  imports ProxyEndToEnd
begin

text \<open>
  Many invocations at once, and the limit on them (\<open>limitCh\<close> of \<open>v3/proxy/invoke.go\<close>, a channel
  with room for the limit). An invocation goes through the pieces \<open>Invoke\<close> is made of in \<open>ProxyInvoke\<close>: the
  early returns, the \<open>select\<close>, the making of the client, its call, its \<open>Close\<close>, the return of
  the token. Invocations are numbered, each step is one of them moving over one piece, and which one
  moves, and when time passes, is open. \<open>Invoke\<close> is what one of them does when it is not
  interrupted.
\<close>

record invocation =
  ivCtx :: ctx
  ivTarget :: Target
  ivMethod :: string
  ivPayload :: bytes
  ivMeta :: "string \<rightharpoonup> string"

datatype 'c phase =
    Outside
  | Entered invocation
  | Waiting ctx invocation
  | Inside ctx invocation
  | Connected 'c ctx invocation
  | Returning "bytes \<times> CallError option" 'c
  | Leaving "bytes \<times> CallError option"
  | Left "bytes \<times> CallError option"

record ('c, 'o) slots =
  slPhase :: "nat \<Rightarrow> 'c phase"
  slTokens :: nat
  slWorld :: "'o world"

text \<open>The pieces that need nothing from the channel.\<close>

fun piece :: "('c, 'o) RPCInvoker \<Rightarrow> rpc_lib \<Rightarrow> env \<Rightarrow> 'c phase \<Rightarrow> 'o world \<Rightarrow> ('c phase \<times> 'o world) option" where
  "piece iv R env (Entered a) w =
     (case admit iv (ivCtx a) (ivTarget a) (ivPayload a) (wTick w) of
        Some res \<Rightarrow> Some (Left res, w)
      | None \<Rightarrow> Some (Waiting (callContext iv env (ivCtx a) (wTick w)) a, w))"
| "piece iv R env (Inside cc a) w =
     (case openClient iv (ivTarget a) w of
        (Inl e, w') \<Rightarrow> Some (Leaving (clientFailed (ivTarget a) e), w')
      | (Inr cl, w') \<Rightarrow> Some (Connected cl cc a, w'))"
| "piece iv R env (Connected cl cc a) w =
     (case runCall iv R (ivCtx a) cc (ivTarget a) (ivMethod a) (ivPayload a) (ivMeta a) cl w of
        ((res, cl'), w') \<Rightarrow> Some (Returning res cl', w'))"
| "piece iv R env (Returning res cl) w = Some (Leaving res, closeClient iv cl w)"
| "piece iv R env _ w = None"

definition move :: "nat \<Rightarrow> 'c phase \<Rightarrow> 'o world \<Rightarrow> ('c, 'o) slots \<Rightarrow> ('c, 'o) slots" where
  "move p x w s = s\<lparr>slPhase := (slPhase s)(p := x), slWorld := w\<rparr>"

text \<open>
  The steps. A send on the channel is possible while there is room and a receive while there is a
  token; the other branch of the \<open>select\<close> is taken when the context of the call is done. Without a
  limit there is no channel.
\<close>

inductive slot_step :: "('c, 'o) RPCInvoker \<Rightarrow> rpc_lib \<Rightarrow> env \<Rightarrow> ('c, 'o) slots \<Rightarrow> ('c, 'o) slots \<Rightarrow> bool"
  for iv R env where
  arrive: "slPhase s p = Outside \<or> slPhase s p = Left r \<Longrightarrow> slot_step iv R env s (move p (Entered a) (slWorld s) s)"
| run: "piece iv R env (slPhase s p) (slWorld s) = Some (x, w) \<Longrightarrow> slot_step iv R env s (move p x w s)"
| acquire: "slPhase s p = Waiting cc a \<Longrightarrow> invLimitCh iv = Some cap \<Longrightarrow> slTokens s < cap \<Longrightarrow>
     slot_step iv R env s (move p (Inside cc a) (emit EvAcquire (slWorld s)) (s\<lparr>slTokens := Suc (slTokens s)\<rparr>))"
| give_up: "slPhase s p = Waiting cc a \<Longrightarrow> invLimitCh iv = Some cap \<Longrightarrow> ctxErr cc (wTick (slWorld s)) = Some e \<Longrightarrow>
     slot_step iv R env s (move p (Left (slotRefused (ivTarget a) e)) (slWorld s) s)"
| release: "slPhase s p = Leaving r \<Longrightarrow> invLimitCh iv = Some cap \<Longrightarrow> 0 < slTokens s \<Longrightarrow>
     slot_step iv R env s (move p (Left r) (emit EvRelease (slWorld s)) (s\<lparr>slTokens := slTokens s - 1\<rparr>))"
| no_limit: "slPhase s p = Waiting cc a \<Longrightarrow> invLimitCh iv = None \<Longrightarrow>
     slot_step iv R env s (move p (Inside cc a) (slWorld s) s)"
| leave: "slPhase s p = Leaving r \<Longrightarrow> invLimitCh iv = None \<Longrightarrow> slot_step iv R env s (move p (Left r) (slWorld s) s)"
| pass: "wTick (slWorld s) \<le> t \<Longrightarrow> slot_step iv R env s (s\<lparr>slWorld := (slWorld s)\<lparr>wTick := t\<rparr>\<rparr>)"

definition slots0 :: "'o world \<Rightarrow> ('c, 'o) slots" where
  "slots0 w = \<lparr>slPhase = (\<lambda>_. Outside), slTokens = 0, slWorld = w\<rparr>"

inductive slots_reach :: "('c, 'o) RPCInvoker \<Rightarrow> rpc_lib \<Rightarrow> env \<Rightarrow> 'o world \<Rightarrow> ('c, 'o) slots \<Rightarrow> bool" for iv R env w where
  start: "slots_reach iv R env w (slots0 w)"
| step: "slots_reach iv R env w s \<Longrightarrow> slot_step iv R env s t \<Longrightarrow> slots_reach iv R env w t"

subsection \<open>Who holds a slot\<close>

fun holding :: "'c phase \<Rightarrow> bool" where
  "holding (Inside _ _) = True"
| "holding (Connected _ _ _) = True"
| "holding (Returning _ _) = True"
| "holding (Leaving _) = True"
| "holding _ = False"

text \<open>The client of an invocation, between its making and its \<open>Close\<close>.\<close>

fun client_of :: "'c phase \<Rightarrow> 'c option" where
  "client_of (Connected cl _ _) = Some cl"
| "client_of (Returning _ cl) = Some cl"
| "client_of _ = None"

definition holders :: "('c, 'o) slots \<Rightarrow> nat set" where
  "holders s = {p. holding (slPhase s p)}"

definition clients :: "('c, 'o) slots \<Rightarrow> nat set" where
  "clients s = {p. client_of (slPhase s p) \<noteq> None}"

definition slots_inv :: "nat \<Rightarrow> ('c, 'o) slots \<Rightarrow> bool" where
  "slots_inv cap s \<longleftrightarrow> finite (holders s) \<and> slTokens s = card (holders s) \<and> slTokens s \<le> cap"

lemma move_simps [simp]:
  "slPhase (move p x w s) = (slPhase s)(p := x)" "slTokens (move p x w s) = slTokens s" "slWorld (move p x w s) = w"
  by (simp_all add: move_def)

lemma holders_move: "holders (move p x w s) = (if holding x then insert p (holders s) else holders s - {p})"
  by (auto simp: holders_def)

lemma clients_holders: "clients s \<subseteq> holders s"
proof
  fix p assume "p \<in> clients s"
  then show "p \<in> holders s" by (cases "slPhase s p") (simp_all add: clients_def holders_def)
qed

lemma piece_holding: "piece iv R env x w = Some (y, w') \<Longrightarrow> holding y = holding x"
  by (cases x) (auto split: option.splits prod.splits sum.splits)

lemma slots_inv_move: "slots_inv cap s \<Longrightarrow> holding x = holding (slPhase s p) \<Longrightarrow> slots_inv cap (move p x w s)"
  by (simp add: slots_inv_def holders_move insert_absorb) (auto simp: holders_def insert_absorb)

lemma slot_step_inv:
  assumes "slot_step iv R env s t" "invLimitCh iv = Some cap" "slots_inv cap s"
  shows "slots_inv cap t"
  using assms(1)
proof cases
  case (arrive p r a)
  then show ?thesis using slots_inv_move [OF assms(3)] by auto
next
  case (run p x w)
  then show ?thesis using slots_inv_move [OF assms(3)] piece_holding [OF run(2)] by simp
next
  case (acquire p cc a cap')
  have "p \<notin> holders s" using acquire(2) by (simp add: holders_def)
  moreover have "holders (s\<lparr>slTokens := n\<rparr>) = holders s" for n by (simp add: holders_def)
  ultimately show ?thesis using acquire assms(2,3) by (simp add: slots_inv_def holders_move)
next
  case (release p r cap')
  have "p \<in> holders s" using release(2) by (simp add: holders_def)
  moreover have "slTokens s - 1 \<le> cap" using assms(3) unfolding slots_inv_def by linarith
  moreover have "holders (s\<lparr>slTokens := n\<rparr>) = holders s" for n by (simp add: holders_def)
  ultimately show ?thesis using release assms(3) by (auto simp: slots_inv_def holders_move)
next
  case (pass t)
  have "holders (s\<lparr>slWorld := w\<rparr>) = holders s" for w by (simp add: holders_def)
  then show ?thesis using assms(3) pass by (simp add: slots_inv_def)
qed (use slots_inv_move [OF assms(3)] assms(2) in \<open>simp_all\<close>)

lemma slots_reach_inv:
  assumes "slots_reach iv R env w s" "invLimitCh iv = Some cap"
  shows "slots_inv cap s"
  using assms(1)
proof induction
  case start
  show ?case by (simp add: slots_inv_def slots0_def holders_def)
next
  case (step s t)
  then show ?case using slot_step_inv [OF step(2) assms(2)] by blast
qed

subsection \<open>What an invocation can do\<close>

abbreviation slot_steps :: "('c, 'o) RPCInvoker \<Rightarrow> rpc_lib \<Rightarrow> env \<Rightarrow> ('c, 'o) slots \<Rightarrow> ('c, 'o) slots \<Rightarrow> bool" where
  "slot_steps iv R env \<equiv> (slot_step iv R env)\<^sup>*\<^sup>*"

lemma steps_start: "slot_step iv R env s t \<Longrightarrow> slot_steps iv R env t u \<Longrightarrow> slot_steps iv R env s u"
  by (rule converse_rtranclp_into_rtranclp)

lemma steps_around: "slot_step iv R env s t \<Longrightarrow> slot_steps iv R env t u \<Longrightarrow> slot_step iv R env u v \<Longrightarrow> slot_steps iv R env s v"
  by (blast intro: steps_start rtranclp.rtrancl_into_rtrancl)

lemma steps_end: "slot_steps iv R env s t \<Longrightarrow> slot_step iv R env t u \<Longrightarrow> slot_step iv R env u v \<Longrightarrow> slot_steps iv R env s v"
  by (blast intro: rtranclp.rtrancl_into_rtrancl)

lemma move_move: "move p x w (move p y v s) = move p x w s"
  by (simp add: move_def)

lemma piece_step:
  "piece iv R env (slPhase s p) (slWorld s) = Some (x, w) \<Longrightarrow> slot_steps iv R env (move p x w s) u \<Longrightarrow>
     slot_steps iv R env s u"
  by (rule steps_start [OF slot_step.run])

lemma returning_steps:
  "slPhase s p = Returning r cl \<Longrightarrow> slot_steps iv R env s (move p (Leaving r) (closeClient iv cl (slWorld s)) s)"
  by (rule piece_step [of iv R env s p "Leaving r" "closeClient iv cl (slWorld s)"]) simp_all

lemma connected_steps:
  assumes "slPhase s p = Connected cl cc a"
    and "runCall iv R (ivCtx a) cc (ivTarget a) (ivMethod a) (ivPayload a) (ivMeta a) cl (slWorld s) = ((r, cl'), w)"
  shows "slot_steps iv R env s (move p (Leaving r) (closeClient iv cl' w) s)"
  using returning_steps [of "move p (Returning r cl') w s" p r cl' iv R env] assms
  by (intro piece_step [of iv R env s p "Returning r cl'" w]) (simp_all add: move_move)

text \<open>From the slot to the last piece an invocation does what \<open>invokeClient\<close> does.\<close>

lemma inside_steps:
  assumes "slPhase s p = Inside cc a"
    and "invokeClient iv R (ivCtx a) cc (ivTarget a) (ivMethod a) (ivPayload a) (ivMeta a) (slWorld s) = (r, w)"
  shows "slot_steps iv R env s (move p (Leaving r) w s)"
  using assms(2)
proof (cases rule: invokeClient_cases)
  case (no_client e)
  then show ?thesis using assms(1) by (intro piece_step [of iv R env s p "Leaving r" w]) simp_all
next
  case (called cl w1 cl' w2)
  let ?t = "move p (Connected cl cc a) w1 s"
  have "slot_steps iv R env ?t (move p (Leaving r) w ?t)"
    unfolding called(3) by (rule connected_steps [where cl = cl and cc = cc and a = a]) (simp_all add: called(2))
  then show ?thesis using assms(1) called(1)
    by (intro piece_step [of iv R env s p "Connected cl cc a" w1]) (simp_all add: move_move)
qed

text \<open>One that holds a slot can go on to its last piece, whatever the others do.\<close>

lemma finishes: "holding (slPhase s p) \<Longrightarrow> \<exists>r w. slot_steps iv R env s (move p (Leaving r) w s)"
proof (cases "slPhase s p")
  case (Inside cc a)
  then show ?thesis using inside_steps [OF Inside, of iv R _ _ env] by (metis prod.exhaust)
next
  case (Connected cl cc a)
  then show ?thesis using connected_steps [OF Connected, of iv R _ _ _ env] by (metis prod.exhaust)
next
  case (Returning r cl)
  then show ?thesis using returning_steps [OF Returning, of iv R env] by blast
next
  case (Leaving r)
  then have "move p (Leaving r) (slWorld s) s = s" by (simp add: move_def fun_upd_idem)
  then show ?thesis by (metis rtranclp.rtrancl_refl)
qed simp_all

lemma can_enter:
  assumes "slots_inv cap s" "invLimitCh iv = Some cap" "0 < cap" "slPhase s p = Waiting cc a"
  shows "\<exists>u. slot_steps iv R env s u \<and> slPhase u p = Inside cc a"
proof (cases "slTokens s < cap")
  case True
  show ?thesis
    using steps_start [OF slot_step.acquire [OF assms(4,2) True, of R env] rtranclp.rtrancl_refl] by fastforce
next
  case False
  then have full: "slTokens s = cap" using assms(1) by (simp add: slots_inv_def)
  then have "holders s \<noteq> {}" using assms(1,3) by (auto simp: slots_inv_def)
  then obtain q where q: "holding (slPhase s q)" by (auto simp: holders_def)
  then have pq: "p \<noteq> q" using assms(4) by auto
  obtain r w where t: "slot_steps iv R env s (move q (Leaving r) w s)" using finishes [OF q] by blast
  let ?t = "move q (Leaving r) w s"
  let ?u = "move q (Left r) (emit EvRelease (slWorld ?t)) (?t\<lparr>slTokens := slTokens ?t - 1\<rparr>)"
  have u: "slot_step iv R env ?t ?u" by (rule slot_step.release [OF _ assms(2)]) (use full assms(3) in simp_all)
  have w: "slPhase ?u p = Waiting cc a" "slTokens ?u < cap"
    using assms(3,4) pq full by (simp_all add: move_def)
  show ?thesis
    using steps_end [OF t u slot_step.acquire [OF w(1) assms(2) w(2)]] by fastforce
qed

text \<open>
  An invocation that nobody interrupts does what \<open>Invoke\<close> does, when the oracle of the \<open>select\<close>
  gives the slot only if there is one, and refuses it only if the context of the call is done.
\<close>

lemma Invoke_is_a_run:
  assumes "slPhase s p = Entered a"
    and "Invoke iv R env (ivCtx a) (ivTarget a) (ivMethod a) (ivPayload a) (ivMeta a) (slWorld s) = (res, w)"
    and "case eSelect env (wTick (slWorld s)) (callContext iv env (ivCtx a) (wTick (slWorld s))) of
        None \<Rightarrow> \<forall>cap. invLimitCh iv = Some cap \<longrightarrow> slTokens s < cap
      | Some e \<Rightarrow> ctxErr (callContext iv env (ivCtx a) (wTick (slWorld s))) (wTick (slWorld s)) = Some e"
  shows "slot_steps iv R env s (move p (Left res) w s)"
proof (cases "admit iv (ivCtx a) (ivTarget a) (ivPayload a) (wTick (slWorld s))")
  case (Some r)
  then show ?thesis using assms(1,2)
    by (intro piece_step [of iv R env s p "Left res" w]) (simp_all add: Invoke_def)
next
  case None
  let ?cc = "callContext iv env (ivCtx a) (wTick (slWorld s))"
  let ?t = "move p (Waiting ?cc a) (slWorld s) s"
  have t: "slot_steps iv R env ?t u \<Longrightarrow> slot_steps iv R env s u" for u
    by (rule piece_step [of iv R env s p "Waiting ?cc a" "slWorld s"]) (simp_all add: assms(1) None)
  let ?run = "\<lambda>w0. invokeClient iv R (ivCtx a) ?cc (ivTarget a) (ivMethod a) (ivPayload a) (ivMeta a) w0"
  show ?thesis
  proof (cases "invLimitCh iv")
    case no: None
    let ?u = "move p (Inside ?cc a) (slWorld ?t) ?t"
    have "slot_steps iv R env ?u (move p (Leaving res) w ?u)"
      by (rule inside_steps [where cc = ?cc and a = a]) (use assms(2) None no in \<open>simp_all add: Invoke_def Let_def\<close>)
    moreover have "slot_step iv R env (move p (Leaving res) w ?u) (move p (Left res) w (move p (Leaving res) w ?u))"
      using slot_step.leave [of "move p (Leaving res) w ?u" p res iv R env] no by simp
    moreover have "slot_step iv R env ?t ?u" using slot_step.no_limit [of ?t p ?cc a iv R env] no by simp
    ultimately show ?thesis
      using t [OF steps_around [of iv R env ?t ?u "move p (Leaving res) w ?u"]] by (simp add: move_move)
  next
    case cap: (Some cap)
    show ?thesis
    proof (cases "eSelect env (wTick (slWorld s)) ?cc")
      case (Some e)
      then have "res = slotRefused (ivTarget a) e" "w = slWorld s"
        using assms(2) None cap by (simp_all add: Invoke_def Let_def)
      then show ?thesis
        using slot_step.give_up [of ?t p ?cc a iv cap e R env] Some assms(3) cap
        by (intro t r_into_rtranclp) (simp add: move_move)
    next
      case free: None
      obtain w' where w': "?run (emit EvAcquire (slWorld s)) = (res, w')" "w = emit EvRelease w'"
        using assms(2) None cap free by (auto simp: Invoke_def Let_def split: prod.splits)
      let ?u = "move p (Inside ?cc a) (emit EvAcquire (slWorld ?t)) (?t\<lparr>slTokens := Suc (slTokens ?t)\<rparr>)"
      let ?v = "move p (Leaving res) w' ?u"
      have "slot_steps iv R env ?u ?v"
        by (rule inside_steps [where cc = ?cc and a = a]) (use w' in simp_all)
      moreover have "slot_step iv R env ?v (move p (Left res) w s)"
        using slot_step.release [of ?v p res iv cap R env] cap w'(2) by (simp add: move_def)
      moreover have "slot_step iv R env ?t ?u"
        using slot_step.acquire [of ?t p ?cc a iv cap R env] cap free assms(3) by simp
      ultimately show ?thesis by (intro t) (rule steps_around)
    qed
  qed
qed

subsection \<open>The connections behind the clients\<close>

definition owned :: "CustomRpcClient phase \<Rightarrow> nat set" where
  "owned x = (case client_of x of None \<Rightarrow> {} | Some cl \<Rightarrow> set_option (rcCl cl))"

text \<open>Every open connection belongs to the client of an invocation.\<close>

definition conn_inv :: "(CustomRpcClient, net) slots \<Rightarrow> bool" where
  "conn_inv s \<longleftrightarrow> live (nLog (wOut (slWorld s))) \<subseteq> (\<Union>p. owned (slPhase s p))"

lemma conn_inv_move:
  assumes "conn_inv s" "live (nLog (wOut w)) \<subseteq> live (nLog (wOut (slWorld s))) - owned (slPhase s p) \<union> owned x"
  shows "conn_inv (move p x w s)"
proof -
  have "\<exists>q. i \<in> owned (((slPhase s)(p := x)) q)" if "i \<in> live (nLog (wOut w))" for i
  proof (cases "i \<in> owned x")
    case True
    then show ?thesis by (intro exI [of _ p]) simp
  next
    case False
    then have "i \<in> live (nLog (wOut (slWorld s)))" "i \<notin> owned (slPhase s p)" using that assms(2) by auto
    then obtain q where "i \<in> owned (slPhase s q)" "q \<noteq> p" using assms(1) by (auto simp: conn_inv_def)
    then show ?thesis by (intro exI [of _ q]) simp
  qed
  then show ?thesis by (auto simp: conn_inv_def)
qed

definition stray :: "CustomRpcClient \<times> net \<Rightarrow> nat set" where
  "stray cn = live (nLog (snd cn)) - set_option (rcCl (fst cn))"

lemma stray_getClient: "getClient env ctx cn = (r, cn') \<Longrightarrow> stray cn' \<subseteq> stray cn"
  by (auto simp: getClient_def Let_def stray_def live_def split: prod.splits option.splits sum.splits)

lemma stray_invalidate: "stray (invalidate cn) \<subseteq> stray cn"
  by (auto simp: invalidate_def stray_def live_def split: prod.splits option.splits)

lemma stray_Close: "stray (snd (Close env cn)) \<subseteq> stray cn"
  by (auto simp: Close_def stray_def live_def split: prod.splits option.splits)

lemma stray_logged [simp]: "stray (c, log (RpcCall i m) n) = stray (c, n)"
  by (simp add: stray_def live_def)

lemma stray_flag [simp]: "stray (c\<lparr>rcFallback := b\<rparr>, n) = stray (c, n)"
  by (simp add: stray_def)

lemma stray_fallbackCall:
  assumes "fallbackCall env ctx method args reply cn = ((r, rep), cn')"
  shows "stray cn' \<subseteq> stray cn"
  using assms
proof (cases rule: fallbackCall_cases)
  case (no_client e)
  then show ?thesis using stray_getClient by blast
next
  case (ok i c1 n1)
  then show ?thesis using stray_getClient [OF ok(1)] by simp
next
  case (call_failed i c1 n1 e)
  then show ?thesis
    using stray_getClient [OF call_failed(1)] stray_invalidate [of "(c1, log (RpcCall i method) n1)"] by simp
qed

lemma stray_CallClient:
  assumes "CallClient env ctx method args reply (c, n) = ((r, rep), cn')"
  shows "stray cn' \<subseteq> stray (c, n)"
  using assms
proof (cases rule: CallClient_cases)
  case (no_client e)
  then show ?thesis using stray_getClient by blast
next
  case (ok i c1 n1)
  then show ?thesis using stray_getClient [OF ok(1)] by simp
next
  case (call_failed i c1 n1 e)
  then show ?thesis
    using stray_getClient [OF call_failed(1)] stray_invalidate [of "(c1, log (RpcCall i method) n1)"] by simp
next
  case (no_retry i c1 n1 e c3 n3)
  then show ?thesis
    using stray_getClient [OF no_retry(1)] stray_invalidate [of "(c1, log (RpcCall i method) n1)"] by simp
next
  case (retry i c1 n1 e rep1 c3 n3)
  then show ?thesis
    using stray_getClient [OF retry(1)] stray_invalidate [of "(c1, log (RpcCall i method) n1)"]
      stray_fallbackCall [OF retry(8)] by simp
qed simp

lemma conn_inv_piece:
  assumes "invNewClient iv = v3_client_api env" "conn_inv s"
    and "piece iv R penv (slPhase s p) (slWorld s) = Some (x, w)"
  shows "conn_inv (move p x w s)"
proof (rule conn_inv_move [OF assms(2)])
  show "live (nLog (wOut w)) \<subseteq> live (nLog (wOut (slWorld s))) - owned (slPhase s p) \<union> owned x"
  proof (cases "slPhase s p")
    case (Inside cc a)
    then show ?thesis using assms(3) by (auto simp: openClient_v3 [OF assms(1)] owned_def)
  next
    case (Connected cl cc a)
    obtain out ce cl' w' where k:
      "runCall iv R (ivCtx a) cc (ivTarget a) (ivMethod a) (ivPayload a) (ivMeta a) cl (slWorld s) = (((out, ce), cl'), w')"
      by (metis prod.exhaust)
    have "stray (cl', wOut w') \<subseteq> stray (cl, wOut (slWorld s))"
      using runCall_v3 [OF assms(1) k] stray_CallClient by (fastforce simp: stray_def)
    then show ?thesis using assms(3) Connected k by (auto simp: owned_def stray_def)
  next
    case (Returning r cl)
    have "stray (snd (Close env (cl, n))) \<subseteq> stray (cl, n)" "rcCl (fst (snd (Close env (cl, n)))) = None" for n
      using stray_Close [of env "(cl, n)"] by (auto simp: Close_def split: option.splits)
    then show ?thesis using assms(3) Returning
      by (fastforce simp: owned_def stray_def closeClient_v3 [OF assms(1)])
  qed (use assms(3) in \<open>auto simp: owned_def split: option.splits\<close>)
qed

lemma conn_inv_step:
  assumes "slot_step iv R penv s t" "invNewClient iv = v3_client_api env" "conn_inv s"
  shows "conn_inv t"
  using assms(1)
proof cases
  case (run p x w)
  then show ?thesis using conn_inv_piece [OF assms(2,3)] by blast
next
  case (acquire p cc a cap)
  then show ?thesis using conn_inv_move [OF assms(3), of "emit EvAcquire (slWorld s)" p "Inside cc a"]
    by (simp add: owned_def conn_inv_def)
next
  case (release p r cap)
  then show ?thesis using conn_inv_move [OF assms(3), of "emit EvRelease (slWorld s)" p "Left r"]
    by (simp add: owned_def conn_inv_def)
next
  case (pass t)
  then show ?thesis using assms(3) by (simp add: conn_inv_def)
next
  case (arrive p r a)
  then show ?thesis using conn_inv_move [OF assms(3), of "slWorld s" p "Entered a"] by (auto simp: owned_def)
qed (use conn_inv_move [OF assms(3), of "slWorld s"] in \<open>auto simp: owned_def\<close>)

lemma conn_inv_reach:
  assumes "slots_reach iv R penv w s" "invNewClient iv = v3_client_api env" "live (nLog (wOut w)) = {}"
  shows "conn_inv s"
  using assms(1)
proof induction
  case start
  show ?case using assms(3) by (simp add: conn_inv_def slots0_def)
next
  case (step s t)
  then show ?case using conn_inv_step [OF step(2) assms(2)] by blast
qed

lemma owned_client: "i \<in> owned (slPhase s p) \<Longrightarrow> p \<in> clients s \<and> i = the (rcCl (the (client_of (slPhase s p))))"
  by (auto simp: owned_def clients_def split: option.splits)

lemma conn_inv_bound:
  assumes "conn_inv s" "finite (clients s)"
  shows "finite (live (nLog (wOut (slWorld s)))) \<and> card (live (nLog (wOut (slWorld s)))) \<le> card (clients s)"
proof -
  let ?f = "\<lambda>p. the (rcCl (the (client_of (slPhase s p))))"
  have "live (nLog (wOut (slWorld s))) \<subseteq> ?f ` clients s"
  proof
    fix i assume "i \<in> live (nLog (wOut (slWorld s)))"
    then obtain p where "i \<in> owned (slPhase s p)" using assms(1) by (auto simp: conn_inv_def)
    then show "i \<in> ?f ` clients s" using owned_client by blast
  qed
  then show ?thesis
    using finite_subset [OF _ finite_imageI [OF assms(2)]] surj_card_le [OF assms(2)] by blast
qed

lemma limited:
  assumes "0 < value" "slots_reach (InvokerWithMaxConcurrent value iv) R env w s"
  shows "slots_inv (nat value) s" "invLimitCh (InvokerWithMaxConcurrent value iv) = Some (nat value)"
proof -
  show l: "invLimitCh (InvokerWithMaxConcurrent value iv) = Some (nat value)"
    using assms(1) by (simp add: InvokerWithMaxConcurrent_def)
  show "slots_inv (nat value) s" by (rule slots_reach_inv [OF assms(2) l])
qed

subsection \<open>Properties\<close>

text \<open>
  C11: The concurrency limit. With a positive limit, in every state that any number of invocations
  can reach in any order, at most so many of them are past the select, and only those have a client;
  one that has closed its client can always give its token back, it never blocks there; and one that
  waits can enter at once unless the limit is used up, and can enter after some steps of the others in any
  case (which of those that wait does is up to the scheduler).
\<close>

theorem concurrency_limited:
  assumes "0 < value" and "slots_reach (InvokerWithMaxConcurrent value iv) R env w s"
  shows "finite (holders s) \<and> int (card (holders s)) \<le> value \<and> clients s \<subseteq> holders s \<and>
    (\<forall>p r. slPhase s p = Leaving r \<longrightarrow>
      (\<exists>u. slot_step (InvokerWithMaxConcurrent value iv) R env s u \<and> slPhase u p = Left r)) \<and>
    (\<forall>p cc a. slPhase s p = Waiting cc a \<longrightarrow>
      (int (card (holders s)) < value \<longrightarrow>
        (\<exists>u. slot_step (InvokerWithMaxConcurrent value iv) R env s u \<and> slPhase u p = Inside cc a)) \<and>
      (\<exists>u. slot_steps (InvokerWithMaxConcurrent value iv) R env s u \<and> slPhase u p = Inside cc a))"
proof (intro conjI allI impI)
  let ?iv = "InvokerWithMaxConcurrent value iv"
  note l = limited [OF assms]
  show "finite (holders s)" "int (card (holders s)) \<le> value" using l(1) assms(1) by (auto simp: slots_inv_def)
  show "clients s \<subseteq> holders s" by (rule clients_holders)
  show "\<exists>u. slot_step ?iv R env s u \<and> slPhase u p = Left r" if "slPhase s p = Leaving r" for p r
  proof -
    have "p \<in> holders s" using that by (simp add: holders_def)
    then have "0 < slTokens s" using l(1) by (auto simp: slots_inv_def card_gt_0_iff)
    then show ?thesis using slot_step.release [OF that l(2), of R env] by fastforce
  qed
  show "\<exists>u. slot_step ?iv R env s u \<and> slPhase u p = Inside cc a"
    if "slPhase s p = Waiting cc a" "int (card (holders s)) < value" for p cc a
  proof -
    have "slTokens s < nat value" using l(1) that(2) by (simp add: slots_inv_def)
    then show ?thesis using slot_step.acquire [OF that(1) l(2), of R env] by fastforce
  qed
  show "\<exists>u. slot_steps ?iv R env s u \<and> slPhase u p = Inside cc a" if "slPhase s p = Waiting cc a" for p cc a
    using can_enter [OF l(1,2) _ that] assms(1) by simp
qed

text \<open>
  C8: The limit on connections. With the default client factory and a positive limit, however many
  invocations run at once and whatever the network answers, the proxy never has more connections open
  than the limit, and none when no invocation is between the making of its client and its \<open>Close\<close>.
\<close>

theorem open_connections_limited:
  assumes "0 < value" and "invNewClient iv = v3_client_api env" and "live (nLog (wOut w)) = {}"
    and "slots_reach (InvokerWithMaxConcurrent value iv) R penv w s"
  shows "finite (live (nLog (wOut (slWorld s)))) \<and> int (card (live (nLog (wOut (slWorld s))))) \<le> value \<and>
    ((\<forall>p. client_of (slPhase s p) = None) \<longrightarrow> live (nLog (wOut (slWorld s))) = {})"
proof -
  have a: "invNewClient (InvokerWithMaxConcurrent value iv) = v3_client_api env"
    using assms(2) by (simp add: InvokerWithMaxConcurrent_def)
  note l = limited [OF assms(1,4)]
  have c: "conn_inv s" by (rule conn_inv_reach [OF assms(4) a assms(3)])
  have h: "finite (holders s)" "int (card (holders s)) \<le> value" using l(1) assms(1) by (auto simp: slots_inv_def)
  then have "finite (clients s)" "card (clients s) \<le> card (holders s)"
    using finite_subset [OF clients_holders] card_mono [OF _ clients_holders] by blast+
  moreover have "(\<forall>p. client_of (slPhase s p) = None) \<longrightarrow> clients s = {}" by (simp add: clients_def)
  ultimately show ?thesis using conn_inv_bound [OF c] h(2) by auto
qed

subsection \<open>Witnesses\<close>

text \<open>Two invocations on a limit of one: the first is inside, the second waits.\<close>

definition invocation0 :: invocation where
  "invocation0 = \<lparr>ivCtx = background, ivTarget = target0, ivMethod = ''miki.Get'', ivPayload = [1, 2], ivMeta = Map.empty\<rparr>"

lemma reach_one_inside:
  fixes iv :: "('c, 'o) RPCInvoker"
  assumes "payloadLimit iv = 2"
  shows "\<exists>s. slots_reach (InvokerWithMaxConcurrent 1 iv) R calm_env w s \<and> holders s = {0} \<and> (\<exists>cc. slPhase s 0 = Inside cc invocation0) \<and>
    (\<exists>cc. slPhase s 1 = Waiting cc invocation0) \<and> wOut (slWorld s) = wOut w"
proof -
  let ?iv = "InvokerWithMaxConcurrent 1 iv" and ?a = invocation0
  let ?cc = "callContext ?iv calm_env (ivCtx ?a) (wTick w)"
  have pl: "payloadLimit ?iv = 2" using assms by (simp add: payloadLimit_def InvokerWithMaxConcurrent_def split: if_splits)
  have ad: "admit ?iv (ivCtx ?a) (ivTarget ?a) (ivPayload ?a) t = None" for t
    by (simp add: admit_def pl invocation0_def background_def Let_def)
  define s1 :: "('c, 'o) slots" where "s1 = move 0 (Entered ?a) w (slots0 w)"
  define s2 where "s2 = move 0 (Waiting ?cc ?a) w s1"
  define s3 where "s3 = move 0 (Inside ?cc ?a) (emit EvAcquire w) (s2\<lparr>slTokens := Suc (slTokens s2)\<rparr>)"
  define s4 where "s4 = move 1 (Entered ?a) (slWorld s3) s3"
  define s5 where "s5 = move 1 (Waiting (callContext ?iv calm_env (ivCtx ?a) (wTick (slWorld s4))) ?a) (slWorld s4) s4"
  have "slot_step ?iv R calm_env (slots0 w) s1"
    using slot_step.arrive [of "slots0 w" 0 _ ?iv R calm_env ?a] by (simp add: s1_def slots0_def)
  moreover have "slot_step ?iv R calm_env s1 s2"
    using slot_step.run [of ?iv R calm_env s1 0 "Waiting ?cc ?a" w] by (simp add: s1_def s2_def ad)
  moreover have "slot_step ?iv R calm_env s2 s3"
    using slot_step.acquire [of s2 0 ?cc ?a ?iv 1 R calm_env]
    by (simp add: s1_def s2_def s3_def slots0_def InvokerWithMaxConcurrent_def)
  moreover have "slot_step ?iv R calm_env s3 s4"
    using slot_step.arrive [of s3 1 _ ?iv R calm_env ?a] by (simp add: s1_def s2_def s3_def s4_def slots0_def move_def)
  moreover have "slot_step ?iv R calm_env s4 s5"
    using slot_step.run [of ?iv R calm_env s4 1 "Waiting (callContext ?iv calm_env (ivCtx ?a) (wTick (slWorld s4))) ?a" "slWorld s4"]
    by (simp add: s4_def s5_def ad)
  ultimately have "slots_reach ?iv R calm_env w s5"
    by (meson slots_reach.start slots_reach.step)
  moreover have "holders s5 = {0}" "slPhase s5 0 = Inside ?cc ?a" "wOut (slWorld s5) = wOut w"
      "slPhase s5 1 = Waiting (callContext ?iv calm_env (ivCtx ?a) (wTick (slWorld s4))) ?a"
    by (auto simp: holders_def s1_def s2_def s3_def s4_def s5_def slots0_def move_def)
  ultimately show ?thesis by blast
qed

theorem concurrency_limited_witness:
  "\<exists>s u cc. slots_reach (InvokerWithMaxConcurrent 1 (NewRPCInvoker (echo_api [7]) [InvokerWithMaxPayload 2])) plain_rpc_lib calm_env world0 s \<and>
    holders s = {0} \<and> slPhase s 1 = Waiting cc invocation0 \<and>
    slot_steps (InvokerWithMaxConcurrent 1 (NewRPCInvoker (echo_api [7]) [InvokerWithMaxPayload 2])) plain_rpc_lib calm_env s u \<and>
    slPhase u 1 = Inside cc invocation0"
proof -
  let ?iv = "NewRPCInvoker (echo_api [7]) [InvokerWithMaxPayload 2]"
  have "payloadLimit ?iv = 2" by (simp add: NewRPCInvoker_def InvokerWithMaxPayload_def payloadLimit_def)
  then obtain s cc where s: "slots_reach (InvokerWithMaxConcurrent 1 ?iv) plain_rpc_lib calm_env world0 s"
      "holders s = {0}" "slPhase s 1 = Waiting cc invocation0"
    using reach_one_inside [of ?iv plain_rpc_lib world0] by blast
  then show ?thesis using concurrency_limited [OF zero_less_one s(1)] by blast
qed

theorem open_connections_limited_witness:
  "\<exists>s. slots_reach (InvokerWithMaxConcurrent 1 (NewRPCInvoker (v3_client_api seven_env) [InvokerWithMaxPayload 2])) plain_rpc_lib calm_env (world_of net0) s \<and>
    holders s = {0} \<and> int (card (live (nLog (wOut (slWorld s))))) \<le> 1"
proof -
  let ?iv = "NewRPCInvoker (v3_client_api seven_env) [InvokerWithMaxPayload 2]"
  have iv: "payloadLimit ?iv = 2" "invNewClient ?iv = v3_client_api seven_env"
    by (simp_all add: NewRPCInvoker_def InvokerWithMaxPayload_def payloadLimit_def)
  have e: "live (nLog (wOut (world_of net0))) = {}" by (simp add: world_of_def net0_def live_def)
  obtain s where s: "slots_reach (InvokerWithMaxConcurrent 1 ?iv) plain_rpc_lib calm_env (world_of net0) s" "holders s = {0}"
    using reach_one_inside [OF iv(1), of plain_rpc_lib "world_of net0"] by blast
  then show ?thesis using open_connections_limited [OF zero_less_one iv(2) e s(1)] by blast
qed

end
