(* ===== verification/Rpc2Client.thy ===== *)
theory Rpc2Client
  imports Rpc3Calls
begin

text \<open>
  The v2 client (\<open>v2/client.go\<close>, \<open>v2/client_option.go\<close>): one lazily dialled connection with the
  legacy codec, reset after every failed call. The network, its oracles and its log are those
  of the v3 client. The v3 client whose transport is legacy is proved to be a v2 client.
\<close>

record CustomRpcClient2 =
  c2Address :: string
  c2Port :: int
  c2CryptoKey :: bytes
  c2Middlewares :: "middleware list"
  c2Cl :: "nat option"

type_synonym ClientOption2 = "CustomRpcClient2 \<Rightarrow> CustomRpcClient2"

definition ClientWithCryptoKey2 :: "bytes \<Rightarrow> ClientOption2" where
  "ClientWithCryptoKey2 value = (\<lambda>s. s\<lparr>c2CryptoKey := value\<rparr>)"

definition ClientWithAddress2 :: "string \<Rightarrow> ClientOption2" where
  "ClientWithAddress2 value = (\<lambda>s. s\<lparr>c2Address := value\<rparr>)"

definition ClientWithPort2 :: "int \<Rightarrow> ClientOption2" where
  "ClientWithPort2 value = (\<lambda>s. s\<lparr>c2Port := value\<rparr>)"

definition ClientWithMiddleware2 :: "middleware \<Rightarrow> ClientOption2" where
  "ClientWithMiddleware2 function = (\<lambda>c. c\<lparr>c2Middlewares := c2Middlewares c @ [function]\<rparr>)"

definition NewRpcClient2 :: "ClientOption2 list \<Rightarrow> CustomRpcClient2" where
  "NewRpcClient2 opts =
     foldl (\<lambda>client opt. opt client)
       \<lparr>c2Address = ''127.0.0.1'', c2Port = 2233, c2CryptoKey = [], c2Middlewares = [], c2Cl = None\<rparr> opts"

definition getClient2 ::
  "('a, 'r) net_env \<Rightarrow> ctx \<Rightarrow> CustomRpcClient2 \<times> net \<Rightarrow> (err + nat) \<times> CustomRpcClient2 \<times> net" where
  "getClient2 env ctx cn =
     (case cn of (c, n) \<Rightarrow>
        case c2Cl c of
          Some i \<Rightarrow> (Inr i, c, n)
        | None \<Rightarrow>
            let addr = JoinHostPort (c2Address c) (Itoa (c2Port c)) in
            (case neDial env (nTick n) ctx addr of
               Inl e \<Rightarrow> (Inl e, c, n\<lparr>nTick := Suc (nTick n)\<rparr>)
             | Inr conn \<Rightarrow>
                 let i = nNext n;
                     n1 = (log (Opened i addr) n)\<lparr>nNext := Suc i\<rparr>
                 in (case NewClientCodec (neCrypto env) (newWriter \<lparr>snkOut = [], snkLimit = None\<rparr>) (newBufio conn) conn
                            (c2CryptoKey c) of
                       Inl e \<Rightarrow> (Inl e, c, log (Closed i) n1)
                     | Inr cdc \<Rightarrow> (Inr i, c\<lparr>c2Cl := Some i\<rparr>, log (Client i (LegacyClient cdc)) n1))))"

definition invalidate2 :: "CustomRpcClient2 \<times> net \<Rightarrow> CustomRpcClient2 \<times> net" where
  "invalidate2 cn =
     (case cn of (c, n) \<Rightarrow>
        case c2Cl c of
          None \<Rightarrow> (c, n)
        | Some i \<Rightarrow> (c\<lparr>c2Cl := None\<rparr>, log (Closed i) n))"

definition Close2 :: "('a, 'r) net_env \<Rightarrow> CustomRpcClient2 \<times> net \<Rightarrow> err option \<times> CustomRpcClient2 \<times> net" where
  "Close2 env cn =
     (case cn of (c, n) \<Rightarrow>
        case c2Cl c of
          None \<Rightarrow> (None, c, n)
        | Some i \<Rightarrow> (neClose env (nTick n), c\<lparr>c2Cl := None\<rparr>, log (Closed i) n))"

definition CallClient2 ::
  "('a, 'r) net_env \<Rightarrow> ctx \<Rightarrow> string \<Rightarrow> 'a \<Rightarrow> 'r \<Rightarrow> CustomRpcClient2 \<times> net \<Rightarrow>
   (err option \<times> 'r) \<times> CustomRpcClient2 \<times> net" where
  "CallClient2 env ctx0 method args reply cn =
     (let ctx = runMiddlewares (c2Middlewares (fst cn)) ctx0 in
      case ctxErr ctx (nTick (snd cn)) of
        Some e \<Rightarrow> ((Some e, reply), cn)
      | None \<Rightarrow>
          (case getClient2 env ctx cn of
             (Inl e, cn1) \<Rightarrow> ((Some e, reply), cn1)
           | (Inr i, (c1, n1)) \<Rightarrow>
               (case rpcCall env i ctx method args reply n1 of
                  ((Some e, reply'), n2) \<Rightarrow> ((Some e, reply'), invalidate2 (c1, n2))
                | ((None, reply'), n2) \<Rightarrow>
                    (case ctxErr ctx (nTick n2) of
                       Some e \<Rightarrow> ((Some e, reply'), (c1, n2))
                     | None \<Rightarrow> ((None, reply'), (c1, n2))))))"

subsection \<open>A legacy v3 client is a v2 client\<close>

definition toV2 :: "CustomRpcClient \<Rightarrow> CustomRpcClient2" where
  "toV2 c = \<lparr>c2Address = rcAddress c, c2Port = rcPort c, c2CryptoKey = rcCryptoKey c,
     c2Middlewares = rcMiddlewares c, c2Cl = rcCl c\<rparr>"

lemma toV2_simps [simp]:
  "c2Address (toV2 c) = rcAddress c" "c2Port (toV2 c) = rcPort c" "c2CryptoKey (toV2 c) = rcCryptoKey c"
  "c2Middlewares (toV2 c) = rcMiddlewares c" "c2Cl (toV2 c) = rcCl c"
  "(toV2 c)\<lparr>c2Cl := x\<rparr> = toV2 (c\<lparr>rcCl := x\<rparr>)"
  "toV2 (c\<lparr>rcFallback := b\<rparr>) = toV2 c" "toV2 (c\<lparr>rcActive := k\<rparr>) = toV2 c"
  by (simp_all add: toV2_def)

lemma toV2_cl_active [simp]: "toV2 (c\<lparr>rcCl := x, rcActive := k\<rparr>) = toV2 (c\<lparr>rcCl := x\<rparr>)"
  by (simp add: toV2_def)

lemma getClient_legacy:
  assumes "effectiveTransport c = TransportLegacy" "getClient env ctx (c, n) = (r, (c1, n1))"
  shows "getClient2 env ctx (toV2 c, n) = (r, (toV2 c1, n1)) \<and> rcMiddlewares c1 = rcMiddlewares c"
proof (cases "rcCl c")
  case (Some i)
  then show ?thesis using assms by (auto simp: getClient_def getClient2_def)
next
  case None
  show ?thesis
  proof (cases "neDial env (nTick n) ctx (JoinHostPort (rcAddress c) (Itoa (rcPort c)))")
    case (Inl e)
    then show ?thesis using assms None by (auto simp: getClient_def getClient2_def)
  next
    case (Inr conn)
    then show ?thesis
      using assms None
      by (cases "NewClientCodec (neCrypto env) (newWriter \<lparr>snkOut = [], snkLimit = None\<rparr>) (newBufio conn) conn (rcCryptoKey c)")
        (auto simp: getClient_def getClient2_def Let_def NewClientCodecV3_def)
  qed
qed

lemma invalidate_legacy:
  "invalidate (c, n) = (c1, n1) \<Longrightarrow> invalidate2 (toV2 c, n) = (toV2 c1, n1)"
  by (auto simp: invalidate_def invalidate2_def split: option.splits)

lemma CallClient_legacy:
  assumes leg: "effectiveTransport c = TransportLegacy"
    and call: "CallClient env ctx0 method args reply (c, n) = (res, (c', n'))"
  shows "CallClient2 env ctx0 method args reply (toV2 c, n) = (res, (toV2 c', n'))"
proof -
  let ?ctx = "runMiddlewares (rcMiddlewares c) ctx0"
  show ?thesis
  proof (cases "ctxErr ?ctx (nTick n)")
    case (Some e)
    then show ?thesis using call by (auto simp: CallClient_def CallClient2_def)
  next
    case None
    obtain g c1 n1 where g: "getClient env ?ctx (c, n) = (g, (c1, n1))" by (metis prod.exhaust)
    have g2: "getClient2 env ?ctx (toV2 c, n) = (g, (toV2 c1, n1))" using getClient_legacy [OF leg g] by simp
    have s: "rcTransport c1 = rcTransport c" "rcFallback c1 = rcFallback c"
      using sticky_getClient [OF g] fallback_getClient [OF g] by (simp_all add: sticky_def)
    show ?thesis
    proof (cases g)
      case (Inl e)
      then show ?thesis using call None g g2 by (auto simp: CallClient_def CallClient2_def)
    next
      case (Inr i)
      obtain oe rep where k: "neCall env (nTick n1) i ?ctx method args reply = (oe, rep)" by (metis prod.exhaust)
      show ?thesis
      proof (cases oe)
        case no: None
        then have r: "res = (ctxErr ?ctx (Suc (nTick n1)), rep)" "c' = c1" "n' = log (RpcCall i method) n1"
          using call None g Inr k by (simp_all add: CallClient_def rpcCall_def)
        show ?thesis
          unfolding r using None g2 Inr k no
          by (cases "ctxErr ?ctx (Suc (nTick n1))") (simp_all add: CallClient2_def rpcCall_def)
      next
        case (Some e)
        obtain c3 n3 where v: "invalidate (c1, log (RpcCall i method) n1) = (c3, n3)" by (metis prod.exhaust)
        have v2: "invalidate2 (toV2 c1, log (RpcCall i method) n1) = (toV2 c3, n3)" by (rule invalidate_legacy [OF v])
        have f: "rcTransport c3 = rcTransport c" "rcFallback c3 = rcFallback c"
          using invalidate_simps [of "(c1, log (RpcCall i method) n1)"] v s by simp_all
        have "\<not> (rcTransport c3 = TransportAuto \<and> rcActive c3 = TransportJSON \<and> \<not> rcFallback c3)"
          using leg f by (auto simp: effectiveTransport_def)
        then have "res = (Some e, rep) \<and> toV2 c' = toV2 c3 \<and> n' = n3"
          using call None g Inr k Some v
          by (auto simp: CallClient_def rpcCall_def markFallback_def split: if_splits)
        moreover have "CallClient2 env ctx0 method args reply (toV2 c, n) = ((Some e, rep), (toV2 c3, n3))"
          using None g2 Inr k Some v2 by (simp add: CallClient2_def rpcCall_def)
        ultimately show ?thesis by simp
      qed
    qed
  qed
qed

lemma Close_legacy:
  "Close env (c, n) = (r, (c', n')) \<Longrightarrow> Close2 env (toV2 c, n) = (r, (toV2 c', n'))"
  by (auto simp: Close_def Close2_def split: option.splits)

fun runOp2 :: "('a, 'r) net_env \<Rightarrow> ('a, 'r) client_op \<Rightarrow> CustomRpcClient2 \<times> net \<Rightarrow> CustomRpcClient2 \<times> net" where
  "runOp2 env (DoCall ctx method args reply) cn = snd (CallClient2 env ctx method args reply cn)"
| "runOp2 env DoClose cn = snd (Close2 env cn)"

definition runOps2 :: "('a, 'r) net_env \<Rightarrow> ('a, 'r) client_op list \<Rightarrow> CustomRpcClient2 \<times> net \<Rightarrow> CustomRpcClient2 \<times> net" where
  "runOps2 env ops cn = foldl (\<lambda>cn op. runOp2 env op cn) cn ops"

definition absV2 :: "CustomRpcClient \<times> net \<Rightarrow> CustomRpcClient2 \<times> net" where
  "absV2 cn = (toV2 (fst cn), snd cn)"

lemma runOp_legacy:
  assumes "effectiveTransport (fst cn) = TransportLegacy"
  shows "runOp2 env op (absV2 cn) = absV2 (runOp env op cn) \<and> effectiveTransport (fst (runOp env op cn)) = TransportLegacy"
proof
  obtain c n where cn: "cn = (c, n)" by (cases cn)
  show "runOp2 env op (absV2 cn) = absV2 (runOp env op cn)"
  proof (cases op)
    case (DoCall ctx mth arg rply)
    obtain res c' n' where k: "CallClient env ctx mth arg rply (c, n) = (res, (c', n'))" by (metis prod.exhaust)
    then show ?thesis
      using CallClient_legacy [OF _ k] assms by (simp add: DoCall cn absV2_def)
  next
    case DoClose
    obtain r c' n' where k: "Close env (c, n) = (r, (c', n'))" by (metis prod.exhaust)
    then show ?thesis using Close_legacy [OF k] by (simp add: DoClose cn absV2_def)
  qed
  show "effectiveTransport (fst (runOp env op cn)) = TransportLegacy"
    using sticky_runOp [of cn env op] assms
    by (auto simp: sticky_def effectiveTransport_def split: transportKind.splits if_splits)
qed

lemma runOps_legacy:
  "effectiveTransport (fst cn) = TransportLegacy \<Longrightarrow>
   runOps2 env ops (absV2 cn) = absV2 (runOps env ops cn) \<and> effectiveTransport (fst (runOps env ops cn)) = TransportLegacy"
proof (induction ops arbitrary: cn)
  case (Cons op ops)
  then show ?case using runOp_legacy [OF Cons.prems, of env op] by (simp add: runOps_def runOps2_def)
qed (simp add: runOps_def runOps2_def)

subsection \<open>Properties\<close>

text \<open>
  C4: The legacy transport is v2. A v3 client on the legacy transport, by option or after its
  fallback, refines a v2 client with the same address, key and middlewares: over any sequence
  of calls and closes the two open, use and close the same connections with the same codecs,
  and each further call returns the same error and reply.
\<close>

theorem legacy_client_refines_v2:
  assumes "effectiveTransport c = TransportLegacy"
    and "runOps env ops (c, n) = (c1, n1)"
    and "CallClient env ctx method args reply (c1, n1) = (res, (c', n'))"
  shows "runOps2 env ops (toV2 c, n) = (toV2 c1, n1) \<and>
    CallClient2 env ctx method args reply (toV2 c1, n1) = (res, (toV2 c', n'))"
proof -
  have r: "runOps2 env ops (toV2 c, n) = (toV2 c1, n1)" "effectiveTransport c1 = TransportLegacy"
    using runOps_legacy [of "(c, n)" env ops] assms(1,2) by (simp_all add: absV2_def)
  then show ?thesis using CallClient_legacy [OF r(2) assms(3)] by simp
qed

definition legacy0 :: CustomRpcClient where
  "legacy0 = NewRpcClient [ClientWithTransport ''legacy'']"

theorem legacy_client_refines_v2_witness:
  "\<exists>c1 n1 res c' n'. runOps (env_of (\<lambda>i. None)) [DoCall background ''S.M'' 1 0, DoClose] (legacy0, net0) = (c1, n1) \<and>
    CallClient (env_of (\<lambda>i. None)) background ''S.M'' 2 0 (c1, n1) = (res, (c', n')) \<and>
    runOps2 (env_of (\<lambda>i. None)) [DoCall background ''S.M'' 1 0, DoClose] (NewRpcClient2 [], net0) = (toV2 c1, n1) \<and>
    CallClient2 (env_of (\<lambda>i. None)) background ''S.M'' 2 0 (toV2 c1, n1) = (res, (toV2 c', n'))"
proof -
  let ?env = "env_of (\<lambda>i. None)"
  obtain c1 n1 where r: "runOps ?env [DoCall background ''S.M'' 1 0, DoClose] (legacy0, net0) = (c1, n1)"
    by (metis prod.exhaust)
  obtain res c' n' where k: "CallClient ?env background ''S.M'' 2 0 (c1, n1) = (res, (c', n'))" by (metis prod.exhaust)
  have l: "effectiveTransport legacy0 = TransportLegacy" "toV2 legacy0 = NewRpcClient2 []"
    by (simp_all add: legacy0_def NewRpcClient_def ClientWithTransport_def effectiveTransport_def toV2_def NewRpcClient2_def)
  show ?thesis using legacy_client_refines_v2 [OF l(1) r k] l(2) r k by auto
qed

end
