(* ===== verification/Rpc3Concurrent.thy ===== *)
theory Rpc3Concurrent
  imports Rpc3Calls
begin

text \<open>
  The v3 client called from many goroutines (\<open>v3/client.go\<close>). A goroutine inside \<open>Call\<close> is at
  a program point; its next step is one section under the mutex, one call of the RPC library,
  or one look at the context, so a schedule, a list of actions, is an interleaving of the
  goroutines at the granularity the mutex gives. \<open>Rpc3Client\<close> has the sections; run alone, a
  goroutine does what its \<open>CallClient\<close> does.
\<close>

datatype ('a, 'r) pc =
    Idle
  | CheckCtx ctx string 'a 'r
  | Get ctx string 'a 'r
  | Calling nat ctx string 'a 'r
  | CheckAfter ctx 'r
  | Drop nat err ctx string 'a 'r
  | Mark err ctx string 'a 'r
  | GetAgain ctx string 'a 'r
  | CallingAgain nat ctx string 'a 'r
  | DropAgain err 'r
  | Finished "err option" 'r

definition advance ::
  "('a, 'r) net_env \<Rightarrow> ('a, 'r) pc \<Rightarrow> CustomRpcClient \<times> net \<Rightarrow> ('a, 'r) pc \<times> CustomRpcClient \<times> net" where
  "advance env pc cn =
     (case pc of
        Idle \<Rightarrow> (pc, cn)
      | CheckCtx ctx m a r \<Rightarrow>
          (case ctxErr ctx (nTick (snd cn)) of
             Some e \<Rightarrow> (Finished (Some e) r, cn)
           | None \<Rightarrow> (Get ctx m a r, cn))
      | Get ctx m a r \<Rightarrow>
          (case getClient env ctx cn of
             (Inl e, cn1) \<Rightarrow> (Finished (Some e) r, cn1)
           | (Inr i, cn1) \<Rightarrow> (Calling i ctx m a r, cn1))
      | Calling i ctx m a r \<Rightarrow>
          (case rpcCall env i ctx m a r (snd cn) of
             ((None, r'), n1) \<Rightarrow> (CheckAfter ctx r', (fst cn, n1))
           | ((Some e, r'), n1) \<Rightarrow> (Drop i e ctx m a r', (fst cn, n1)))
      | CheckAfter ctx r \<Rightarrow> (Finished (ctxErr ctx (nTick (snd cn))) r, cn)
      | Drop i e ctx m a r \<Rightarrow>
          (if \<not> isConnError (Some e) then (Finished (Some e) r, invalidate cn)
           else (Mark e ctx m a r, invalidate cn))
      | Mark e ctx m a r \<Rightarrow>
          (case markFallback (fst cn) of (wasJSON, alreadyFallback, c1) \<Rightarrow>
             if rcTransport c1 = TransportAuto \<and> wasJSON \<and> \<not> alreadyFallback
             then (GetAgain ctx m a r, (c1, snd cn))
             else (Finished (Some e) r, (c1, snd cn)))
      | GetAgain ctx m a r \<Rightarrow>
          (case getClient env ctx cn of
             (Inl e, cn1) \<Rightarrow> (Finished (Some e) r, cn1)
           | (Inr i, cn1) \<Rightarrow> (CallingAgain i ctx m a r, cn1))
      | CallingAgain i ctx m a r \<Rightarrow>
          (case rpcCall env i ctx m a r (snd cn) of
             ((None, r'), n1) \<Rightarrow> (CheckAfter ctx r', (fst cn, n1))
           | ((Some e, r'), n1) \<Rightarrow> (DropAgain e r', (fst cn, n1)))
      | DropAgain e r \<Rightarrow> (Finished (Some e) r, invalidate cn)
      | Finished oe r \<Rightarrow> (pc, cn))"

subsection \<open>Schedules\<close>

record ('a, 'r) sys =
  sPc :: "nat \<Rightarrow> ('a, 'r) pc"
  sCn :: "CustomRpcClient \<times> net"
  sRetries :: nat

datatype ('a, 'r) action = Begin nat ctx string 'a 'r | Step nat | CloseNow

definition at_rest :: "('a, 'r) pc \<Rightarrow> bool" where
  "at_rest pc = (case pc of Idle \<Rightarrow> True | Finished _ _ \<Rightarrow> True | _ \<Rightarrow> False)"

definition again :: "('a, 'r) pc \<Rightarrow> bool" where
  "again pc = (case pc of GetAgain _ _ _ _ \<Rightarrow> True | _ \<Rightarrow> False)"

fun act :: "('a, 'r) net_env \<Rightarrow> ('a, 'r) action \<Rightarrow> ('a, 'r) sys \<Rightarrow> ('a, 'r) sys" where
  "act env (Begin p ctx m a r) s =
     (if at_rest (sPc s p)
      then s\<lparr>sPc := (sPc s)(p := CheckCtx (runMiddlewares (rcMiddlewares (fst (sCn s))) ctx) m a r)\<rparr>
      else s)"
| "act env (Step p) s =
     (case advance env (sPc s p) (sCn s) of (pc', cn') \<Rightarrow>
        s\<lparr>sPc := (sPc s)(p := pc'), sCn := cn',
          sRetries := sRetries s + (if again pc' \<and> \<not> again (sPc s p) then 1 else 0)\<rparr>)"
| "act env CloseNow s = s\<lparr>sCn := snd (Close env (sCn s))\<rparr>"

definition schedule :: "('a, 'r) net_env \<Rightarrow> ('a, 'r) action list \<Rightarrow> ('a, 'r) sys \<Rightarrow> ('a, 'r) sys" where
  "schedule env acts s = foldl (\<lambda>s a. act env a s) s acts"

definition sys0 :: "CustomRpcClient \<Rightarrow> ('a, 'r) sys" where
  "sys0 c = \<lparr>sPc = (\<lambda>_. Idle), sCn = (c, net0), sRetries = 0\<rparr>"

subsection \<open>Every section keeps the ownership\<close>

lemma rpcCall_owns: "owns cn \<Longrightarrow> rpcCall env i ctx m a r (snd cn) = (res, n1) \<Longrightarrow> owns (fst cn, n1)"
  using owns_rpcCall [of "fst cn" "snd cn" i m] by (auto simp: rpcCall_def)

lemma advance_owns:
  assumes "owns cn" "advance env pc cn = (pc', cn')"
  shows "owns cn'"
proof (cases pc)
  case (Get ctx m a r)
  obtain g cn1 where g: "getClient env ctx cn = (g, cn1)" by (metis prod.exhaust)
  then show ?thesis using assms owns_getClient [OF assms(1) g] by (cases g) (auto simp: advance_def Get)
next
  case (GetAgain ctx m a r)
  obtain g cn1 where g: "getClient env ctx cn = (g, cn1)" by (metis prod.exhaust)
  then show ?thesis using assms owns_getClient [OF assms(1) g] by (cases g) (auto simp: advance_def GetAgain)
next
  case (Calling i ctx m a r)
  obtain oe r' n1 where k: "rpcCall env i ctx m a r (snd cn) = ((oe, r'), n1)" by (metis prod.exhaust)
  then show ?thesis using assms rpcCall_owns [OF assms(1) k] by (cases oe) (auto simp: advance_def Calling)
next
  case (CallingAgain i ctx m a r)
  obtain oe r' n1 where k: "rpcCall env i ctx m a r (snd cn) = ((oe, r'), n1)" by (metis prod.exhaust)
  then show ?thesis using assms rpcCall_owns [OF assms(1) k] by (cases oe) (auto simp: advance_def CallingAgain)
next
  case (Mark e ctx m a r)
  have "owns ((fst cn)\<lparr>rcFallback := True\<rparr>, snd cn)" using owns_fallback_flag [of "fst cn" "snd cn" True] assms(1) by simp
  then show ?thesis using assms(2) by (auto simp: advance_def Mark markFallback_def split: if_splits)
qed (use assms owns_invalidate [OF assms(1)] in \<open>auto simp: advance_def split: option.splits if_splits\<close>)

text \<open>The repetition is taken by one goroutine at most, in the whole life of the client.\<close>

definition retries_ok :: "('a, 'r) sys \<Rightarrow> bool" where
  "retries_ok s \<longleftrightarrow> sRetries s \<le> 1 \<and> (sRetries s = 1 \<longrightarrow> rcFallback (fst (sCn s)))"

lemma advance_flag:
  assumes "advance env pc cn = (pc', cn')" "\<forall>e ctx m a r. pc \<noteq> Mark e ctx m a r"
  shows "rcFallback (fst cn') = rcFallback (fst cn) \<and> \<not> again pc'"
proof (cases pc)
  case (Get ctx m a r)
  obtain g cn1 where g: "getClient env ctx cn = (g, cn1)" by (metis prod.exhaust)
  then show ?thesis using assms fallback_getClient [OF g] by (cases g) (auto simp: advance_def Get again_def)
next
  case (GetAgain ctx m a r)
  obtain g cn1 where g: "getClient env ctx cn = (g, cn1)" by (metis prod.exhaust)
  then show ?thesis using assms fallback_getClient [OF g] by (cases g) (auto simp: advance_def GetAgain again_def)
next
  case (Calling i ctx m a r)
  obtain oe r' n1 where k: "rpcCall env i ctx m a r (snd cn) = ((oe, r'), n1)" by (metis prod.exhaust)
  then show ?thesis using assms by (cases oe) (auto simp: advance_def Calling again_def)
next
  case (CallingAgain i ctx m a r)
  obtain oe r' n1 where k: "rpcCall env i ctx m a r (snd cn) = ((oe, r'), n1)" by (metis prod.exhaust)
  then show ?thesis using assms by (cases oe) (auto simp: advance_def CallingAgain again_def)
qed (use assms invalidate_simps(4) [of cn] in \<open>auto simp: advance_def again_def split: option.splits if_splits\<close>)

lemma advance_mark:
  assumes "advance env (Mark e ctx m a r) cn = (pc', cn')"
  shows "rcFallback (fst cn') \<and> (again pc' \<longrightarrow> \<not> rcFallback (fst cn))"
  using assms by (auto simp: advance_def markFallback_def again_def split: if_splits)

lemma retries_act:
  assumes "retries_ok s"
  shows "retries_ok (act env a s)"
proof (cases a)
  case (Step p)
  obtain pc' cn' where k: "advance env (sPc s p) (sCn s) = (pc', cn')" by (metis prod.exhaust)
  show ?thesis
  proof (cases "\<exists>e ctx m a r. sPc s p = Mark e ctx m a r")
    case True
    then obtain e ctx m b r where m: "sPc s p = Mark e ctx m b r" by blast
    then show ?thesis
      using assms k advance_mark [of env e ctx m b r "sCn s" pc' cn'] by (auto simp: Step retries_ok_def)
  next
    case False
    then show ?thesis using assms k advance_flag [OF k] by (simp add: Step retries_ok_def)
  qed
next
  case (Begin p ctx m b r)
  then show ?thesis using assms by (simp add: retries_ok_def)
next
  case CloseNow
  have "rcFallback (fst (snd (Close env (sCn s)))) = rcFallback (fst (sCn s))"
    by (auto simp: Close_def split: prod.splits option.splits)
  then show ?thesis using assms by (simp add: CloseNow retries_ok_def)
qed

lemma owns_act: "owns (sCn s) \<Longrightarrow> owns (sCn (act env a s))"
proof (cases a)
  case (Step p)
  obtain pc' cn' where k: "advance env (sPc s p) (sCn s) = (pc', cn')" by (metis prod.exhaust)
  show "owns (sCn s) \<Longrightarrow> owns (sCn (act env a s))" using advance_owns [OF _ k] by (simp add: Step k)
next
  case CloseNow
  obtain r cn' where "Close env (sCn s) = (r, cn')" by (metis prod.exhaust)
  then show "owns (sCn s) \<Longrightarrow> owns (sCn (act env a s))" using owns_Close [of "sCn s" env r cn'] by (simp add: CloseNow)
qed simp

interpretation sched_owns: steps_keep "act env" "\<lambda>s. owns (sCn s)" for env
  by unfold_locales (rule owns_act)

interpretation sched_retries: steps_keep "act env" retries_ok for env
  by unfold_locales (rule retries_act)

subsection \<open>A goroutine alone\<close>

fun solo :: "nat \<Rightarrow> ('a, 'r) net_env \<Rightarrow> ('a, 'r) pc \<times> CustomRpcClient \<times> net \<Rightarrow> ('a, 'r) pc \<times> CustomRpcClient \<times> net" where
  "solo 0 env s = s"
| "solo (Suc k) env s = solo k env (advance env (fst s) (snd s))"

lemma solo_Finished [simp]: "solo k env (Finished oe r, cn) = (Finished oe r, cn)"
  by (induction k) (simp_all add: advance_def)

text \<open>
  The steps after a call that failed with a connection error, and after one that succeeded.
\<close>

lemma solo_fallback:
  "solo (Suc (Suc (Suc 0))) env (GetAgain ctx m a r, cn) =
   (case fallbackCall env ctx m a r cn of ((oe, r'), cn') \<Rightarrow> (Finished oe r', cn'))"
proof -
  obtain g c1 n1 where g: "getClient env ctx cn = (g, (c1, n1))" by (metis prod.exhaust)
  show ?thesis
  proof (cases g)
    case (Inl e)
    then show ?thesis using g by (simp add: advance_def fallbackCall_def)
  next
    case (Inr i)
    obtain oe r' n2 where k: "rpcCall env i ctx m a r n1 = ((oe, r'), n2)" by (metis prod.exhaust)
    then show ?thesis using g Inr by (cases oe) (simp_all add: advance_def fallbackCall_def)
  qed
qed

lemma solo_mark:
  "solo (Suc (Suc (Suc (Suc 0)))) env (Mark e ctx m a r, (c, n)) =
   (case markFallback c of (wasJSON, alreadyFallback, c1) \<Rightarrow>
      if rcTransport c1 = TransportAuto \<and> wasJSON \<and> \<not> alreadyFallback
      then case fallbackCall env ctx m a r (c1, n) of ((oe, r'), cn') \<Rightarrow> (Finished oe r', cn')
      else (Finished (Some e) r, (c1, n)))"
proof -
  have "solo (Suc k) env (Mark e ctx m a r, (c, n)) =
      (case markFallback c of (wasJSON, alreadyFallback, c1) \<Rightarrow>
        if rcTransport c1 = TransportAuto \<and> wasJSON \<and> \<not> alreadyFallback
        then solo k env (GetAgain ctx m a r, (c1, n))
        else (Finished (Some e) r, (c1, n)))" for k
    by (simp add: advance_def markFallback_def)
  then show ?thesis by (simp only: solo_fallback)
qed

lemma solo_drop:
  "solo (Suc k) env (Drop i e ctx m a r, cn) =
   (if \<not> isConnError (Some e) then (Finished (Some e) r, invalidate cn)
    else solo k env (Mark e ctx m a r, invalidate cn))"
  by (simp add: advance_def)

subsection \<open>Properties\<close>

text \<open>
  Run alone, a goroutine does what Call does: the eight steps of a goroutine that is not
  interrupted end with the error, the reply, the client and the network of \<open>CallClient\<close>.
\<close>

lemma solo_run_is_Call:
  "solo 8 env (CheckCtx (runMiddlewares (rcMiddlewares c) ctx0) method args reply, (c, n)) =
   (case CallClient env ctx0 method args reply (c, n) of ((oe, r), cn') \<Rightarrow> (Finished oe r, cn'))"
proof -
  let ?ctx = "runMiddlewares (rcMiddlewares c) ctx0"
  let ?run = "solo (Suc (Suc (Suc (Suc (Suc (Suc (Suc (Suc 0)))))))) env (CheckCtx ?ctx method args reply, (c, n))"
  have "?run = (case CallClient env ctx0 method args reply (c, n) of ((oe, r), cn') \<Rightarrow> (Finished oe r, cn'))"
  proof (cases "ctxErr ?ctx (nTick n)")
    case (Some e)
    then show ?thesis by (simp add: advance_def CallClient_def)
  next
    case None
    obtain g c1 n1 where g: "getClient env ?ctx (c, n) = (g, (c1, n1))" by (metis prod.exhaust)
    show ?thesis
    proof (cases g)
      case (Inl e)
      then show ?thesis using None g by (simp add: advance_def CallClient_def)
    next
      case (Inr i)
      obtain oe r' n2 where k: "rpcCall env i ?ctx method args reply n1 = ((oe, r'), n2)" by (metis prod.exhaust)
      show ?thesis
      proof (cases oe)
        case no: None
        then show ?thesis using None g Inr k by (simp add: advance_def CallClient_def)
      next
        case (Some e)
        obtain c3 n3 where v: "invalidate (c1, n2) = (c3, n3)" by (metis prod.exhaust)
        have "?run = solo (Suc (Suc (Suc (Suc (Suc 0))))) env (Drop i e ?ctx method args r', (c1, n2))"
          using None g Inr k Some by (simp add: advance_def del: solo.simps(2)) (simp add: advance_def)
        also have "\<dots> = (if \<not> isConnError (Some e) then (Finished (Some e) r', (c3, n3))
            else solo (Suc (Suc (Suc (Suc 0)))) env (Mark e ?ctx method args r', (c3, n3)))"
          by (simp only: solo_drop v)
        finally show ?thesis
          using None g Inr k Some v by (simp only: solo_mark) (simp add: CallClient_def markFallback_def)
      qed
    qed
  qed
  then show ?thesis by (simp add: eval_nat_numeral del: solo.simps)
qed

text \<open>
  C3: Concurrent calls share one connection. Whatever the interleaving of any number of
  goroutines calling and closing one client, at every moment the open connections are exactly
  the one the client holds, none is closed twice or before it is opened, a Close at that moment
  leaves none open, and over the whole life of the client one goroutine at most repeats its call
  on the legacy transport.
\<close>

theorem concurrent_calls_own_connection:
  assumes "rcCl c = None" and "schedule env acts (sys0 c) = s"
  shows "live (nLog (snd (sCn s))) = set_option (rcCl (fst (sCn s))) \<and>
    closed (nLog (snd (sCn s))) \<subseteq> opened (nLog (snd (sCn s))) \<and>
    distinct (filter (\<lambda>ev. \<exists>i. ev = Closed i) (nLog (snd (sCn s)))) \<and>
    live (nLog (snd (snd (Close env (sCn s))))) = {} \<and> sRetries s \<le> 1"
proof -
  have o: "owns (sCn s)"
    unfolding assms(2) [symmetric] schedule_def
    by (rule sched_owns.run) (simp add: sys0_def owns_start [OF assms(1)])
  moreover have "retries_ok s"
    unfolding assms(2) [symmetric] schedule_def
    by (rule sched_retries.run) (simp add: sys0_def retries_ok_def)
  moreover have "live (nLog (snd (snd (Close env (sCn s))))) = {}"
    using owns_Close [OF o, of env "fst (Close env (sCn s))" "snd (Close env (sCn s))"] by (simp add: owns_def)
  ultimately show ?thesis by (simp add: owns_def retries_ok_def)
qed

theorem concurrent_calls_own_connection_witness:
  "\<exists>s. schedule (env_of (\<lambda>i. Some EOF)) [Begin 0 background ''S.M'' 1 0, Begin 1 background ''S.M'' 2 0, Step 0, Step 1, Step 0, CloseNow]
     (sys0 client0) = s \<and> live (nLog (snd (sCn s))) = set_option (rcCl (fst (sCn s))) \<and>
     closed (nLog (snd (sCn s))) \<subseteq> opened (nLog (snd (sCn s))) \<and> sRetries s \<le> 1"
proof -
  have "rcCl client0 = None" by (simp add: client0_def NewRpcClient_def)
  then show ?thesis using concurrent_calls_own_connection [OF _ refl] by blast
qed

definition stale_schedule :: "ctx \<Rightarrow> string \<Rightarrow> 'a \<Rightarrow> 'r \<Rightarrow> ('a, 'r) action list" where
  "stale_schedule ctx m a r =
     [Begin 0 ctx m a r, Begin 1 ctx m a r, Step 0, Step 0, Step 1, Step 1,
      Step 0, Step 1, Step 1, Step 1, Begin 1 ctx m a r, Step 1, Step 1]"

text \<open>The step that drops a connection looks at the client only, not at the connection that failed.\<close>

lemma drop_step:
  assumes "sPc s p = Drop i e ctx m a r" "rcCl (fst (sCn s)) = Some j"
  shows "nLog (snd (sCn (act env (Step p) s))) = nLog (snd (sCn s)) @ [Closed j]"
    and "rcCl (fst (sCn (act env (Step p) s))) = None"
    and "q \<noteq> p \<Longrightarrow> sPc (act env (Step p) s) q = sPc s q"
  using assms by (cases "sCn s"; simp add: advance_def invalidate_def)+

text \<open>
  C23: A late failure closes a healthy connection. Whatever connection the client holds when a
  goroutine comes to drop the one its call failed on is closed, also when another goroutine is
  calling on it. That is reached from every client that does not fall back: if the calls on the
  first connection fail, for whatever reason, and dialling works, then two goroutines that fail on
  connection 0 can come to the point where one of them is calling on connection 1, which is the
  client's and the only open one, while the other is still to drop connection 0; its next step then
  closes connection 1 under that call and leaves the client without a connection.
\<close>

theorem stale_failure_closes_fresh_connection:
  assumes "rcCl c = None" and "rcTransport c \<noteq> TransportAuto"
    and "\<And>t. ctxErr (runMiddlewares (rcMiddlewares c) ctx) t = None"
    and "\<And>t a. \<exists>conn. neDial env t (runMiddlewares (rcMiddlewares c) ctx) a = Inr conn"
    and "\<And>w conn j. \<exists>cdc. NewClientCodecV3 (neCrypto env) w conn (rcCryptoKey c) (rcMaxJSONBody c) j = Inr cdc"
    and "\<And>t. \<exists>e r'. neCall env t 0 (runMiddlewares (rcMiddlewares c) ctx) m a r = (Some e, r')"
  shows "\<exists>s e r'. schedule env (stale_schedule ctx m a r) (sys0 c) = s \<and>
    sPc s 0 = Drop 0 e (runMiddlewares (rcMiddlewares c) ctx) m a r' \<and>
    sPc s 1 = Calling 1 (runMiddlewares (rcMiddlewares c) ctx) m a r \<and>
    rcCl (fst (sCn s)) = Some 1 \<and> live (nLog (snd (sCn s))) = {1} \<and>
    nLog (snd (sCn (act env (Step 0) s))) = nLog (snd (sCn s)) @ [Closed 1] \<and>
    sPc (act env (Step 0) s) 1 = sPc s 1 \<and> rcCl (fst (sCn (act env (Step 0) s))) = None"
proof -
  let ?ctx = "runMiddlewares (rcMiddlewares c) ctx" and ?k = "effectiveTransport c"
  let ?c1 = "c\<lparr>rcCl := Some 0, rcActive := ?k\<rparr>" and ?c2 = "c\<lparr>rcActive := ?k, rcCl := None\<rparr>"
  obtain n1 where g1: "getClient env ?ctx (c, net0) = (Inr 0, (?c1, n1))" "nNext n1 = 1"
    using getClient_connects [OF assms(1,4,5), of net0] by (auto simp: net0_def)
  have g1': "getClient env ?ctx (?c1, n1) = (Inr 0, (?c1, n1))" by (simp add: getClient_def)
  obtain e0 r0 where k0: "neCall env (nTick n1) 0 ?ctx m a r = (Some e0, r0)" using assms(6) by blast
  obtain e1 r1 where k1: "neCall env (Suc (nTick n1)) 0 ?ctx m a r = (Some e1, r1)" using assms(6) by blast
  let ?n4 = "log (Closed 0) (log (RpcCall 0 m) (log (RpcCall 0 m) n1))"
  let ?c4 = "if isConnError (Some e1) then ?c2\<lparr>rcFallback := True\<rparr> else ?c2"
  have c4: "rcCl ?c4 = None" "rcCryptoKey ?c4 = rcCryptoKey c" "rcMaxJSONBody ?c4 = rcMaxJSONBody c" "rcMiddlewares ?c4 = rcMiddlewares c"
    by simp_all
  obtain n5 where g2: "getClient env ?ctx (?c4, ?n4) = (Inr 1, (?c4\<lparr>rcCl := Some 1, rcActive := effectiveTransport ?c4\<rparr>, n5))"
    using getClient_connects [of ?c4 env ?ctx ?n4] assms(4,5) c4 g1(2) by auto
  define s where "s = schedule env (stale_schedule ctx m a r) (sys0 c)"
  have s: "sPc s 0 = Drop 0 e0 ?ctx m a r0" "sPc s 1 = Calling 1 ?ctx m a r" "rcCl (fst (sCn s)) = Some 1"
  proof (atomize (full), cases "isConnError (Some e1)")
    case True
    then show "sPc s 0 = Drop 0 e0 ?ctx m a r0 \<and> sPc s 1 = Calling 1 ?ctx m a r \<and> rcCl (fst (sCn s)) = Some 1"
      using assms(2,3) g1 g1' k0 k1 g2
      by (simp add: s_def stale_schedule_def schedule_def sys0_def advance_def at_rest_def again_def rpcCall_def invalidate_def
          markFallback_def)
  next
    case False
    then show "sPc s 0 = Drop 0 e0 ?ctx m a r0 \<and> sPc s 1 = Calling 1 ?ctx m a r \<and> rcCl (fst (sCn s)) = Some 1"
      using assms(2,3) g1 g1' k0 k1 g2
      by (simp add: s_def stale_schedule_def schedule_def sys0_def advance_def at_rest_def again_def rpcCall_def invalidate_def)
  qed
  have "owns (sCn s)"
    unfolding s_def schedule_def by (rule sched_owns.run) (simp add: sys0_def owns_start [OF assms(1)])
  then have "live (nLog (snd (sCn s))) = {1}" using s(3) by (simp add: owns_def)
  then show ?thesis using s s_def drop_step [OF s(1,3)] by auto
qed

theorem stale_failure_closes_fresh_connection_witness:
  "\<exists>s. schedule (env_of (\<lambda>i. if i = 0 then Some EOF else None)) (stale_schedule background ''S.M'' 1 0)
      (sys0 (NewRpcClient [ClientWithTransport ''json''])) = s \<and>
    (\<exists>r. sPc s 1 = Calling 1 background ''S.M'' 1 r) \<and> live (nLog (snd (sCn s))) = {1} \<and>
    nLog (snd (sCn (act (env_of (\<lambda>i. if i = 0 then Some EOF else None)) (Step 0) s))) = nLog (snd (sCn s)) @ [Closed 1]"
proof -
  let ?env = "env_of (\<lambda>i. if i = 0 then Some EOF else None)" and ?c = "NewRpcClient [ClientWithTransport ''json'']"
  have c: "rcCl ?c = None" "rcTransport ?c \<noteq> TransportAuto" "rcMiddlewares ?c = []" "rcCryptoKey ?c = []" "rcMaxJSONBody ?c = 0"
    by (simp_all add: NewRpcClient_def ClientWithTransport_def)
  have x: "runMiddlewares (rcMiddlewares ?c) background = background" by (simp add: c(3) runMiddlewares_def)
  have k: "\<exists>cdc. NewClientCodecV3 (neCrypto ?env) w conn (rcCryptoKey ?c) (rcMaxJSONBody ?c) j = Inr cdc" for w and conn :: conn and j
    by (cases j) (simp_all add: c NewClientCodecV3_def NewClientCodec_def)
  have "ctxErr (runMiddlewares (rcMiddlewares ?c) background) t = None"
      "\<exists>conn. neDial ?env t (runMiddlewares (rcMiddlewares ?c) background) a = Inr conn"
      "\<exists>e r'. neCall ?env t 0 (runMiddlewares (rcMiddlewares ?c) background) ''S.M'' 1 0 = (Some e, r')" for t a
    unfolding x by (simp_all add: background_def env_of_def)
  note e = this
  from stale_failure_closes_fresh_connection [OF c(1,2) e(1,2) k e(3)] show ?thesis
    unfolding x by metis
qed

text \<open>Two goroutines of a client in auto mode, calling at once on a server that only speaks legacy.\<close>

definition fallback_schedule :: "(nat, nat) action list" where
  "fallback_schedule = [Begin 0 background ''S.M'' 1 0, Begin 1 background ''S.M'' 2 0,
     Step 0, Step 0, Step 1, Step 1, Step 0, Step 1, Step 0, Step 0, Step 1, Step 1, Step 0, Step 0, Step 0]"

text \<open>
  C27: The fallback serves one call only. A goroutine whose call failed on the JSON connection after
  another has set the fallback flag ends with the error of the connection and does not try the
  legacy transport, although that may work: with two goroutines calling at once on a
  legacy-only server, one gets its reply on the second connection and the other the error of
  the first, while the same call made alone by a fresh client succeeds.
\<close>

theorem concurrent_fallback_fails_the_others:
  "(sPc s p = Mark e ctx m a r \<longrightarrow> rcFallback (fst (sCn s)) \<longrightarrow>
      sPc (act env (Step p) s) p = Finished (Some e) r \<and> snd (sCn (act env (Step p) s)) = snd (sCn s)) \<and>
   (\<exists>s. schedule (env_of (\<lambda>i. if i = 0 then Some EOF else None)) fallback_schedule (sys0 client0) = s \<and>
      sPc s 0 = Finished None 1 \<and> sPc s 1 = Finished (Some EOF) 0 \<and>
      calls (nLog (snd (sCn s))) = [0, 0, 1] \<and> rcCl (fst (sCn s)) = Some 1) \<and>
   fst (CallClient (env_of (\<lambda>i. if i = 0 then Some EOF else None)) background ''S.M'' 2 0 (client0, net0)) = (None, 2)"
proof (intro conjI impI)
  assume "sPc s p = Mark e ctx m a r" "rcFallback (fst (sCn s))"
  then show "sPc (act env (Step p) s) p = Finished (Some e) r" "snd (sCn (act env (Step p) s)) = snd (sCn s)"
    by (simp_all add: advance_def markFallback_def)
next
  show "\<exists>s. schedule (env_of (\<lambda>i. if i = 0 then Some EOF else None)) fallback_schedule (sys0 client0) = s \<and>
      sPc s 0 = Finished None 1 \<and> sPc s 1 = Finished (Some EOF) 0 \<and>
      calls (nLog (snd (sCn s))) = [0, 0, 1] \<and> rcCl (fst (sCn s)) = Some 1"
    by (simp add: fallback_schedule_def schedule_def sys0_def advance_def at_rest_def again_def client_eval)
  show "fst (CallClient (env_of (\<lambda>i. if i = 0 then Some EOF else None)) background ''S.M'' 2 0 (client0, net0)) = (None, 2)"
    by (simp add: client_eval)
qed

theorem concurrent_fallback_fails_the_others_witness:
  "sPc (act (env_of (\<lambda>i. None)) (Step 1)
      ((sys0 client0)\<lparr>sPc := (\<lambda>_. Mark EOF background ''S.M'' 1 0), sCn := (client0\<lparr>rcFallback := True\<rparr>, net0)\<rparr>)) 1 =
    Finished (Some EOF) 0"
proof -
  let ?s = "(sys0 client0)\<lparr>sPc := (\<lambda>_. Mark EOF background ''S.M'' 1 0), sCn := (client0\<lparr>rcFallback := True\<rparr>, net0)\<rparr>"
  have "sPc ?s 1 = Mark EOF background ''S.M'' 1 0" "rcFallback (fst (sCn ?s))" by simp_all
  with concurrent_fallback_fails_the_others [of ?s 1 EOF background "''S.M''" 1 0 "env_of (\<lambda>i. None)", THEN conjunct1]
  show ?thesis by blast
qed

end
