(* ===== verification/Rpc2Concurrent.thy ===== *)
theory Rpc2Concurrent
  imports Rpc2Client Rpc3Concurrent "HOL-Library.Sublist"
begin

text \<open>
  The v2 client called from many goroutines (\<open>v2/client.go\<close>), at the granularity of
  \<open>Rpc3Concurrent\<close>: a step is one section under the mutex, one call of the RPC library, or one
  look at the context. The v2 client owns its connection in every interleaving, and every
  interleaving of goroutines on a v3 client whose transport is legacy is one of goroutines on a
  v2 client: the steps that only the fallback has do nothing a v2 client could not do.
\<close>

datatype ('a, 'r) pc2 =
    Idle2
  | CheckCtx2 ctx string 'a 'r
  | Get2 ctx string 'a 'r
  | Calling2 nat ctx string 'a 'r
  | CheckAfter2 ctx 'r
  | Drop2 err 'r
  | Finished2 "err option" 'r

definition advance2 ::
  "('a, 'r) net_env \<Rightarrow> ('a, 'r) pc2 \<Rightarrow> CustomRpcClient2 \<times> net \<Rightarrow> ('a, 'r) pc2 \<times> CustomRpcClient2 \<times> net" where
  "advance2 env pc cn =
     (case pc of
        Idle2 \<Rightarrow> (pc, cn)
      | CheckCtx2 ctx m a r \<Rightarrow>
          (case ctxErr ctx (nTick (snd cn)) of
             Some e \<Rightarrow> (Finished2 (Some e) r, cn)
           | None \<Rightarrow> (Get2 ctx m a r, cn))
      | Get2 ctx m a r \<Rightarrow>
          (case getClient2 env ctx cn of
             (Inl e, cn1) \<Rightarrow> (Finished2 (Some e) r, cn1)
           | (Inr i, cn1) \<Rightarrow> (Calling2 i ctx m a r, cn1))
      | Calling2 i ctx m a r \<Rightarrow>
          (case rpcCall env i ctx m a r (snd cn) of
             ((Some e, r'), n1) \<Rightarrow> (Drop2 e r', (fst cn, n1))
           | ((None, r'), n1) \<Rightarrow> (CheckAfter2 ctx r', (fst cn, n1)))
      | CheckAfter2 ctx r \<Rightarrow>
          (case ctxErr ctx (nTick (snd cn)) of
             Some e \<Rightarrow> (Finished2 (Some e) r, cn)
           | None \<Rightarrow> (Finished2 None r, cn))
      | Drop2 e r \<Rightarrow> (Finished2 (Some e) r, invalidate2 cn)
      | Finished2 oe r \<Rightarrow> (pc, cn))"

record ('a, 'r) sys2 =
  s2Pc :: "nat \<Rightarrow> ('a, 'r) pc2"
  s2Cn :: "CustomRpcClient2 \<times> net"

definition at_rest2 :: "('a, 'r) pc2 \<Rightarrow> bool" where
  "at_rest2 pc = (case pc of Idle2 \<Rightarrow> True | Finished2 _ _ \<Rightarrow> True | _ \<Rightarrow> False)"

fun act2 :: "('a, 'r) net_env \<Rightarrow> ('a, 'r) action \<Rightarrow> ('a, 'r) sys2 \<Rightarrow> ('a, 'r) sys2" where
  "act2 env (Begin p ctx m a r) s =
     (if at_rest2 (s2Pc s p)
      then s\<lparr>s2Pc := (s2Pc s)(p := CheckCtx2 (runMiddlewares (c2Middlewares (fst (s2Cn s))) ctx) m a r)\<rparr>
      else s)"
| "act2 env (Step p) s =
     (case advance2 env (s2Pc s p) (s2Cn s) of (pc', cn') \<Rightarrow> s\<lparr>s2Pc := (s2Pc s)(p := pc'), s2Cn := cn'\<rparr>)"
| "act2 env CloseNow s = s\<lparr>s2Cn := snd (Close2 env (s2Cn s))\<rparr>"

definition schedule2 :: "('a, 'r) net_env \<Rightarrow> ('a, 'r) action list \<Rightarrow> ('a, 'r) sys2 \<Rightarrow> ('a, 'r) sys2" where
  "schedule2 env acts s = foldl (\<lambda>s a. act2 env a s) s acts"

definition sys2_0 :: "CustomRpcClient2 \<Rightarrow> ('a, 'r) sys2" where
  "sys2_0 c = \<lparr>s2Pc = (\<lambda>_. Idle2), s2Cn = (c, net0)\<rparr>"

subsection \<open>Ownership\<close>

definition owns2 :: "CustomRpcClient2 \<times> net \<Rightarrow> bool" where
  "owns2 cn \<longleftrightarrow>
     opened (nLog (snd cn)) = {..<nNext (snd cn)} \<and>
     closed (nLog (snd cn)) \<subseteq> {..<nNext (snd cn)} \<and>
     live (nLog (snd cn)) = set_option (c2Cl (fst cn)) \<and>
     distinct (filter (\<lambda>ev. \<exists>i. ev = Closed i) (nLog (snd cn)))"

text \<open>The v3 client on the legacy transport that stands for a v2 client.\<close>

definition asV3 :: "CustomRpcClient2 \<Rightarrow> CustomRpcClient" where
  "asV3 c = \<lparr>rcAddress = c2Address c, rcPort = c2Port c, rcCryptoKey = c2CryptoKey c, rcMaxJSONBody = 0,
     rcTransport = TransportLegacy, rcMiddlewares = c2Middlewares c, rcCl = c2Cl c, rcActive = TransportLegacy,
     rcFallback = False\<rparr>"

lemma asV3_simps [simp]: "toV2 (asV3 c) = c" "effectiveTransport (asV3 c) = TransportLegacy"
  by (simp_all add: asV3_def toV2_def effectiveTransport_def)

lemma owns_toV2: "owns (c, n) \<longleftrightarrow> owns2 (toV2 c, n)"
  by (simp add: owns_def owns2_def)

lemma owns2_asV3: "owns2 (c, n) \<longleftrightarrow> owns (asV3 c, n)"
  by (simp add: owns_toV2)

lemma owns2_getClient2:
  assumes "owns2 cn" "getClient2 env ctx cn = (r, cn')"
  shows "owns2 cn'"
proof -
  obtain c n where cn: "cn = (c, n)" by (cases cn)
  obtain g c1 n1 where g: "getClient env ctx (asV3 c, n) = (g, (c1, n1))" by (metis prod.exhaust)
  have "getClient2 env ctx (c, n) = (g, (toV2 c1, n1))" using getClient_legacy [OF _ g] by simp
  moreover have "owns (c1, n1)" using owns_getClient [OF _ g] assms(1) by (simp add: cn owns2_asV3)
  ultimately show ?thesis using assms(2) by (simp add: cn owns_toV2)
qed

lemma owns2_invalidate2: "owns2 cn \<Longrightarrow> owns2 (invalidate2 cn)"
proof -
  assume o: "owns2 cn"
  obtain c n where cn: "cn = (c, n)" by (cases cn)
  obtain c1 n1 where v: "invalidate (asV3 c, n) = (c1, n1)" by (metis prod.exhaust)
  then have "invalidate2 (c, n) = (toV2 c1, n1)" using invalidate_legacy by fastforce
  moreover have "owns (c1, n1)" using owns_invalidate [of "(asV3 c, n)"] o v by (simp add: cn owns2_asV3)
  ultimately show ?thesis by (simp add: cn owns_toV2)
qed

lemma owns2_Close2: "owns2 cn \<Longrightarrow> owns2 (snd (Close2 env cn))"
proof -
  assume o: "owns2 cn"
  obtain c n where cn: "cn = (c, n)" by (cases cn)
  obtain r c1 n1 where v: "Close env (asV3 c, n) = (r, (c1, n1))" by (metis prod.exhaust)
  then have "Close2 env (c, n) = (r, (toV2 c1, n1))" using Close_legacy by fastforce
  moreover have "owns (c1, n1)" using owns_Close [OF _ v] o by (simp add: cn owns2_asV3)
  ultimately show ?thesis by (simp add: cn owns_toV2)
qed

lemma owns2_rpcCall: "owns2 cn \<Longrightarrow> rpcCall env i ctx m a r (snd cn) = (res, n1) \<Longrightarrow> owns2 (fst cn, n1)"
  by (auto simp: owns2_def rpcCall_def live_def)

lemma advance2_owns:
  assumes "owns2 cn" "advance2 env pc cn = (pc', cn')"
  shows "owns2 cn'"
proof (cases pc)
  case (Get2 ctx m a r)
  obtain g cn1 where g: "getClient2 env ctx cn = (g, cn1)" by (metis prod.exhaust)
  then show ?thesis using assms owns2_getClient2 [OF assms(1) g] by (cases g) (auto simp: advance2_def Get2)
next
  case (Calling2 i ctx m a r)
  obtain oe r' n1 where k: "rpcCall env i ctx m a r (snd cn) = ((oe, r'), n1)" by (metis prod.exhaust)
  then show ?thesis using assms owns2_rpcCall [OF assms(1) k] by (cases oe) (auto simp: advance2_def Calling2)
qed (use assms owns2_invalidate2 [OF assms(1)] in \<open>auto simp: advance2_def split: option.splits\<close>)

lemma owns2_act2: "owns2 (s2Cn s) \<Longrightarrow> owns2 (s2Cn (act2 env a s))"
proof (cases a)
  case (Step p)
  obtain pc' cn' where k: "advance2 env (s2Pc s p) (s2Cn s) = (pc', cn')" by (metis prod.exhaust)
  show "owns2 (s2Cn s) \<Longrightarrow> owns2 (s2Cn (act2 env a s))" using advance2_owns [OF _ k] by (simp add: Step k)
qed (simp_all add: owns2_Close2)

interpretation sched2_owns: steps_keep "act2 env" "\<lambda>s. owns2 (s2Cn s)" for env
  by unfold_locales (rule owns2_act2)

subsection \<open>Refinement\<close>

text \<open>
  A machine that refines another step by step, except for steps that change nothing the other
  could see: every run of the first is a run of the second on a subsequence of the actions.
\<close>

locale simulation =
  fixes cstep :: "'a \<Rightarrow> 'c \<Rightarrow> 'c" and astep :: "'a \<Rightarrow> 'b \<Rightarrow> 'b"
    and absf :: "'c \<Rightarrow> 'b" and Inv :: "'c \<Rightarrow> bool"
  assumes keeps: "Inv s \<Longrightarrow> Inv (cstep a s)"
    and sim: "Inv s \<Longrightarrow> absf (cstep a s) = astep a (absf s) \<or> absf (cstep a s) = absf s"
begin

lemma run: "Inv s \<Longrightarrow> \<exists>acts'. subseq acts' acts \<and> foldl (\<lambda>s a. astep a s) (absf s) acts' = absf (foldl (\<lambda>s a. cstep a s) s acts)"
proof (induction acts arbitrary: s)
  case Nil
  then show ?case by (intro exI [of _ "[]"]) simp
next
  case (Cons a acts)
  obtain acts' where a: "subseq acts' acts"
      "foldl (\<lambda>s a. astep a s) (absf (cstep a s)) acts' = absf (foldl (\<lambda>s a. cstep a s) (cstep a s) acts)"
    using Cons.IH [OF keeps [OF Cons.prems]] by blast
  from sim [OF Cons.prems, of a] show ?case
  proof
    assume "absf (cstep a s) = astep a (absf s)"
    then show ?thesis using a by (intro exI [of _ "a # acts'"]) simp
  next
    assume "absf (cstep a s) = absf s"
    then show ?thesis using a by (intro exI [of _ acts']) (simp add: list_emb_Cons)
  qed
qed

end

fun absPc :: "('a, 'r) pc \<Rightarrow> ('a, 'r) pc2" where
  "absPc Idle = Idle2"
| "absPc (CheckCtx ctx m a r) = CheckCtx2 ctx m a r"
| "absPc (Get ctx m a r) = Get2 ctx m a r"
| "absPc (Calling i ctx m a r) = Calling2 i ctx m a r"
| "absPc (CheckAfter ctx r) = CheckAfter2 ctx r"
| "absPc (Drop i e ctx m a r) = Drop2 e r"
| "absPc (Mark e ctx m a r) = Finished2 (Some e) r"
| "absPc (GetAgain ctx m a r) = Get2 ctx m a r"
| "absPc (CallingAgain i ctx m a r) = Calling2 i ctx m a r"
| "absPc (DropAgain e r) = Drop2 e r"
| "absPc (Finished oe r) = Finished2 oe r"

definition absSys :: "('a, 'r) sys \<Rightarrow> ('a, 'r) sys2" where
  "absSys s = \<lparr>s2Pc = (\<lambda>p. absPc (sPc s p)), s2Cn = absV2 (sCn s)\<rparr>"

definition on_legacy :: "CustomRpcClient \<Rightarrow> bool" where
  "on_legacy c \<longleftrightarrow> effectiveTransport c = TransportLegacy"

lemma on_legacy_sticky: "on_legacy c \<Longrightarrow> sticky c c' \<Longrightarrow> on_legacy c'"
  by (auto simp: on_legacy_def sticky_def effectiveTransport_def split: transportKind.splits if_splits)

lemma sticky_invalidate: "sticky (fst cn) (fst (invalidate cn))"
  by (simp add: sticky_def invalidate_simps)

lemma getClient_on_legacy:
  assumes "on_legacy (fst cn)" "getClient env ctx cn = (g, cn1)"
  shows "getClient2 env ctx (absV2 cn) = (g, absV2 cn1) \<and> on_legacy (fst cn1)"
proof -
  obtain c n c1 n1 where cn: "cn = (c, n)" "cn1 = (c1, n1)" by (cases cn, cases cn1)
  show ?thesis
    using getClient_legacy [of c env ctx n g c1 n1] assms on_legacy_sticky [OF assms(1) sticky_getClient [OF assms(2)]]
    by (simp add: cn absV2_def on_legacy_def)
qed

lemma invalidate_on_legacy:
  assumes "on_legacy (fst cn)"
  shows "invalidate2 (absV2 cn) = absV2 (invalidate cn) \<and> on_legacy (fst (invalidate cn))"
proof -
  obtain c n c1 n1 where cn: "cn = (c, n)" "invalidate cn = (c1, n1)" by (cases cn, metis prod.exhaust)
  show ?thesis
    using invalidate_legacy [of c n c1 n1] on_legacy_sticky [OF assms sticky_invalidate] cn by (simp add: absV2_def)
qed

lemma advance_on_legacy:
  assumes leg: "on_legacy (fst cn)" and step: "advance env pc cn = (pc', cn')"
  shows "advance2 env (absPc pc) (absV2 cn) = (absPc pc', absV2 cn') \<and> on_legacy (fst cn')"
proof (cases pc)
  case (Get ctx m a r)
  obtain g cn1 where g: "getClient env ctx cn = (g, cn1)" by (metis prod.exhaust)
  then show ?thesis using getClient_on_legacy [OF leg g] step by (cases g) (auto simp: advance_def advance2_def Get)
next
  case (GetAgain ctx m a r)
  obtain g cn1 where g: "getClient env ctx cn = (g, cn1)" by (metis prod.exhaust)
  then show ?thesis using getClient_on_legacy [OF leg g] step by (cases g) (auto simp: advance_def advance2_def GetAgain)
next
  case (Calling i ctx m a r)
  obtain oe r' n1 where k: "rpcCall env i ctx m a r (snd cn) = ((oe, r'), n1)" by (metis prod.exhaust)
  then show ?thesis using leg step by (cases oe) (auto simp: advance_def advance2_def Calling absV2_def)
next
  case (CallingAgain i ctx m a r)
  obtain oe r' n1 where k: "rpcCall env i ctx m a r (snd cn) = ((oe, r'), n1)" by (metis prod.exhaust)
  then show ?thesis using leg step by (cases oe) (auto simp: advance_def advance2_def CallingAgain absV2_def)
next
  case (Mark e ctx m a r)
  have "on_legacy ((fst cn)\<lparr>rcFallback := True\<rparr>)"
    using on_legacy_sticky [OF leg, of "(fst cn)\<lparr>rcFallback := True\<rparr>"] by (simp add: sticky_def)
  moreover have "\<not> (rcTransport (fst cn) = TransportAuto \<and> rcActive (fst cn) = TransportJSON \<and> \<not> rcFallback (fst cn))"
    using leg by (auto simp: on_legacy_def effectiveTransport_def split: if_splits)
  ultimately show ?thesis
    using step by (auto simp: advance_def advance2_def Mark markFallback_def absV2_def split: if_splits)
next
  case (CheckCtx ctx m a r)
  then show ?thesis using leg step by (auto simp: advance_def advance2_def absV2_def split: option.splits)
next
  case (CheckAfter ctx r)
  then show ?thesis using leg step by (cases "ctxErr ctx (nTick (snd cn))") (auto simp: advance_def advance2_def absV2_def)
qed (use leg step invalidate_on_legacy [OF leg] in \<open>auto simp: advance_def advance2_def split: if_splits\<close>)

lemma Close_on_legacy:
  assumes "on_legacy (fst cn)"
  shows "snd (Close2 env (absV2 cn)) = absV2 (snd (Close env cn)) \<and> on_legacy (fst (snd (Close env cn)))"
proof -
  obtain c n where cn: "cn = (c, n)" by (cases cn)
  obtain r c1 n1 where k: "Close env (c, n) = (r, (c1, n1))" by (metis prod.exhaust)
  have "sticky c c1" using k by (auto simp: Close_def sticky_def split: option.splits)
  then show ?thesis using Close_legacy [OF k] k on_legacy_sticky assms by (auto simp: cn absV2_def)
qed

lemma act_on_legacy:
  assumes "on_legacy (fst (sCn s))"
  shows "(absSys (act env a s) = act2 env a (absSys s) \<or> absSys (act env a s) = absSys s) \<and>
    on_legacy (fst (sCn (act env a s)))"
proof (cases a)
  case (Begin p ctx m b r)
  show ?thesis
  proof (cases "at_rest (sPc s p)")
    case True
    then have "at_rest2 (absPc (sPc s p))" by (cases "sPc s p") (simp_all add: at_rest_def at_rest2_def)
    then show ?thesis using assms True by (auto simp: Begin absSys_def absV2_def)
  next
    case False
    then show ?thesis using assms by (simp add: Begin)
  qed
next
  case (Step p)
  obtain pc' cn' where k: "advance env (sPc s p) (sCn s) = (pc', cn')" by (metis prod.exhaust)
  then show ?thesis using advance_on_legacy [OF assms k] by (auto simp: Step absSys_def)
next
  case CloseNow
  then show ?thesis using Close_on_legacy [OF assms, of env] by (simp add: absSys_def)
qed

interpretation legacy_sim: simulation "act env" "act2 env" absSys "\<lambda>s. on_legacy (fst (sCn s))" for env
  by unfold_locales (use act_on_legacy in blast)+

subsection \<open>Properties\<close>

text \<open>
  A v2 client owns its connection whatever the interleaving of the goroutines that call and
  close it: the open connections are exactly the one it holds, and none is closed twice.
\<close>

theorem concurrent_v2_calls_own_connection:
  assumes "c2Cl c = None" and "schedule2 env acts (sys2_0 c) = s"
  shows "live (nLog (snd (s2Cn s))) = set_option (c2Cl (fst (s2Cn s))) \<and>
    distinct (filter (\<lambda>ev. \<exists>i. ev = Closed i) (nLog (snd (s2Cn s))))"
proof -
  have "owns2 (s2Cn s)"
    unfolding assms(2) [symmetric] schedule2_def
    by (rule sched2_owns.run) (simp add: sys2_0_def owns2_def net0_def live_def assms(1))
  then show ?thesis by (simp add: owns2_def)
qed

text \<open>
  C24: goroutines on a v3 client whose transport is legacy are goroutines on a v2 client. For
  every schedule of calls, steps and closes on the one there is a schedule of the other, made of
  some of the same actions in the same order, after which the two have opened, used and closed
  the same connections, every goroutine that has finished has the same error and reply, and
  the v2 client holds the only open connection.
\<close>

theorem concurrent_legacy_refines_v2:
  assumes "effectiveTransport c = TransportLegacy" and "rcCl c = None"
    and "schedule env acts (sys0 c) = s"
  shows "\<exists>acts' s2. subseq acts' acts \<and> schedule2 env acts' (sys2_0 (toV2 c)) = s2 \<and>
    s2Cn s2 = (toV2 (fst (sCn s)), snd (sCn s)) \<and>
    (\<forall>p oe r. sPc s p = Finished oe r \<longrightarrow> s2Pc s2 p = Finished2 oe r) \<and>
    live (nLog (snd (s2Cn s2))) = set_option (c2Cl (fst (s2Cn s2)))"
proof -
  have "on_legacy (fst (sCn (sys0 c :: ('a, 'b) sys)))" using assms(1) by (simp add: sys0_def on_legacy_def)
  from legacy_sim.run [OF this, of acts env] obtain acts' where a: "subseq acts' acts"
      "schedule2 env acts' (absSys (sys0 c)) = absSys s"
    unfolding assms(3) [symmetric] schedule_def schedule2_def by blast
  have i: "absSys (sys0 c) = (sys2_0 (toV2 c) :: ('a, 'b) sys2)" by (simp add: absSys_def sys0_def sys2_0_def absV2_def)
  have "c2Cl (toV2 c) = None" using assms(2) by simp
  then have "owns2 (s2Cn (absSys s))"
    unfolding a(2) [symmetric] i schedule2_def
    by (intro sched2_owns.run) (simp add: sys2_0_def owns2_def net0_def live_def)
  then show ?thesis using a(1) a(2) [unfolded i]
    by (intro exI [of _ acts'] exI [of _ "absSys s"]) (simp add: absSys_def absV2_def owns2_def)
qed

theorem concurrent_legacy_refines_v2_witness:
  "\<exists>acts' s2. schedule2 (env_of (\<lambda>i. Some EOF)) acts' (sys2_0 (toV2 legacy0)) = s2 \<and>
    snd (s2Cn s2) = snd (sCn (schedule (env_of (\<lambda>i. Some EOF))
      [Begin 0 background ''S.M'' 1 0, Begin 1 background ''S.M'' 2 0, Step 0, Step 1, Step 0, Step 1, CloseNow] (sys0 legacy0)))"
proof -
  have "effectiveTransport legacy0 = TransportLegacy" "rcCl legacy0 = None"
    by (simp_all add: legacy0_def NewRpcClient_def ClientWithTransport_def effectiveTransport_def)
  from concurrent_legacy_refines_v2 [OF this refl] show ?thesis by (metis snd_conv)
qed

end
