(* ===== verification/RpcEffort.thy ===== *)
theory RpcEffort
  imports Rpc2Concurrent
begin



text \<open>The connections opened, with repetitions if there were any.\<close>

definition dials :: "net_event list \<Rightarrow> nat list" where
  "dials l = concat (map (\<lambda>ev. case ev of Opened i a \<Rightarrow> [i] | _ \<Rightarrow> []) l)"

lemma dials_simps [simp]:
  "dials [] = []" "dials (l @ m) = dials l @ dials m" "dials (Opened i a # l) = i # dials l"
  "dials (RpcCall i m' # l) = dials l" "dials (Client i cdc # l) = dials l" "dials (Closed i # l) = dials l"
  by (simp_all add: dials_def)

subsection \<open>v3\<close>














subsection \<open>v2\<close>









subsection \<open>Properties\<close>


end
