(* ===== verification/JsonCryptoResponses.thy ===== *)
theory JsonCryptoResponses
  imports JsonCryptoSession
begin

text \<open>
  The other direction of the sessions of \<open>JsonCryptoSession\<close>: the responses an encrypted JSON server
  codec writes, read by its client. While they succeed the server's writes are those of a
  client, and the two read in the same way, so the sessions of requests are reused; so is the
  loss of what arrives behind a message.
\<close>

lemma CryptoWriteResponse_ok:
  "CryptoWriteRequest L rnd hdr body c = (None, c') \<Longrightarrow> CryptoWriteResponse L rnd closeErr hdr body c = (None, c')"
  by (auto simp: CryptoWriteRequest_def CryptoWriteResponse_def split: prod.splits option.splits)

primrec cryptoAnswers ::
  "crypto_lib \<Rightarrow> err option \<Rightarrow> outgoing list \<Rightarrow> 's jsonCryptoCodec \<Rightarrow>
   (err option \<times> bytes) list \<times> 's jsonCryptoCodec" where
  "cryptoAnswers L closeErr [] c = ([], c)"
| "cryptoAnswers L closeErr (m # msgs) c =
     (case CryptoWriteResponse L (fst m) closeErr (Inr (fst (snd m))) (Inr (snd (snd m))) c of
        (e, c1) \<Rightarrow>
          (case cryptoAnswers L closeErr msgs c1 of
             (rs, c2) \<Rightarrow> ((e, drop (length (snkOut (bwSink (jyBuf c)))) (snkOut (bwSink (jyBuf c1)))) # rs, c2)))"

fun cryptoReceives ::
  "json_lib \<Rightarrow> crypto_lib \<Rightarrow> bytes gob_interp \<Rightarrow> (bytes \<Rightarrow> err + 'r) \<Rightarrow> (conn \<times> (bytes \<Rightarrow> err + 'v) option) list \<Rightarrow>
   conn jsonCryptoCodec \<Rightarrow> (((err + 'r) \<times> (err + 'v option)) list \<times> conn jsonCryptoCodec) option" where
  "cryptoReceives J L G umRes [] c = Some ([], c)"
| "cryptoReceives J L G umRes ((arrivals, body) # calls) c =
     (case CryptoReadResponseHeader J connRead umRes (arrive arrivals c) of
        None \<Rightarrow> None
      | Some (h, c1) \<Rightarrow>
          (case CryptoReadResponseBody J L G connRead body c1 of
             None \<Rightarrow> None
           | Some (v, c2) \<Rightarrow>
               (case cryptoReceives J L G umRes calls c2 of
                  None \<Rightarrow> None
                | Some (rs, c3) \<Rightarrow> Some ((h, v) # rs, c3))))"

lemma cryptoReceives_eq: "cryptoReceives J L G um calls c = cryptoServe J L G um calls c"
  by (induction J L G um calls c rule: cryptoReceives.induct)
    (simp_all add: CryptoReadResponseHeader_def CryptoReadResponseBody_def CryptoReadRequestHeader_def
      CryptoReadRequestBody_def cong: option.case_cong prod.case_cong)

lemma CryptoWriteRequest_closed:
  "CryptoWriteRequest L rnd hdr body c = (None, c') \<Longrightarrow> jyClosed c' = jyClosed c"
  by (auto simp: CryptoWriteRequest_def cryptoEncode_def cryptoBody_def cryptoFlush_def split: prod.splits option.splits)

lemma cryptoAnswers_ok:
  assumes "map fst (cryptoSends L msgs c) = replicate (length msgs) None"
  shows "fst (cryptoAnswers L closeErr msgs c) = cryptoSends L msgs c \<and>
    jyClosed (snd (cryptoAnswers L closeErr msgs c)) = jyClosed c"
  using assms
proof (induction msgs arbitrary: c)
  case (Cons m msgs)
  obtain e c1 where w: "CryptoWriteRequest L (fst m) (Inr (fst (snd m))) (Inr (snd (snd m))) c = (e, c1)"
    by (metis prod.exhaust)
  then have e: "e = None" and r: "map fst (cryptoSends L msgs c1) = replicate (length msgs) None"
    using Cons.prems by auto
  obtain rs c2 where a: "cryptoAnswers L closeErr msgs c1 = (rs, c2)" by (metis prod.exhaust)
  show ?case
    using w [unfolded e] Cons.IH [OF r] a CryptoWriteRequest_closed [OF w [unfolded e]]
      CryptoWriteResponse_ok [OF w [unfolded e], of closeErr] by simp
qed simp

lemma newJSONCryptoServerCodec_writes:
  assumes "crypto_lib_ok L" "newJSONCryptoServerCodec L (newWriter \<lparr>snkOut = [], snkLimit = None\<rparr>) x key m = Inr c"
  shows "crypto_wf (jyCrypto c)" "writer_ok (jyBuf c)" "encErr (jyEnc c) = None" "bwBuf (jyBuf c) = []"
  using assms newCrypto_wf [OF assms(1), of key]
  by (auto simp: newJSONCryptoServerCodec_def bindR_eq_Inr Let_def newWriter_def writer_ok_def newEncoder_def)

subsection \<open>Properties\<close>

text \<open>
  C40: encrypted JSON responses, one at a time. A server and a client made with the same secret:
  the responses are all written, the server's codec stays open, and if each arrives, in any
  pieces, while the client waits for it, reading header and body gives exactly what
  unmarshalling the sent texts gives, in order. Each message must fit the client's limit.
\<close>

theorem json_crypto_responses_roundtrip:
  fixes srv :: "'s jsonCryptoCodec"
  assumes "json_lib_ok J" and "crypto_lib_ok L" and "gob_bytes_ok G"
    and "newJSONCryptoServerCodec L (newWriter \<lparr>snkOut = [], snkLimit = None\<rparr>) x key m = Inr srv"
    and "newJSONCryptoClientCodec L w arr0 key m' = Inr cl"
    and "\<forall>(rnd, h, t) \<in> set msgs. rand_ok rnd \<and> (\<exists>n. rnd 12 = Inr n) \<and> fits J (effectiveMaxBody m') h \<and>
      int (length t) + 54 \<le> effectiveMaxBody m' \<and> length t + 39 < tooBig"
    and "cryptoAnswers L closeErr msgs srv = (sent_out, srv')"
    and "length arrs = length msgs" and "length bodies = length msgs" and "\<forall>a \<in> set arrs. conn_ok a"
    and "map conn_content arrs = map snd sent_out"
  shows "map fst sent_out = replicate (length msgs) None \<and> jyClosed srv' = jyClosed srv \<and>
    (\<exists>c'. cryptoReceives J L G umRes (zip arrs bodies) cl =
      Some (map2 (\<lambda>m body. (umRes (fst (snd m)), unmarshalBody J body (snd (snd m)))) msgs bodies, c'))"
proof -
  note srv = newJSONCryptoServerCodec_writes [OF assms(2,4)]
  have sent: "map fst (cryptoSends L msgs srv) = replicate (length msgs) None"
  proof -
    have r: "\<forall>(rnd, h, t) \<in> set msgs. \<exists>n. rnd 12 = Inr n" using assms(6) by auto
    obtain blobs where "cryptoSends L msgs srv = map2 (\<lambda>m ct. (None, crypto_call (fst (snd m)) ct)) msgs blobs"
        "list_all2 (\<lambda>m ct. Encrypt L (fst m) (jyCrypto srv) (snd (snd m)) = Inr ct) msgs blobs"
      using cryptoSends_ok [OF assms(2) srv r] by blast
    then show ?thesis by (simp add: list_all2_lengthD case_prod_beta comp_def map_replicate_const)
  qed
  have w: "sent_out = cryptoSends L msgs srv" "jyClosed srv' = jyClosed srv"
    using cryptoAnswers_ok [OF sent, of closeErr] assms(7) by simp_all
  have arr: "map conn_content arrs = map snd (cryptoSends L msgs srv)" using assms(11) w(1) by simp
  have "\<exists>c'. cryptoServe J L G umRes (zip arrs bodies) cl =
      Some (map2 (\<lambda>m body. (umRes (fst (snd m)), unmarshalBody J body (snd (snd m)))) msgs bodies, c')"
    using json_crypto_session [OF assms(1-3) assms(4) [folded newJSONCryptoClientCodec_eq]
        assms(5) [unfolded newJSONCryptoClientCodec_eq] assms(6,8,9,10) arr] by blast
  then show ?thesis using sent w by (simp add: cryptoReceives_eq)
qed

theorem json_crypto_responses_roundtrip_witness:
  "\<exists>srv sent_out srv' cl c'. newJSONCryptoServerCodec plain_crypto_lib (newWriter sink0) () [1] 0 = Inr srv \<and>
    cryptoAnswers plain_crypto_lib None [(zero_rand, braces [1], braces [2])] srv = (sent_out, srv') \<and>
    newJSONCryptoClientCodec plain_crypto_lib (newWriter sink0) [] [1] 0 = Inr cl \<and>
    cryptoReceives brace_lib plain_crypto_lib plain_gob Inr (zip [[Piece (snd (hd sent_out))]] [Some Inr]) cl =
      Some ([(Inr (braces [1]), Inr (Some (braces [2])))], c')"
proof -
  let ?msgs = "[(zero_rand, braces [1], braces [2])]"
  obtain srv :: "unit jsonCryptoCodec" where srv:
    "newJSONCryptoServerCodec plain_crypto_lib (newWriter sink0) () [1] 0 = Inr srv"
    by (rule newJSONCrypto_exists)
  obtain cl :: "conn jsonCryptoCodec" where cl:
    "newJSONCryptoClientCodec plain_crypto_lib (newWriter sink0) [] [1] 0 = Inr cl"
    unfolding newJSONCryptoClientCodec_eq by (rule newJSONCrypto_exists)
  obtain sent_out srv' where a: "cryptoAnswers plain_crypto_lib None ?msgs srv = (sent_out, srv')"
    by (metis prod.exhaust)
  let ?out = "snd (hd sent_out)"
  note cw = newJSONCryptoServerCodec_writes [OF plain_crypto_lib_ok srv [unfolded sink0_def]]
  obtain blobs where b: "cryptoSends plain_crypto_lib ?msgs srv =
      map2 (\<lambda>m ct. (None, crypto_call (fst (snd m)) ct)) ?msgs blobs"
      "list_all2 (\<lambda>m ct. Encrypt plain_crypto_lib (fst m) (jyCrypto srv) (snd (snd m)) = Inr ct) ?msgs blobs"
    using cryptoSends_ok [OF plain_crypto_lib_ok cw, of ?msgs] by (auto simp: zero_rand_def)
  obtain ct where ct: "blobs = [ct]" using b(2) by (cases blobs) auto
  have "map fst (cryptoSends plain_crypto_lib ?msgs srv) = replicate (length ?msgs) None"
    using b(1) by (simp add: ct del: cryptoSends.simps)
  then have "sent_out = cryptoSends plain_crypto_lib ?msgs srv"
    using cryptoAnswers_ok [of plain_crypto_lib ?msgs srv None] a by (simp del: cryptoSends.simps cryptoAnswers.simps)
  then have w: "sent_out = [(None, crypto_call (braces [1]) ct)]"
    using b(1) by (simp add: ct del: cryptoSends.simps)
  have f: "fits brace_lib (effectiveMaxBody 0) (braces [1])"
    using brace_text [of "[1]"] by (simp add: fits_def effectiveMaxBody_def DefaultMaxJSONBody_def braces_def)
  then have side: "\<forall>(rnd, h, t) \<in> set ?msgs. rand_ok rnd \<and> (\<exists>n. rnd 12 = Inr n) \<and>
      fits brace_lib (effectiveMaxBody 0) h \<and> int (length t) + 54 \<le> effectiveMaxBody 0 \<and> length t + 39 < tooBig"
    using zero_rand_ok
    by (simp add: zero_rand_def effectiveMaxBody_def DefaultMaxJSONBody_def braces_def tooBig_def)
  have arr: "length [[Piece ?out]] = length ?msgs" "length [Some (Inr :: bytes \<Rightarrow> err + bytes)] = length ?msgs"
    "\<forall>a \<in> set [[Piece ?out]]. conn_ok a" "map conn_content [[Piece ?out]] = map snd sent_out"
    by (simp_all add: w conn_ok_def crypto_call_def)
  from json_crypto_responses_roundtrip [OF brace_lib_ok plain_crypto_lib_ok plain_gob_ok srv [unfolded sink0_def]
      cl side a arr, of "Inr :: bytes \<Rightarrow> err + bytes"]
  obtain c' where "cryptoReceives brace_lib plain_crypto_lib plain_gob Inr (zip [[Piece ?out]] [Some Inr]) cl =
      Some (map2 (\<lambda>m body. (Inr (fst (snd m)), unmarshalBody brace_lib body (snd (snd m)))) ?msgs [Some Inr], c')"
    by blast
  then show ?thesis using srv cl a by (auto simp: unmarshalBody_def simp del: cryptoAnswers.simps)
qed

end
