(* ===== verification/JsonCryptoNegotiated.thy ===== *)
theory JsonCryptoNegotiated
  imports JsonCryptoResponses Negotiate
begin

text \<open>
  The encrypted JSON session through the negotiation of \<open>v3/codec/negotiate.go\<close>: a v3 client with a
  secret on the JSON transport, and a v3 server with the same secret that has looked at the first
  two bytes through a \<open>bufio.Reader\<close> and reads the rest of the connection through it.
\<close>

subsection \<open>Peeking leaves a clean reader\<close>

context byte_source begin

lemma fill_clean:
  assumes "bio_clean b" "length (bioBuf b) < bufSize" "length (bioBuf b) < length (bio_content content b)"
  shows "bio_clean (fill rd b)"
proof -
  have b: "bioErr b = None" "ok (bioSrc b)" "content (bioSrc b) \<noteq> []"
    using assms by (auto simp: bio_clean_def bio_content_def)
  obtain k where k: "maxEmptyReads = Suc k" by (metis maxEmptyReads_def numeral_eq_Suc)
  obtain d e s' where r: "rd (bufSize - length (bioBuf b)) (bioSrc b) = ((d, e), s')"
    by (metis prod.exhaust)
  have e: "e = None" using rd_last [OF b(2)] r b(3) by (cases e) auto
  have "d \<noteq> []" using rd_progress [OF b(2), of "bufSize - length (bioBuf b)"] r assms(2) e by auto
  then have "fill rd b = b\<lparr>bioBuf := bioBuf b @ d, bioSrc := s'\<rparr>"
    using r e by (simp add: fill_def k)
  then show ?thesis using rd_more [OF b(2)] r e b(1) by (auto simp: bio_clean_def)
qed

lemma peekFill_clean:
  assumes "bio_clean b" "length (bioBuf b) \<le> bufSize" "n \<le> length (bio_content content b)"
  shows "bio_clean (peekFill rd n b)"
  using assms
proof (induction "if bioErr b = None then Suc n - length (bioBuf b) else 0" arbitrary: b rule: less_induct)
  case less
  show ?case
  proof (cases "length (bioBuf b) < n \<and> length (bioBuf b) < bufSize \<and> bioErr b = None")
    case False
    then have "peekFill rd n b = b" by (subst peekFill.simps) auto
    then show ?thesis using less.prems by simp
  next
    case True
    then have p: "peekFill rd n b = peekFill rd n (fill rd b)" by (subst peekFill.simps) auto
    have "ok (bioSrc b)" using less.prems(1) by (simp add: bio_clean_def)
    then have f: "bio_content content (fill rd b) = bio_content content b" "length (bioBuf (fill rd b)) \<le> bufSize"
      using fill_step [of b] True by auto
    have c: "bio_clean (fill rd b)" by (rule fill_clean) (use True less.prems in auto)
    have "(if bioErr (fill rd b) = None then Suc n - length (bioBuf (fill rd b)) else 0)
        < (if bioErr b = None then Suc n - length (bioBuf b) else 0)"
      using fill_progress [of rd b] True by auto
    from less.hyps [OF this c f(2)] show ?thesis using less.prems(3) by (simp add: p f(1))
  qed
qed

end

interpretation pcc: byte_source prefixRead "bio_content conn_content" "bio_final conn_final" cn.bio_clean
  unfolding prefixRead_def by (rule cn.bufRead_clean_source)

lemma sniff_clean:
  assumes "conn_ok conn" "2 \<le> length (conn_content conn)"
  shows "\<exists>br. sniffServerConn conn = Inr (br, isJSONStream (conn_content conn)) \<and> cn.bio_clean br \<and>
    bio_content conn_content br = conn_content conn"
proof -
  obtain br where br: "sniffServerConn conn = Inr (br, isJSONStream (conn_content conn))" "cn.bio_ready br"
      "bio_content conn_content br = conn_content conn"
    using sniff_long [OF assms] by blast
  have n: "cn.bio_clean (newBufio conn)" "length (bioBuf (newBufio conn)) \<le> bufSize"
    using assms(1) by (simp_all add: cn.bio_clean_def newBufio_def)
  have c: "cn.bio_clean (peekFill connRead 2 (newBufio conn))"
    by (rule cn.peekFill_clean [OF n]) (use assms(2) in simp)
  obtain d e where p: "Peek connRead 2 (newBufio conn) = ((d, e), br)"
    using br(1) by (auto simp: sniffServerConn_def split: prod.splits if_splits)
  have "br = peekFill connRead 2 (newBufio conn) \<or> br = (peekFill connRead 2 (newBufio conn))\<lparr>bioErr := None\<rparr>"
    using p by (auto simp: Peek_def Let_def split: if_splits)
  then have "cn.bio_clean br" using c by (auto simp: cn.bio_clean_def)
  with br show ?thesis by blast
qed

subsection \<open>One call at a time\<close>

text \<open>
  The bytes of a further call reach the connection under the reader of a server that is waiting for
  them; those of the first are there before the negotiation (\<open>None\<close>).
\<close>

definition arriveP :: "conn option \<Rightarrow> prefixConn jsonCryptoCodec \<Rightarrow> prefixConn jsonCryptoCodec" where
  "arriveP a c =
     (case a of
        None \<Rightarrow> c
      | Some s \<Rightarrow> c\<lparr>jySrc := (jySrc c)\<lparr>mSnd := (mSnd (jySrc c))\<lparr>bgSrc := (bgSrc (mSnd (jySrc c)))\<lparr>bioSrc := s\<rparr>\<rparr>\<rparr>\<rparr>)"

fun cryptoServeP ::
  "json_lib \<Rightarrow> crypto_lib \<Rightarrow> bytes gob_interp \<Rightarrow> (bytes \<Rightarrow> err + 'r) \<Rightarrow> (conn option \<times> (bytes \<Rightarrow> err + 'v) option) list \<Rightarrow>
   prefixConn jsonCryptoCodec \<Rightarrow> (((err + 'r) \<times> (err + 'v option)) list \<times> prefixConn jsonCryptoCodec) option" where
  "cryptoServeP J L G umReq [] c = Some ([], c)"
| "cryptoServeP J L G umReq ((arrivals, body) # calls) c =
     (case CryptoReadRequestHeader J prefixRead umReq (arriveP arrivals c) of
        None \<Rightarrow> None
      | Some (h, c1) \<Rightarrow>
          (case CryptoReadRequestBody J L G prefixRead body c1 of
             None \<Rightarrow> None
           | Some (v, c2) \<Rightarrow>
               (case cryptoServeP J L G umReq calls c2 of
                  None \<Rightarrow> None
                | Some (rs, c3) \<Rightarrow> Some ((h, v) # rs, c3))))"

text \<open>The server between two calls: idle, and nothing left on its connection.\<close>

definition drained :: "prefixConn jsonCryptoCodec \<Rightarrow> bool" where
  "drained c \<longleftrightarrow> pcc.jy_idle c \<and> cn.bio_clean (bgSrc (mSnd (jySrc c))) \<and>
     bio_content conn_content (bgSrc (mSnd (jySrc c))) = []"

lemma drained_arriveP:
  assumes "drained c" "conn_ok a"
  shows "pcc.jy_idle (arriveP (Some a) c) \<and> cn.bio_clean (bgSrc (mSnd (jySrc (arriveP (Some a) c)))) \<and>
    bio_content conn_content (bgSrc (mSnd (jySrc (arriveP (Some a) c)))) = conn_content a \<and>
    jyMaxBody (arriveP (Some a) c) = jyMaxBody c \<and> jyCrypto (arriveP (Some a) c) = jyCrypto c"
  using assms
  by (auto simp: drained_def arriveP_def cn.bio_clean_def bio_content_def pcc.jy_idle_def pcc.no_rest_def)

lemma cryptoServeP_calls:
  assumes "json_lib_ok J" "crypto_lib_ok L" "gob_bytes_ok G" "crypto_wf (jyCrypto c)" "drained c"
    and "\<forall>(rnd, h, t) \<in> set msgs. rand_ok rnd \<and> fits J (jyMaxBody c) h \<and>
      int (length t) + 54 \<le> jyMaxBody c \<and> length t + 39 < tooBig"
    and "list_all2 (\<lambda>m ct. Encrypt L (fst m) (jyCrypto c) (snd (snd m)) = Inr ct) msgs blobs"
    and "length arrs = length msgs" "length bodies = length msgs" "\<forall>a \<in> set arrs. conn_ok a"
    and "map conn_content arrs = map2 (\<lambda>m ct. crypto_call (fst (snd m)) ct) msgs blobs"
  shows "\<exists>c'. cryptoServeP J L G umReq (zip (map Some arrs) bodies) c =
    Some (map2 (\<lambda>m body. (umReq (fst (snd m)), unmarshalBody J body (snd (snd m)))) msgs bodies, c')"
  using assms(4-)
proof (induction msgs arbitrary: c blobs arrs bodies)
  case (Cons m msgs)
  obtain rnd h t where m: "m = (rnd, h, t)" by (cases m) auto
  obtain ct blobs' where bl: "blobs = ct # blobs'" using Cons.prems(4) by (cases blobs) auto
  obtain arr arrs' where ar: "arrs = arr # arrs'" using Cons.prems(5) by (cases arrs) auto
  obtain body bodies' where bo: "bodies = body # bodies'" using Cons.prems(6) by (cases bodies) auto
  let ?c = "arriveP (Some arr) c"
  have a: "pcc.jy_idle ?c" "cn.bio_clean (bgSrc (mSnd (jySrc ?c)))"
      "bio_content conn_content (bgSrc (mSnd (jySrc ?c))) = conn_content arr" "jyMaxBody ?c = jyMaxBody c" "jyCrypto ?c = jyCrypto c"
    using drained_arriveP [OF Cons.prems(2), of arr] Cons.prems(7) by (simp_all add: ar)
  have p: "crypto_wf (jyCrypto ?c)" "rand_ok rnd" "fits J (jyMaxBody ?c) h" "int (length t) + 54 \<le> jyMaxBody ?c"
      "length t + 39 < tooBig" "Encrypt L rnd (jyCrypto ?c) t = Inr ct"
      "bio_content conn_content (bgSrc (mSnd (jySrc ?c))) = crypto_call h ct"
    using Cons.prems a(3-5) by (simp_all add: m bl ar)
  obtain c1 c2 where c: "CryptoReadRequestHeader J prefixRead umReq ?c = Some (umReq h, c1)"
      "CryptoReadRequestBody J L G prefixRead body c1 = Some (unmarshalBody J body t, c2)"
      "drained c2" "jyMaxBody c2 = jyMaxBody c" "jyCrypto c2 = jyCrypto c"
    using pcc.crypto_call_read [OF assms(1-3) p(1-6) a(1,2) p(7), of umReq body] a(4,5) by (auto simp: drained_def)
  obtain c3 where "cryptoServeP J L G umReq (zip (map Some arrs') bodies') c2 =
      Some (map2 (\<lambda>m body. (umReq (fst (snd m)), unmarshalBody J body (snd (snd m)))) msgs bodies', c3)"
    using Cons.IH [OF _ c(3), of blobs' arrs' bodies'] Cons.prems c(4,5) by (auto simp: bl ar bo)
  then show ?case by (simp add: m ar bo c(1,2))
qed simp

subsection \<open>Properties\<close>

lemma crypto_call_sniffed: "c2 \<in> {34, 32, 9, 10, 13} \<Longrightarrow> isJSONStream (crypto_call (123 # c2 # h) ct)"
  by (auto simp: isJSONStream_def jsonFirstByte_def crypto_call_def)

lemma newJSONCryptoServerCodec_prefix:
  assumes "crypto_lib_ok L"
  shows "\<exists>c. newJSONCryptoServerCodec L w br key m = Inr c \<and> pcc.jy_idle c \<and> bgSrc (mSnd (jySrc c)) = br \<and>
    jyMaxBody c = effectiveMaxBody m \<and> newCrypto L key = Inr (jyCrypto c) \<and> crypto_wf (jyCrypto c)"
proof -
  obtain k where k: "newCrypto L key = Inr k" "crypto_wf k"
    using newCrypto_Inr [OF assms, of key] newCrypto_wf [OF assms, of key] by blast
  show ?thesis
    by (simp add: newJSONCryptoServerCodec_def k Let_def pcc.jy_idle_def pcc.no_rest_def newDecoder_def)
qed

lemma negotiated_crypto_server:
  assumes "crypto_lib_ok L" "0 < length key" "conn_ok arr" "conn_content arr = crypto_call (123 # c2 # rest) ct"
    and "c2 \<in> {34, 32, 9, 10, 13}"
  shows "\<exists>srv. NewServerCodecV3 L w arr key m = Inr (JSONCryptoServer srv) \<and> pcc.jy_idle srv \<and>
    cn.bio_clean (bgSrc (mSnd (jySrc srv))) \<and>
    bio_content conn_content (bgSrc (mSnd (jySrc srv))) = crypto_call (123 # c2 # rest) ct \<and>
    jyMaxBody srv = effectiveMaxBody m \<and> newCrypto L key = Inr (jyCrypto srv) \<and> crypto_wf (jyCrypto srv)"
proof -
  have "2 \<le> length (conn_content arr)" by (simp add: assms(4) crypto_call_def)
  from sniff_clean [OF assms(3) this] obtain br where
    br: "sniffServerConn arr = Inr (br, True)" "cn.bio_clean br" "bio_content conn_content br = conn_content arr"
    using crypto_call_sniffed [OF assms(5)] by (auto simp: assms(4))
  obtain srv where srv: "newJSONCryptoServerCodec L w br key m = Inr srv" "pcc.jy_idle srv"
      "bgSrc (mSnd (jySrc srv)) = br" "jyMaxBody srv = effectiveMaxBody m" "newCrypto L key = Inr (jyCrypto srv)"
      "crypto_wf (jyCrypto srv)"
    using newJSONCryptoServerCodec_prefix [OF assms(1), of w br key m] by blast
  have "NewServerCodecV3 L w arr key m = Inr (JSONCryptoServer srv)"
    using assms(2) by (simp add: NewServerCodecV3_def br(1) srv(1))
  then show ?thesis using br(2,3) srv by (simp add: assms(4))
qed

text \<open>
  C21: the encrypted JSON session of a v3 client and a v3 server that negotiates. The client, made
  with a secret for the JSON transport, writes its calls one at a time; the server sees the first
  call on its connection, in any pieces, takes the encrypted JSON codec from the first two bytes,
  and reads everything through the reader it peeked with: every header and body is
  what unmarshalling the sent texts gives, in order. The first header must begin like a JSON object
  that \<open>json.Marshal\<close> writes, and each message fit the server's limit.
\<close>

theorem json_crypto_negotiated_session:
  assumes "json_lib_ok J" and "crypto_lib_ok L" and "gob_bytes_ok G"
    and "NewClientCodecV3 L (newWriter \<lparr>snkOut = [], snkLimit = None\<rparr>) conn0 key m' True = Inr (JSONCryptoClient cl)"
    and "\<forall>(rnd, h, t) \<in> set (msg # msgs). rand_ok rnd \<and> (\<exists>n. rnd 12 = Inr n) \<and> fits J (effectiveMaxBody m) h \<and>
      int (length t) + 54 \<le> effectiveMaxBody m \<and> length t + 39 < tooBig"
    and "fst (snd msg) = 123 # c2 # rest" and "c2 \<in> {34, 32, 9, 10, 13}"
    and "length arrs = length msgs" and "length bodies = length msgs" and "\<forall>a \<in> set (arr # arrs). conn_ok a"
    and "map conn_content (arr # arrs) = map snd (cryptoSends L (msg # msgs) cl)"
  shows "map fst (cryptoSends L (msg # msgs) cl) = replicate (Suc (length msgs)) None \<and>
    (\<exists>srv c'. NewServerCodecV3 L w arr key m = Inr (JSONCryptoServer srv) \<and>
      cryptoServeP J L G umReq (zip (None # map Some arrs) (body # bodies)) srv =
      Some (map2 (\<lambda>m body. (umReq (fst (snd m)), unmarshalBody J body (snd (snd m)))) (msg # msgs) (body # bodies), c'))"
proof -
  have key: "0 < length key" "newJSONCryptoServerCodec L (newWriter \<lparr>snkOut = [], snkLimit = None\<rparr>) conn0 key m' = Inr cl"
    using assms(4) by (cases key; auto simp: NewClientCodecV3_def newJSONCryptoClientCodec_eq map_sum_def split: sum.splits)+
  have "\<forall>(rnd, h, t) \<in> set (msg # msgs). \<exists>n. rnd 12 = Inr n" using assms(5) by auto
  from cryptoSends_ok [OF assms(2) newJSONCryptoServerCodec_writes [OF assms(2) key(2)] this]
  obtain blobs where b:
      "cryptoSends L (msg # msgs) cl = map2 (\<lambda>m ct. (None, crypto_call (fst (snd m)) ct)) (msg # msgs) blobs"
      "list_all2 (\<lambda>m ct. Encrypt L (fst m) (jyCrypto cl) (snd (snd m)) = Inr ct) (msg # msgs) blobs" by blast
  obtain ct cts where bl: "blobs = ct # cts" using b(2) by (cases blobs) auto
  have len: "length cts = length msgs" using b(2) by (auto simp: bl dest: list_all2_lengthD)
  have out: "conn_content arr = crypto_call (123 # c2 # rest) ct"
      "map conn_content arrs = map2 (\<lambda>m ct. crypto_call (fst (snd m)) ct) msgs cts"
    using assms(6,11) by (simp_all add: b(1) bl comp_def case_prod_beta del: cryptoSends.simps)
  have "conn_ok arr" using assms(10) by simp
  from negotiated_crypto_server [OF assms(2) key(1) this out(1) assms(7), of w m] obtain srv where
    n: "NewServerCodecV3 L w arr key m = Inr (JSONCryptoServer srv)" and
    srv: "pcc.jy_idle srv" "cn.bio_clean (bgSrc (mSnd (jySrc srv)))"
      "bio_content conn_content (bgSrc (mSnd (jySrc srv))) = crypto_call (123 # c2 # rest) ct"
      "jyMaxBody srv = effectiveMaxBody m" "newCrypto L key = Inr (jyCrypto srv)" "crypto_wf (jyCrypto srv)" by blast
  have cr: "jyCrypto cl = jyCrypto srv" using key(2) srv(5) by (auto simp: newJSONCryptoServerCodec_def Let_def)
  obtain rnd t where m: "msg = (rnd, 123 # c2 # rest, t)" using assms(6) by (cases msg) auto
  have p: "rand_ok rnd" "fits J (jyMaxBody srv) (123 # c2 # rest)" "int (length t) + 54 \<le> jyMaxBody srv"
      "length t + 39 < tooBig" "Encrypt L rnd (jyCrypto srv) t = Inr ct"
    using assms(5) b(2) by (simp_all add: m bl srv(4) cr)
  obtain c1 c2' where c: "CryptoReadRequestHeader J prefixRead umReq srv = Some (umReq (123 # c2 # rest), c1)"
      "CryptoReadRequestBody J L G prefixRead body c1 = Some (unmarshalBody J body t, c2')"
      "drained c2'" "jyMaxBody c2' = jyMaxBody srv" "jyCrypto c2' = jyCrypto srv"
    using pcc.crypto_call_read [OF assms(1-3) srv(6) p(1-5) srv(1-3), of umReq body] by (auto simp: drained_def)
  have q: "crypto_wf (jyCrypto c2')" "list_all2 (\<lambda>m ct. Encrypt L (fst m) (jyCrypto c2') (snd (snd m)) = Inr ct) msgs cts"
      "\<forall>(rnd, h, t) \<in> set msgs. rand_ok rnd \<and> fits J (jyMaxBody c2') h \<and>
        int (length t) + 54 \<le> jyMaxBody c2' \<and> length t + 39 < tooBig" "\<forall>a \<in> set arrs. conn_ok a"
    using srv(4,6) b(2) assms(5,10) by (auto simp: c(4,5) bl cr)
  obtain c' where "cryptoServeP J L G umReq (zip (map Some arrs) bodies) c2' =
      Some (map2 (\<lambda>m body. (umReq (fst (snd m)), unmarshalBody J body (snd (snd m)))) msgs bodies, c')"
    using cryptoServeP_calls [OF assms(1-3) q(1) c(3) q(3,2) assms(8,9) q(4) out(2), of umReq] by blast
  then have "cryptoServeP J L G umReq (zip (None # map Some arrs) (body # bodies)) srv =
      Some (map2 (\<lambda>m body. (umReq (fst (snd m)), unmarshalBody J body (snd (snd m)))) (msg # msgs) (body # bodies), c')"
    using c(1,2) by (simp add: arriveP_def m)
  moreover have "map fst (cryptoSends L (msg # msgs) cl) = replicate (Suc (length msgs)) None"
    using len by (simp add: b(1) bl comp_def case_prod_beta map_replicate_const del: cryptoSends.simps)
  ultimately show ?thesis using n by blast
qed

theorem json_crypto_negotiated_session_witness:
  "\<exists>cl arr srv c'. NewClientCodecV3 plain_crypto_lib (newWriter sink0) [] [1] 0 True = Inr (JSONCryptoClient cl) \<and>
    conn_content arr = concat (map snd (cryptoSends plain_crypto_lib [(zero_rand, braces [34], braces [2])] cl)) \<and>
    NewServerCodecV3 plain_crypto_lib (newWriter sink0) arr [1] 0 = Inr (JSONCryptoServer srv) \<and>
    cryptoServeP brace_lib plain_crypto_lib plain_gob Inr [(None, Some Inr)] srv =
    Some ([(Inr (braces [34]), Inr (Some (braces [2])))], c')"
proof -
  obtain cl :: "conn jsonCryptoCodec" where c:
    "newJSONCryptoClientCodec plain_crypto_lib (newWriter sink0) [] [1] 0 = Inr cl"
    unfolding newJSONCryptoClientCodec_eq by (rule newJSONCrypto_exists)
  let ?msg = "(zero_rand, braces [34], braces [2])"
  note cw = newJSONCryptoServerCodec_writes [OF plain_crypto_lib_ok c [unfolded newJSONCryptoClientCodec_eq sink0_def]]
  obtain blobs where b: "cryptoSends plain_crypto_lib [?msg] cl =
      map2 (\<lambda>m ct. (None, crypto_call (fst (snd m)) ct)) [?msg] blobs"
      "list_all2 (\<lambda>m ct. Encrypt plain_crypto_lib (fst m) (jyCrypto cl) (snd (snd m)) = Inr ct) [?msg] blobs"
    using cryptoSends_ok [OF plain_crypto_lib_ok cw, of "[?msg]"] by (auto simp: zero_rand_def)
  obtain ct where "blobs = [ct]" using b(2) by (cases blobs) auto
  then have out: "cryptoSends plain_crypto_lib [?msg] cl = [(None, crypto_call (braces [34]) ct)]"
    using b(1) by (simp del: cryptoSends.simps)
  let ?arr = "[Piece (crypto_call (braces [34]) ct)]"
  have cl: "NewClientCodecV3 plain_crypto_lib (newWriter sink0) [] [1] 0 True = Inr (JSONCryptoClient cl)"
    using c by (simp add: NewClientCodecV3_def)
  have side: "\<forall>(rnd, h, t) \<in> set [?msg]. rand_ok rnd \<and> (\<exists>n. rnd 12 = Inr n) \<and>
      fits brace_lib (effectiveMaxBody 0) h \<and> int (length t) + 54 \<le> effectiveMaxBody 0 \<and> length t + 39 < tooBig"
    using zero_rand_ok brace_text [of "[34]"]
    by (simp add: zero_rand_def fits_def effectiveMaxBody_def DefaultMaxJSONBody_def braces_def tooBig_def)
  have h: "fst (snd ?msg) = 123 # 34 # [125]" "(34::byte) \<in> {34, 32, 9, 10, 13}" by (simp_all add: braces_def)
  have e: "length ([] :: conn list) = length ([] :: ((nat \<Rightarrow> err + bytes) \<times> bytes \<times> bytes) list)"
      "length ([] :: (bytes \<Rightarrow> err + bytes) option list) = length ([] :: ((nat \<Rightarrow> err + bytes) \<times> bytes \<times> bytes) list)" by simp_all
  have a: "\<forall>a \<in> set [?arr]. conn_ok a" "map conn_content [?arr] = map snd (cryptoSends plain_crypto_lib [?msg] cl)"
    by (simp_all add: out conn_ok_def crypto_call_def del: cryptoSends.simps)
  from json_crypto_negotiated_session [OF brace_lib_ok plain_crypto_lib_ok plain_gob_ok cl [unfolded sink0_def] side h e a,
      of "newWriter sink0" "Inr :: bytes \<Rightarrow> err + bytes" "Some Inr"]
  obtain srv c' where "NewServerCodecV3 plain_crypto_lib (newWriter sink0) ?arr [1] 0 = Inr (JSONCryptoServer srv)"
    "cryptoServeP brace_lib plain_crypto_lib plain_gob Inr [(None, Some Inr)] srv =
      Some ([(Inr (braces [34]), unmarshalBody brace_lib (Some Inr) (braces [2]))], c')" by (auto simp: braces_def)
  moreover have "conn_content ?arr = concat (map snd (cryptoSends plain_crypto_lib [?msg] cl))"
    by (simp add: out del: cryptoSends.simps)
  moreover have "unmarshalBody brace_lib (Some Inr) (braces [2]) = Inr (Some (braces [2]))"
    by (simp add: unmarshalBody_def)
  ultimately show ?thesis using cl by metis
qed

end
