(* ===== verification/Rpc3Server.thy ===== *)
theory Rpc3Server
  imports Negotiate GoContext GoStrings
begin

text \<open>
  The v3 server (\<open>v3/server.go\<close>, \<open>v3/server_option.go\<close>): its options, the accept loop and what
  is done with one connection. \<open>rpc.Server\<close> is not under \<open>src/\<close>: its state is the type \<open>'v\<close> and
  its operations are the record \<open>rpc_server_lib\<close>. A panic of a handler is a value. The
  contract of \<open>rpc.ServerCodec\<close>'s Close, that it may be called again, is a locale; the codecs of
  the repository are its interpretations. Logging and the TCP options are left out.
\<close>

subsection \<open>Closing a codec\<close>

locale server_codec =
  fixes close :: "err option \<Rightarrow> 'c \<Rightarrow> err option \<times> 'c"
    and isClosed :: "'c \<Rightarrow> bool" and closes :: "'c \<Rightarrow> nat"
  assumes close_open: "\<not> isClosed c \<Longrightarrow> fst (close ce c) = ce \<and> isClosed (snd (close ce c)) \<and>
      closes (snd (close ce c)) = Suc (closes c)"
    and close_again: "isClosed c \<Longrightarrow> close ce c = (None, c)"
begin

lemma closed_after: "isClosed (snd (close ce c))"
  using close_open [of c ce] close_again [of c ce] by (cases "isClosed c") simp_all

lemma close_twice: "close ce' (snd (close ce c)) = (None, snd (close ce c))"
  by (rule close_again [OF closed_after])

lemma closes_once: "closes (snd (close ce c)) = (if isClosed c then closes c else Suc (closes c))"
  using close_open [of c ce] close_again [of c ce] by simp

text \<open>A codec that has closed its connection once if it is closed, and not at all otherwise.\<close>

definition closes_ok :: "'c \<Rightarrow> bool" where
  "closes_ok c \<longleftrightarrow> closes c = (if isClosed c then 1 else 0)"

lemma closes_ok_close: "closes_ok c \<Longrightarrow> closes (snd (close ce c)) = 1 \<and> closes_ok (snd (close ce c))"
  using closes_once [of ce c] closed_after [of ce c] by (auto simp: closes_ok_def)

end

interpretation json_sc: server_codec CloseServer jcClosed jcCloses
  by unfold_locales (simp_all add: CloseServer_def)

interpretation json_crypto_sc: server_codec CryptoClose jyClosed jyCloses
  by unfold_locales (simp_all add: CryptoClose_def)

interpretation gob_sc: server_codec GobCloseServer gcClosed gcCloses
  by unfold_locales (simp_all add: GobCloseServer_def)

interpretation sealed_sc: server_codec SealedClose ccClosed ccCloses
  by unfold_locales (simp_all add: SealedClose_def)

fun legacyClose :: "err option \<Rightarrow> ('g, 'c) legacyCodec \<Rightarrow> err option \<times> ('g, 'c) legacyCodec" where
  "legacyClose ce (OpenGob c) = map_prod id OpenGob (GobCloseServer ce c)"
| "legacyClose ce (Sealed c) = map_prod id Sealed (SealedClose ce c)"

fun legacyClosed :: "('g, 'c) legacyCodec \<Rightarrow> bool" where
  "legacyClosed (OpenGob c) = gcClosed c"
| "legacyClosed (Sealed c) = ccClosed c"

fun legacyCloses :: "('g, 'c) legacyCodec \<Rightarrow> nat" where
  "legacyCloses (OpenGob c) = gcCloses c"
| "legacyCloses (Sealed c) = ccCloses c"

interpretation legacy_sc: server_codec legacyClose legacyClosed legacyCloses
proof
  fix c :: "('g, 'c) legacyCodec" and ce
  show "\<not> legacyClosed c \<Longrightarrow> fst (legacyClose ce c) = ce \<and> legacyClosed (snd (legacyClose ce c)) \<and>
      legacyCloses (snd (legacyClose ce c)) = Suc (legacyCloses c)"
    using gob_sc.close_open sealed_sc.close_open by (cases c) simp_all
  show "legacyClosed c \<Longrightarrow> legacyClose ce c = (None, c)"
    by (cases c) (simp_all add: gob_sc.close_again sealed_sc.close_again)
qed

fun codecClose :: "err option \<Rightarrow> serverCodecV3 \<Rightarrow> err option \<times> serverCodecV3" where
  "codecClose ce (LegacyServer c) = map_prod id LegacyServer (legacyClose ce c)"
| "codecClose ce (JSONServer c) = map_prod id JSONServer (CloseServer ce c)"
| "codecClose ce (JSONCryptoServer c) = map_prod id JSONCryptoServer (CryptoClose ce c)"

fun codecClosed :: "serverCodecV3 \<Rightarrow> bool" where
  "codecClosed (LegacyServer c) = legacyClosed c"
| "codecClosed (JSONServer c) = jcClosed c"
| "codecClosed (JSONCryptoServer c) = jyClosed c"

fun codecCloses :: "serverCodecV3 \<Rightarrow> nat" where
  "codecCloses (LegacyServer c) = legacyCloses c"
| "codecCloses (JSONServer c) = jcCloses c"
| "codecCloses (JSONCryptoServer c) = jyCloses c"

interpretation v3_sc: server_codec codecClose codecClosed codecCloses
proof
  fix c :: serverCodecV3 and ce
  show "\<not> codecClosed c \<Longrightarrow> fst (codecClose ce c) = ce \<and> codecClosed (snd (codecClose ce c)) \<and>
      codecCloses (snd (codecClose ce c)) = Suc (codecCloses c)"
    using legacy_sc.close_open json_sc.close_open json_crypto_sc.close_open by (cases c) simp_all
  show "codecClosed c \<Longrightarrow> codecClose ce c = (None, c)"
    by (cases c) (simp_all add: legacy_sc.close_again json_sc.close_again json_crypto_sc.close_again)
qed

subsection \<open>The server and its options\<close>

text \<open>A handler gives the codec back as it left it, and the value of its panic, if it panicked.\<close>

type_synonym 'c handler = "ctx \<Rightarrow> 'c \<Rightarrow> 'c \<times> err option"

record ('v, 'w, 's, 'c) rpc_server_lib =
  rsNew :: 'v
  rsUse :: "'w \<Rightarrow> 'v \<Rightarrow> 'v"
  rsRegister :: "string \<Rightarrow> 's \<Rightarrow> 'v \<Rightarrow> err option \<times> 'v"
  rsServeCodec :: "'v \<Rightarrow> 'c handler"

text \<open>
  The basic handler holds a pointer to the server's \<open>rpc.Server\<close>, so it serves what is
  registered later; a handler of the caller's own replaces it.
\<close>

datatype 'c ServerHandler = BasicServerHandler | CustomHandler "'c handler"

record ('v, 'c) CustomRpcServer =
  rsAddress :: string
  rsPort :: int
  rsCryptoKey :: bytes
  rsMaxJSONBody :: int
  rsSvr :: 'v
  rsHandler :: "'c ServerHandler"

type_synonym ('v, 'c) ServerOption = "('v, 'c) CustomRpcServer \<Rightarrow> ('v, 'c) CustomRpcServer"

definition remoteIpHeader :: string where
  "remoteIpHeader = ''CLIENT-IP-ADDRESS''"

definition Handle :: "('v, 'w, 's, 'c) rpc_server_lib \<Rightarrow> ('v, 'c) CustomRpcServer \<Rightarrow> 'c handler" where
  "Handle R s = (case rsHandler s of BasicServerHandler \<Rightarrow> rsServeCodec R (rsSvr s) | CustomHandler h \<Rightarrow> h)"

definition ServerWithCryptoKey :: "bytes \<Rightarrow> ('v, 'c) ServerOption" where
  "ServerWithCryptoKey value = (\<lambda>s. s\<lparr>rsCryptoKey := value\<rparr>)"

definition ServerWithAddress :: "string \<Rightarrow> ('v, 'c) ServerOption" where
  "ServerWithAddress value = (\<lambda>s. s\<lparr>rsAddress := value\<rparr>)"

definition ServerWithPort :: "int \<Rightarrow> ('v, 'c) ServerOption" where
  "ServerWithPort value = (\<lambda>s. s\<lparr>rsPort := value\<rparr>)"

definition ServerWithHandler :: "'c handler \<Rightarrow> ('v, 'c) ServerOption" where
  "ServerWithHandler value = (\<lambda>s. s\<lparr>rsHandler := CustomHandler value\<rparr>)"

definition ServerWithMiddleware :: "('v, 'w, 's, 'c) rpc_server_lib \<Rightarrow> 'w \<Rightarrow> ('v, 'c) ServerOption" where
  "ServerWithMiddleware R value = (\<lambda>s. s\<lparr>rsSvr := rsUse R value (rsSvr s)\<rparr>)"

definition ServerWithMaxJSONBody :: "int \<Rightarrow> ('v, 'c) ServerOption" where
  "ServerWithMaxJSONBody value = (\<lambda>s. s\<lparr>rsMaxJSONBody := value\<rparr>)"

definition NewRpcServer :: "('v, 'w, 's, 'c) rpc_server_lib \<Rightarrow> ('v, 'c) ServerOption list \<Rightarrow> ('v, 'c) CustomRpcServer" where
  "NewRpcServer R opts =
     foldl (\<lambda>server opt. opt server)
       \<lparr>rsAddress = ''0.0.0.0'', rsPort = 2233, rsCryptoKey = [], rsMaxJSONBody = 0,
        rsSvr = rsNew R, rsHandler = BasicServerHandler\<rparr> opts"

definition RegisterName ::
  "('v, 'w, 's, 'c) rpc_server_lib \<Rightarrow> string \<Rightarrow> 's \<Rightarrow> ('v, 'c) CustomRpcServer \<Rightarrow> err option \<times> ('v, 'c) CustomRpcServer" where
  "RegisterName R name service s =
     (case rsRegister R name service (rsSvr s) of (e, v) \<Rightarrow> (e, s\<lparr>rsSvr := v\<rparr>))"

subsection \<open>One connection\<close>

datatype 'c serve_event = Handled ctx 'c | ClosedCodec 'c | Recovered err | ClosedConn

text \<open>
  \<open>remote\<close> is the IP of a TCP peer, \<open>ce\<close> what closing the connection returns. The deferred
  functions run last first, after a return and after a panic alike.
\<close>

definition ServeConn ::
  "crypto_lib \<Rightarrow> ('v, 'w, 's, serverCodecV3) rpc_server_lib \<Rightarrow> err option \<Rightarrow> ('v, serverCodecV3) CustomRpcServer \<Rightarrow>
   ctx \<Rightarrow> string option \<Rightarrow> bufw \<Rightarrow> conn \<Rightarrow> serverCodecV3 serve_event list" where
  "ServeConn L R ce s ctx remote w conn =
     (case NewServerCodecV3 L w conn (rsCryptoKey s) (rsMaxJSONBody s) of
        Inl e \<Rightarrow> [ClosedConn]
      | Inr cdc \<Rightarrow>
          let cctx = (case remote of
                        Some ip \<Rightarrow> WithValue ctx (TypedKey ''ctxKey'' remoteIpHeader) ip
                      | None \<Rightarrow> ctx)
          in (case Handle R s cctx cdc of (cdc', panic) \<Rightarrow>
                [Handled cctx cdc, ClosedCodec (snd (codecClose ce cdc'))] @
                (case panic of None \<Rightarrow> [] | Some p \<Rightarrow> [Recovered p]) @ [ClosedConn]))"

subsection \<open>The accept loop\<close>

text \<open>What the listener answers, one after the other; \<open>'k\<close> is a connection.\<close>

datatype 'k accepted = AcceptConn 'k | AcceptErr err

text \<open>
  The loop from moment \<open>t\<close>, on the answers the listener has given so far: the error it has
  returned with, if it has returned, and the connections handed to a goroutine each.
\<close>

fun acceptLoop :: "ctx \<Rightarrow> nat \<Rightarrow> 'k accepted list \<Rightarrow> err option option \<times> 'k list" where
  "acceptLoop ctx t [] = (None, [])"
| "acceptLoop ctx t (AcceptErr e # as) =
     (if errors_Is e ErrNetClosed then (Some (ctxErr ctx t), []) else acceptLoop ctx (Suc t) as)"
| "acceptLoop ctx t (AcceptConn k # as) =
     (case acceptLoop ctx (Suc t) as of (r, ks) \<Rightarrow> (r, k # ks))"

definition Accept ::
  "(string \<Rightarrow> err + 'd) \<Rightarrow> ('d \<Rightarrow> err option) \<Rightarrow> ('v, 'c) CustomRpcServer \<Rightarrow> ctx \<Rightarrow> 'k accepted list \<Rightarrow>
   err option option \<times> 'k list" where
  "Accept resolve listen s ctx as =
     (case resolve (JoinHostPort (rsAddress s) (Itoa (rsPort s))) of
        Inl e \<Rightarrow> (Some (Some e), [])
      | Inr addy \<Rightarrow>
          (case listen addy of
             Some e \<Rightarrow> (Some (Some e), [])
           | None \<Rightarrow> acceptLoop ctx 0 as))"

subsection \<open>Properties\<close>

lemma NewServerCodecV3_open:
  assumes "NewServerCodecV3 L w conn key m = Inr cdc"
  shows "v3_sc.closes_ok cdc"
proof -
  obtain br j where sn: "sniffServerConn conn = Inr (br, j)"
    using assms by (cases "sniffServerConn conn") (auto simp: NewServerCodecV3_def)
  show ?thesis
  proof (cases j)
    case False
    then show ?thesis
      using assms sn
      by (cases "newCrypto2 L key")
        (auto simp: NewServerCodecV3_def NewServerCodec_def newGobServerCodec_def newCryptoServerCodec_def
          v3_sc.closes_ok_def split: if_splits)
  next
    case True
    then show ?thesis
      using assms sn
      by (cases "newCrypto L key")
        (auto simp: NewServerCodecV3_def newJSONServerCodec_def newJSONCryptoServerCodec_def Let_def
          v3_sc.closes_ok_def split: if_splits)
  qed
qed

text \<open>
  C6: What becomes of a connection. A connection whose codec cannot be made is closed and
  nothing else. Any other is handled once, with the IP of a TCP peer in the context (under the
  package's own key type: the plain string key that v1 and v2 use is as in the server's
  context), its codec is then closed, whether the handler returned or panicked, and has closed
  the connection exactly once; the panic is recovered; last the connection itself is closed.
\<close>

theorem ServeConn_lifecycle:
  assumes "\<forall>ctx c. v3_sc.closes_ok c \<longrightarrow> v3_sc.closes_ok (fst (Handle R s ctx c))"
  shows "case NewServerCodecV3 L w conn (rsCryptoKey s) (rsMaxJSONBody s) of
      Inl e \<Rightarrow> ServeConn L R ce s ctx remote w conn = [ClosedConn]
    | Inr cdc \<Rightarrow> (\<exists>cctx cdc' rec. ServeConn L R ce s ctx remote w conn =
          [Handled cctx cdc, ClosedCodec cdc'] @ map Recovered rec @ [ClosedConn] \<and>
        ctxVal cctx = (case remote of
            Some ip \<Rightarrow> (ctxVal ctx)(TypedKey ''ctxKey'' remoteIpHeader \<mapsto> ip) | None \<Rightarrow> ctxVal ctx) \<and>
        ctxVal cctx (PlainKey remoteIpHeader) = ctxVal ctx (PlainKey remoteIpHeader) \<and>
        ctxErr cctx = ctxErr ctx \<and> codecClosed cdc' \<and> codecCloses cdc' = 1 \<and>
        rec = (case snd (Handle R s cctx cdc) of None \<Rightarrow> [] | Some p \<Rightarrow> [p]))"
proof (cases "NewServerCodecV3 L w conn (rsCryptoKey s) (rsMaxJSONBody s)")
  case (Inl e)
  then show ?thesis by (simp add: ServeConn_def)
next
  case (Inr cdc)
  define cctx where "cctx = (case remote of Some ip \<Rightarrow> WithValue ctx (TypedKey ''ctxKey'' remoteIpHeader) ip | None \<Rightarrow> ctx)"
  obtain cdc' panic where h: "Handle R s cctx cdc = (cdc', panic)" by (metis prod.exhaust)
  have "v3_sc.closes_ok (fst (Handle R s cctx cdc))"
    using assms NewServerCodecV3_open [OF Inr] by blast
  then have c: "codecCloses (snd (codecClose ce cdc')) = 1" "codecClosed (snd (codecClose ce cdc'))"
    using v3_sc.closes_ok_close v3_sc.closed_after h by simp_all
  have "ServeConn L R ce s ctx remote w conn =
      [Handled cctx cdc, ClosedCodec (snd (codecClose ce cdc'))] @ map Recovered (case panic of None \<Rightarrow> [] | Some p \<Rightarrow> [p]) @ [ClosedConn]"
    using Inr h by (cases panic) (simp_all add: ServeConn_def cctx_def Let_def)
  moreover have "ctxVal cctx = (case remote of
        Some ip \<Rightarrow> (ctxVal ctx)(TypedKey ''ctxKey'' remoteIpHeader \<mapsto> ip) | None \<Rightarrow> ctxVal ctx)"
      "ctxVal cctx (PlainKey remoteIpHeader) = ctxVal ctx (PlainKey remoteIpHeader)" "ctxErr cctx = ctxErr ctx"
    by (cases remote; simp add: cctx_def WithValue_def)+
  ultimately show ?thesis
    unfolding Inr sum.case using c h by (metis snd_conv)
qed

text \<open>For the witness: a library whose server panics on every codec, after closing it.\<close>

definition panicking_lib :: "(nat, nat, nat, serverCodecV3) rpc_server_lib" where
  "panicking_lib = \<lparr>rsNew = 0, rsUse = (\<lambda>w v. v + w), rsRegister = (\<lambda>n sv v. (None, v)),
     rsServeCodec = (\<lambda>v ctx c. (snd (codecClose None c), Some EOF))\<rparr>"

theorem ServeConn_lifecycle_witness:
  "\<exists>cctx cdc cdc'. ServeConn plain_crypto_lib panicking_lib None (NewRpcServer panicking_lib []) background (Some ''10.0.0.1'')
      (newWriter \<lparr>snkOut = [], snkLimit = None\<rparr>) [Piece [123, 34]] =
    [Handled cctx cdc, ClosedCodec cdc', Recovered EOF, ClosedConn] \<and> codecCloses cdc' = 1 \<and>
    ctxVal cctx (TypedKey ''ctxKey'' remoteIpHeader) = Some ''10.0.0.1''"
proof -
  let ?s = "NewRpcServer panicking_lib []" and ?w = "newWriter \<lparr>snkOut = [], snkLimit = None\<rparr>"
  let ?c = "[Piece [123, 34]] :: conn"
  have hyp: "\<forall>ctx c. v3_sc.closes_ok c \<longrightarrow> v3_sc.closes_ok (fst (Handle panicking_lib ?s ctx c))"
    using v3_sc.closes_ok_close by (simp add: Handle_def NewRpcServer_def panicking_lib_def)
  have k: "rsCryptoKey ?s = []" by (simp add: NewRpcServer_def)
  have j: "isJSONStream [123, 34]" by (simp add: isJSONStream_def jsonFirstByte_def)
  obtain cdc where n: "NewServerCodecV3 plain_crypto_lib ?w ?c (rsCryptoKey ?s) (rsMaxJSONBody ?s) = Inr cdc"
    using sniff_decides [of ?c] j by (auto simp: NewServerCodecV3_def NewServerCodec_def conn_ok_def k split: sum.splits)
  have p: "snd (Handle panicking_lib ?s cctx cdc) = Some EOF" for cctx
    by (simp add: Handle_def NewRpcServer_def panicking_lib_def)
  show ?thesis
    using ServeConn_lifecycle [OF hyp, where L = plain_crypto_lib and w = ?w and conn = ?c and ce = None
      and ctx = background and remote = "Some ''10.0.0.1''"] n p
    by auto
qed

definition is_closing :: "'k accepted \<Rightarrow> bool" where
  "is_closing a = (case a of AcceptErr e \<Rightarrow> errors_Is e ErrNetClosed | AcceptConn k \<Rightarrow> False)"

definition conns_of :: "'k accepted list \<Rightarrow> 'k list" where
  "conns_of as = concat (map (\<lambda>a. case a of AcceptConn k \<Rightarrow> [k] | AcceptErr e \<Rightarrow> []) as)"

lemma acceptLoop_spec:
  "acceptLoop ctx t as = (r, ks) \<Longrightarrow>
   ks = conns_of (takeWhile (\<lambda>a. \<not> is_closing a) as) \<and>
   r = (if \<forall>a \<in> set as. \<not> is_closing a then None
        else Some (ctxErr ctx (t + length (takeWhile (\<lambda>a. \<not> is_closing a) as))))"
proof (induction ctx t as arbitrary: r ks rule: acceptLoop.induct)
  case (3 ctx t k as)
  then show ?case by (auto simp: conns_of_def is_closing_def split: prod.splits)
qed (auto simp: conns_of_def is_closing_def split: if_splits)

text \<open>
  C12: Only the closing of the listener ends Accept. Once the address is resolved and listened
  on, every connection accepted before the listener is found closed is handed to its goroutine,
  in order, whatever other errors come in between; Accept returns exactly when the listener is
  found closed, and, the listener being closed only once the context is done, with the
  context's error, which is not nil.
\<close>

theorem Accept_serves_all:
  assumes "resolve (JoinHostPort (rsAddress s) (Itoa (rsPort s))) = Inr addy" and "listen addy = None"
    and "\<forall>i < length as. is_closing (as ! i) \<longrightarrow> ctxErr ctx i \<noteq> None"
  shows "snd (Accept resolve listen s ctx as) = conns_of (takeWhile (\<lambda>a. \<not> is_closing a) as) \<and>
    (fst (Accept resolve listen s ctx as) = None \<longleftrightarrow> (\<forall>a \<in> set as. \<not> is_closing a)) \<and>
    fst (Accept resolve listen s ctx as) \<noteq> Some None"
proof -
  obtain r ks where a: "acceptLoop ctx 0 as = (r, ks)" by (metis prod.exhaust)
  let ?n = "length (takeWhile (\<lambda>a. \<not> is_closing a) as)"
  have "\<not> (\<forall>a \<in> set as. \<not> is_closing a) \<Longrightarrow> ctxErr ctx ?n \<noteq> None"
  proof -
    assume "\<not> (\<forall>a \<in> set as. \<not> is_closing a)"
    then have "?n < length as" using takeWhile_eq_all_conv [of "\<lambda>a. \<not> is_closing a" as]
      by (metis length_takeWhile_le nat_less_le takeWhile_eq_take take_all_iff)
    then show ?thesis using nth_length_takeWhile [of "\<lambda>a. \<not> is_closing a" as] assms(3) by blast
  qed
  then show ?thesis using acceptLoop_spec [OF a] a assms(1,2) by (auto simp: Accept_def)
qed

theorem Accept_serves_all_witness:
  "Accept (\<lambda>a. Inr a) (\<lambda>a. None) (NewRpcServer panicking_lib []) (background\<lparr>ctxErr := (\<lambda>t. if t < 3 then None else Some Canceled)\<rparr>)
     [AcceptConn 7, AcceptErr EOF, AcceptConn (8 :: nat), AcceptErr ErrNetClosed] = (Some (Some Canceled), [7, 8])"
proof -
  let ?ctx = "background\<lparr>ctxErr := (\<lambda>t. if t < 3 then None else Some Canceled)\<rparr>"
  let ?as = "[AcceptConn 7, AcceptErr EOF, AcceptConn (8 :: nat), AcceptErr ErrNetClosed]"
  have c: "\<forall>i < length ?as. is_closing (?as ! i) \<longrightarrow> ctxErr ?ctx i \<noteq> None"
    by (simp add: is_closing_def less_Suc_eq numeral_eq_Suc errors_Is_def)
  have "snd (Accept (\<lambda>a. Inr a) (\<lambda>a. None) (NewRpcServer panicking_lib []) ?ctx ?as) = [7, 8]"
    using Accept_serves_all [of "\<lambda>a. Inr a" "NewRpcServer panicking_lib []" _ "\<lambda>a. None" ?as ?ctx] c
    by (simp add: conns_of_def is_closing_def errors_Is_def)
  moreover have "fst (Accept (\<lambda>a. Inr a) (\<lambda>a. None) (NewRpcServer panicking_lib []) ?ctx ?as) = Some (Some Canceled)"
    by (simp add: Accept_def errors_Is_def numeral_eq_Suc)
  ultimately show ?thesis by (simp add: prod_eq_iff)
qed

end
