(* ===== verification/Rpc2Server.thy ===== *)
theory Rpc2Server
  imports Rpc3Server
begin

text \<open>
  The v2 server (\<open>v2/server.go\<close>, \<open>v2/server_option.go\<close>, \<open>v2/server_basic_handler.go\<close>): the v3
  server without negotiation. The library of the RPC server, the handlers, the listener's
  answers and the events are those of \<open>Rpc3Server\<close>; a v2 codec reads from a connection
  (through a \<open>bufio.Reader\<close> that the open gob codec puts over it).
\<close>

type_synonym serverCodec2 = "(conn bufio, conn) legacyCodec"

record ('v, 'c) CustomRpcServer2 =
  s2Address :: string
  s2Port :: int
  s2CryptoKey :: bytes
  s2Svr :: 'v
  s2Handler :: "'c ServerHandler"

type_synonym ('v, 'c) ServerOption2 = "('v, 'c) CustomRpcServer2 \<Rightarrow> ('v, 'c) CustomRpcServer2"

definition ServerWithCryptoKey2 :: "bytes \<Rightarrow> ('v, 'c) ServerOption2" where
  "ServerWithCryptoKey2 value = (\<lambda>s. s\<lparr>s2CryptoKey := value\<rparr>)"

definition ServerWithAddress2 :: "string \<Rightarrow> ('v, 'c) ServerOption2" where
  "ServerWithAddress2 value = (\<lambda>s. s\<lparr>s2Address := value\<rparr>)"

definition ServerWithPort2 :: "int \<Rightarrow> ('v, 'c) ServerOption2" where
  "ServerWithPort2 value = (\<lambda>s. s\<lparr>s2Port := value\<rparr>)"

definition ServerWithHandler2 :: "'c handler \<Rightarrow> ('v, 'c) ServerOption2" where
  "ServerWithHandler2 value = (\<lambda>s. s\<lparr>s2Handler := CustomHandler value\<rparr>)"

definition ServerWithMiddleware2 :: "('v, 'w, 's, 'c) rpc_server_lib \<Rightarrow> 'w \<Rightarrow> ('v, 'c) ServerOption2" where
  "ServerWithMiddleware2 R value = (\<lambda>s. s\<lparr>s2Svr := rsUse R value (s2Svr s)\<rparr>)"

definition NewRpcServer2 :: "('v, 'w, 's, 'c) rpc_server_lib \<Rightarrow> ('v, 'c) ServerOption2 list \<Rightarrow> ('v, 'c) CustomRpcServer2" where
  "NewRpcServer2 R opts =
     foldl (\<lambda>server opt. opt server)
       \<lparr>s2Address = ''0.0.0.0'', s2Port = 2233, s2CryptoKey = [], s2Svr = rsNew R, s2Handler = BasicServerHandler\<rparr> opts"

definition Handle2 :: "('v, 'w, 's, 'c) rpc_server_lib \<Rightarrow> ('v, 'c) CustomRpcServer2 \<Rightarrow> 'c handler" where
  "Handle2 R s = (case s2Handler s of BasicServerHandler \<Rightarrow> rsServeCodec R (s2Svr s) | CustomHandler h \<Rightarrow> h)"

definition RegisterName2 ::
  "('v, 'w, 's, 'c) rpc_server_lib \<Rightarrow> string \<Rightarrow> 's \<Rightarrow> ('v, 'c) CustomRpcServer2 \<Rightarrow> err option \<times> ('v, 'c) CustomRpcServer2" where
  "RegisterName2 R name service s =
     (case rsRegister R name service (s2Svr s) of (e, v) \<Rightarrow> (e, s\<lparr>s2Svr := v\<rparr>))"

definition ServeConn2 ::
  "crypto_lib \<Rightarrow> ('v, 'w, 's, serverCodec2) rpc_server_lib \<Rightarrow> err option \<Rightarrow> ('v, serverCodec2) CustomRpcServer2 \<Rightarrow>
   ctx \<Rightarrow> string option \<Rightarrow> bufw \<Rightarrow> conn \<Rightarrow> serverCodec2 serve_event list" where
  "ServeConn2 L R ce s ctx remote w conn =
     (case NewServerCodec L w (newBufio conn) conn (s2CryptoKey s) of
        Inl e \<Rightarrow> [ClosedConn]
      | Inr cdc \<Rightarrow>
          let cctx = (case remote of
                        Some ip \<Rightarrow> WithValue ctx (PlainKey remoteIpHeader) ip
                      | None \<Rightarrow> ctx)
          in (case Handle2 R s cctx cdc of (cdc', panic) \<Rightarrow>
                [Handled cctx cdc, ClosedCodec (snd (legacyClose ce cdc'))] @
                (case panic of None \<Rightarrow> [] | Some p \<Rightarrow> [Recovered p]) @ [ClosedConn]))"

definition Accept2 ::
  "(string \<Rightarrow> err + 'd) \<Rightarrow> ('d \<Rightarrow> err option) \<Rightarrow> ('v, 'c) CustomRpcServer2 \<Rightarrow> ctx \<Rightarrow> 'k accepted list \<Rightarrow>
   err option option \<times> 'k list" where
  "Accept2 resolve listen s ctx as =
     (case resolve (JoinHostPort (s2Address s) (Itoa (s2Port s))) of
        Inl e \<Rightarrow> (Some (Some e), [])
      | Inr addy \<Rightarrow>
          (case listen addy of
             Some e \<Rightarrow> (Some (Some e), [])
           | None \<Rightarrow> acceptLoop ctx 0 as))"

subsection \<open>Properties\<close>

lemma NewServerCodec_open:
  assumes "NewServerCodec L w g conn key = Inr cdc"
  shows "legacy_sc.closes_ok cdc"
  using assms
  by (cases "newCrypto2 L key")
    (auto simp: NewServerCodec_def newGobServerCodec_def newCryptoServerCodec_def legacy_sc.closes_ok_def split: if_splits)

text \<open>
  A v2 server closes every connection. Whatever the handler does, return or panic, a v2
  connection whose codec can be made is handled once, with the IP of a TCP peer under the plain
  string key, its codec has closed the connection exactly once, and no panic goes further.
\<close>

theorem ServeConn2_lifecycle:
  assumes "\<forall>ctx c. legacy_sc.closes_ok c \<longrightarrow> legacy_sc.closes_ok (fst (Handle2 R s ctx c))"
    and "crypto_lib_ok L"
  shows "\<exists>cctx cdc cdc' rec. ServeConn2 L R ce s ctx remote w conn =
      [Handled cctx cdc, ClosedCodec cdc'] @ map Recovered rec @ [ClosedConn] \<and>
    NewServerCodec L w (newBufio conn) conn (s2CryptoKey s) = Inr cdc \<and>
    ctxVal cctx (PlainKey remoteIpHeader) = (case remote of Some ip \<Rightarrow> Some ip | None \<Rightarrow> ctxVal ctx (PlainKey remoteIpHeader)) \<and>
    ctxErr cctx = ctxErr ctx \<and> legacyClosed cdc' \<and> legacyCloses cdc' = 1 \<and> length rec \<le> 1"
proof -
  obtain cdc where n: "NewServerCodec L w (newBufio conn) conn (s2CryptoKey s) = Inr cdc"
    using newCrypto_Inr [OF assms(2), of "s2CryptoKey s"]
    by (cases "s2CryptoKey s = []") (simp_all add: NewServerCodec_def newCryptoServerCodec_def newCrypto2_eq)
  define cctx where "cctx = (case remote of Some ip \<Rightarrow> WithValue ctx (PlainKey remoteIpHeader) ip | None \<Rightarrow> ctx)"
  obtain cdc' panic where h: "Handle2 R s cctx cdc = (cdc', panic)" by (metis prod.exhaust)
  have "legacy_sc.closes_ok (fst (Handle2 R s cctx cdc))"
    using assms(1) NewServerCodec_open [OF n] by blast
  then have c: "legacyCloses (snd (legacyClose ce cdc')) = 1" "legacyClosed (snd (legacyClose ce cdc'))"
    using legacy_sc.closes_ok_close [of cdc' ce] legacy_sc.closed_after [of ce cdc'] h by simp_all
  have "ServeConn2 L R ce s ctx remote w conn =
      [Handled cctx cdc, ClosedCodec (snd (legacyClose ce cdc'))] @ map Recovered (case panic of None \<Rightarrow> [] | Some p \<Rightarrow> [p]) @ [ClosedConn]"
    using n h by (cases panic) (simp_all add: ServeConn2_def cctx_def Let_def)
  moreover have "length (case panic of None \<Rightarrow> [] | Some p \<Rightarrow> [p]) \<le> 1" by (cases panic) simp_all
  moreover have "ctxVal cctx (PlainKey remoteIpHeader) = (case remote of Some ip \<Rightarrow> Some ip | None \<Rightarrow> ctxVal ctx (PlainKey remoteIpHeader))"
      "ctxErr cctx = ctxErr ctx"
    by (cases remote; simp add: cctx_def WithValue_def)+
  ultimately show ?thesis using c n by blast
qed

definition quiet_lib :: "(nat, nat, nat, 'c) rpc_server_lib" where
  "quiet_lib = \<lparr>rsNew = 0, rsUse = (\<lambda>w v. v + w), rsRegister = (\<lambda>n sv v. (None, v)),
     rsServeCodec = (\<lambda>v ctx c. (c, None))\<rparr>"

theorem ServeConn2_lifecycle_witness:
  "\<exists>cctx cdc cdc' rec. ServeConn2 plain_crypto_lib quiet_lib None (NewRpcServer2 quiet_lib [ServerWithCryptoKey2 [1]]) background
      (Some ''10.0.0.1'') (newWriter \<lparr>snkOut = [], snkLimit = None\<rparr>) [] =
    [Handled cctx cdc, ClosedCodec cdc'] @ map Recovered rec @ [ClosedConn] \<and>
    ctxVal cctx (PlainKey remoteIpHeader) = Some ''10.0.0.1'' \<and> legacyCloses cdc' = 1"
proof -
  let ?s = "NewRpcServer2 quiet_lib [ServerWithCryptoKey2 [1]]"
  have "\<forall>ctx c. legacy_sc.closes_ok c \<longrightarrow> legacy_sc.closes_ok (fst (Handle2 quiet_lib ?s ctx c))"
    by (simp add: Handle2_def NewRpcServer2_def ServerWithCryptoKey2_def quiet_lib_def)
  from ServeConn2_lifecycle [OF this plain_crypto_lib_ok, where ce = None and ctx = background and
      remote = "Some ''10.0.0.1''" and w = "newWriter \<lparr>snkOut = [], snkLimit = None\<rparr>" and conn = "[]"]
  show ?thesis by auto
qed

end
