(* ===== verification/Rpc1.thy ===== *)
theory Rpc1
  imports Rpc2Server Rpc2Client Codec1
begin

text \<open>
  Version 1 (\<open>client.go\<close>, \<open>server.go\<close>, their options, \<open>server_basic_handler.go\<close>,
  \<open>codec/codec_factory.go\<close>): a client that dials for every call, and a server whose accept loop
  takes connections from a channel and that recovers no panic. The codecs are those of \<open>Codec1\<close>. A panic is a value; one that is not recovered in a goroutine
  ends the process.
\<close>

subsection \<open>codec/codec_factory.go\<close>

definition GetServerCodec1 ::
  "crypto_lib \<Rightarrow> bufw \<Rightarrow> 'g \<Rightarrow> 'c \<Rightarrow> bytes \<Rightarrow> err + ('g, 'c) legacyCodec" where
  "GetServerCodec1 L buf gobSrc conn key =
     (if length key > 0 then
        (case newCryptoServerCodec1 L buf conn key of
           Inl panic \<Rightarrow> Inl panic
         | Inr codec \<Rightarrow> Inr (Sealed codec))
      else Inr (OpenGob (newGobServerCodec1 buf gobSrc)))"

definition GetClientCodec1 ::
  "crypto_lib \<Rightarrow> bufw \<Rightarrow> 'g \<Rightarrow> 'c \<Rightarrow> bytes \<Rightarrow> err + ('g, 'c) legacyCodec" where
  "GetClientCodec1 L buf gobSrc conn key =
     (if length key > 0 then
        (case newCryptoClientCodec1 L buf conn key of
           Inl panic \<Rightarrow> Inl panic
         | Inr codec \<Rightarrow> Inr (Sealed codec))
      else Inr (OpenGob (newGobClientCodec1 buf gobSrc)))"

subsection \<open>The client\<close>

record CustomRpcClient1 =
  c1Address :: string
  c1Port :: int
  c1CryptoKey :: bytes

type_synonym ClientOption1 = "CustomRpcClient1 \<Rightarrow> CustomRpcClient1"

definition ClientWithCryptoKey1 :: "bytes \<Rightarrow> ClientOption1" where
  "ClientWithCryptoKey1 value = (\<lambda>s. s\<lparr>c1CryptoKey := value\<rparr>)"

definition ClientWithAddress1 :: "string \<Rightarrow> ClientOption1" where
  "ClientWithAddress1 value = (\<lambda>s. s\<lparr>c1Address := value\<rparr>)"

definition ClientWithPort1 :: "int \<Rightarrow> ClientOption1" where
  "ClientWithPort1 value = (\<lambda>s. s\<lparr>c1Port := value\<rparr>)"

definition NewRpcClient1 :: "ClientOption1 list \<Rightarrow> CustomRpcClient1" where
  "NewRpcClient1 opts =
     foldl (\<lambda>client opt. opt client) \<lparr>c1Address = ''127.0.0.1'', c1Port = 2233, c1CryptoKey = []\<rparr> opts"

datatype 'r call_result = CallReturns "err option" 'r | CallPanics err

text \<open>
  \<open>net.Dial\<close> dials without a context. The deferred function closes the RPC client, hence the
  connection, and then the connection once more.
\<close>

definition CallClient1 ::
  "('a, 'r) net_env \<Rightarrow> CustomRpcClient1 \<Rightarrow> ctx \<Rightarrow> string \<Rightarrow> 'a \<Rightarrow> 'r \<Rightarrow> net \<Rightarrow> 'r call_result \<times> net" where
  "CallClient1 env c ctx method args reply n =
     (let addr = JoinHostPort (c1Address c) (Itoa (c1Port c)) in
      case neDial env (nTick n) background addr of
        Inl e \<Rightarrow> (CallReturns (Some e) reply, n\<lparr>nTick := Suc (nTick n)\<rparr>)
      | Inr conn \<Rightarrow>
          let i = nNext n;
              n1 = (log (Opened i addr) n)\<lparr>nNext := Suc i\<rparr>
          in (case GetClientCodec1 (neCrypto env) (newWriter \<lparr>snkOut = [], snkLimit = None\<rparr>) (newBufio conn) conn
                     (c1CryptoKey c) of
                Inl panic \<Rightarrow> (CallPanics panic, n1)
              | Inr cdc \<Rightarrow>
                  (case rpcCall env i ctx method args reply (log (Client i (LegacyClient cdc)) n1) of
                     ((oe, r), n2) \<Rightarrow> (CallReturns oe r, log (Closed i) (log (Closed i) n2)))))"

subsection \<open>The server\<close>

record ('v, 'c) CustomRpcServer1 =
  s1Address :: string
  s1Port :: int
  s1CryptoKey :: bytes
  s1Svr :: 'v
  s1Handler :: "'c ServerHandler"

type_synonym ('v, 'c) ServerOption1 = "('v, 'c) CustomRpcServer1 \<Rightarrow> ('v, 'c) CustomRpcServer1"

definition ServerWithCryptoKey1 :: "bytes \<Rightarrow> ('v, 'c) ServerOption1" where
  "ServerWithCryptoKey1 value = (\<lambda>s. s\<lparr>s1CryptoKey := value\<rparr>)"

definition ServerWithAddress1 :: "string \<Rightarrow> ('v, 'c) ServerOption1" where
  "ServerWithAddress1 value = (\<lambda>s. s\<lparr>s1Address := value\<rparr>)"

definition ServerWithPort1 :: "int \<Rightarrow> ('v, 'c) ServerOption1" where
  "ServerWithPort1 value = (\<lambda>s. s\<lparr>s1Port := value\<rparr>)"

definition ServerWithHandler1 :: "'c handler \<Rightarrow> ('v, 'c) ServerOption1" where
  "ServerWithHandler1 value = (\<lambda>s. s\<lparr>s1Handler := CustomHandler value\<rparr>)"

definition ServerWithMiddleware1 :: "('v, 'w, 's, 'c) rpc_server_lib \<Rightarrow> 'w \<Rightarrow> ('v, 'c) ServerOption1" where
  "ServerWithMiddleware1 R value = (\<lambda>s. s\<lparr>s1Svr := rsUse R value (s1Svr s)\<rparr>)"

definition NewRpcServer1 :: "('v, 'w, 's, 'c) rpc_server_lib \<Rightarrow> ('v, 'c) ServerOption1 list \<Rightarrow> ('v, 'c) CustomRpcServer1" where
  "NewRpcServer1 R opts =
     foldl (\<lambda>server opt. opt server)
       \<lparr>s1Address = ''0.0.0.0'', s1Port = 2233, s1CryptoKey = [], s1Svr = rsNew R, s1Handler = BasicServerHandler\<rparr> opts"

text \<open>The basic handler serves one request and drops its error: \<open>serveRequest\<close> is \<open>rpc.Server.ServeRequest\<close>.\<close>

definition Handle1 ::
  "('v \<Rightarrow> ctx \<Rightarrow> 'c \<Rightarrow> (err option \<times> 'c) \<times> err option) \<Rightarrow> ('v, 'c) CustomRpcServer1 \<Rightarrow> 'c handler" where
  "Handle1 serveRequest s ctx codec =
     (case s1Handler s of
        BasicServerHandler \<Rightarrow> (case serveRequest (s1Svr s) ctx codec of ((_, codec'), panic) \<Rightarrow> (codec', panic))
      | CustomHandler h \<Rightarrow> h ctx codec)"

definition RegisterName1 ::
  "('v, 'w, 's, 'c) rpc_server_lib \<Rightarrow> string \<Rightarrow> 's \<Rightarrow> ('v, 'c) CustomRpcServer1 \<Rightarrow> err option \<times> ('v, 'c) CustomRpcServer1" where
  "RegisterName1 R name service s =
     (case rsRegister R name service (s1Svr s) of (e, v) \<Rightarrow> (e, s\<lparr>s1Svr := v\<rparr>))"

definition nilDereference :: err where
  "nilDereference = New ''runtime error: invalid memory address or nil pointer dereference''"

definition notTCPAddr :: err where
  "notTCPAddr = New ''interface conversion: net.Addr is not *net.TCPAddr''"

text \<open>
  The events of a goroutine and the panic it ends with, if it does. The connection may be nil:
  then asking for its address panics, and so does the deferred close of the codec made over it.
\<close>

definition ServeConn1 ::
  "crypto_lib \<Rightarrow> ('v \<Rightarrow> ctx \<Rightarrow> serverCodec2 \<Rightarrow> (err option \<times> serverCodec2) \<times> err option) \<Rightarrow> err option \<Rightarrow>
   ('v, serverCodec2) CustomRpcServer1 \<Rightarrow> ctx \<Rightarrow> bufw \<Rightarrow> (string option \<times> conn) option \<Rightarrow>
   serverCodec2 serve_event list \<times> err option" where
  "ServeConn1 L serveRequest ce s ctx w k =
     (case k of
        None \<Rightarrow> ([], Some nilDereference)
      | Some (remote, conn) \<Rightarrow>
          (case GetServerCodec1 L w (newBufio conn) conn (s1CryptoKey s) of
             Inl panic \<Rightarrow> ([], Some panic)
           | Inr cdc \<Rightarrow>
               (case remote of
                  None \<Rightarrow> ([ClosedCodec (snd (legacyClose ce cdc))], Some notTCPAddr)
                | Some ip \<Rightarrow>
                    let cctx = WithValue ctx (PlainKey remoteIpHeader) ip
                    in (case Handle1 serveRequest s cctx cdc of (cdc', panic) \<Rightarrow>
                          ([Handled cctx cdc, ClosedCodec (snd (legacyClose ce cdc'))], panic)))))"

text \<open>
  What \<open>Accept\<close> receives from the channel of one \<open>waitForClient\<close>: the connection, or, when
  accepting has failed and the channel is closed, the zero value, nil.
\<close>

definition waitForClient :: "'k accepted \<Rightarrow> 'k option" where
  "waitForClient a = (case a of AcceptConn k \<Rightarrow> Some k | AcceptErr e \<Rightarrow> None)"

text \<open>One round of the loop: the context is found done, or the channel gives what the listener answered.\<close>

datatype 'k round = CtxDone | Channel "'k accepted"

fun acceptLoop1 :: "ctx \<Rightarrow> nat \<Rightarrow> 'k round list \<Rightarrow> err option option \<times> 'k option list" where
  "acceptLoop1 ctx t [] = (None, [])"
| "acceptLoop1 ctx t (CtxDone # rs) = (Some (ctxErr ctx t), [])"
| "acceptLoop1 ctx t (Channel a # rs) =
     (case acceptLoop1 ctx (Suc t) rs of (r, ks) \<Rightarrow> (r, waitForClient a # ks))"

definition Accept1 ::
  "(string \<Rightarrow> err + 'd) \<Rightarrow> ('d \<Rightarrow> err option) \<Rightarrow> ('v, 'c) CustomRpcServer1 \<Rightarrow> ctx \<Rightarrow> 'k round list \<Rightarrow>
   err option option \<times> 'k option list" where
  "Accept1 resolve listen s ctx rs =
     (case resolve (s1Address s @ '':'' @ Itoa (s1Port s)) of
        Inl e \<Rightarrow> (Some (Some e), [])
      | Inr addy \<Rightarrow>
          (case listen addy of
             Some e \<Rightarrow> (Some (Some e), [])
           | None \<Rightarrow> acceptLoop1 ctx 0 rs))"

subsection \<open>Properties\<close>

lemma GetClientCodec1_total:
  "crypto_lib_ok L \<Longrightarrow> \<exists>cdc. GetClientCodec1 L w g conn key = Inr cdc"
  using newCrypto_Inr [of L key]
  by (cases "key = []") (simp_all add: GetClientCodec1_def sealed1_constructors newCryptoClientCodec_def newCrypto2_eq)

text \<open>
  A v1 call leaves nothing behind. Every v1 call dials once, without looking at its
  context, makes at most one RPC call on the connection it dialled, never panics, returns the
  error of the dial or of that call, and leaves the open connections as they were.
\<close>

theorem v1_call_leaves_nothing_open:
  assumes "crypto_lib_ok (neCrypto env)" and "opened (nLog n) = {..<nNext n}" and "closed (nLog n) \<subseteq> {..<nNext n}"
    and "CallClient1 env c ctx method args reply n = (res, n')"
  shows "live (nLog n') = live (nLog n) \<and>
    (\<exists>oe r. res = CallReturns oe r) \<and>
    (case neDial env (nTick n) background (JoinHostPort (c1Address c) (Itoa (c1Port c))) of
       Inl e \<Rightarrow> res = CallReturns (Some e) reply \<and> nLog n' = nLog n
     | Inr conn \<Rightarrow> calls (nLog n') = calls (nLog n) @ [nNext n] \<and> closed (nLog n') = insert (nNext n) (closed (nLog n)))"
proof (cases "neDial env (nTick n) background (JoinHostPort (c1Address c) (Itoa (c1Port c)))")
  case (Inl e)
  then show ?thesis using assms(4) by (auto simp: CallClient1_def Let_def)
next
  case (Inr conn)
  obtain cdc where k: "GetClientCodec1 (neCrypto env) (newWriter \<lparr>snkOut = [], snkLimit = None\<rparr>) (newBufio conn) conn (c1CryptoKey c) = Inr cdc"
    using GetClientCodec1_total [OF assms(1)] by metis
  then show ?thesis
    using assms(2,3,4) Inr by (auto simp: CallClient1_def Let_def rpcCall_def live_def split: prod.splits)
qed

theorem v1_call_leaves_nothing_open_witness:
  "\<exists>r n'. CallClient1 (env_of (\<lambda>i. Some EOF)) (NewRpcClient1 []) background ''S.M'' 7 0 net0 = (CallReturns (Some EOF) r, n') \<and>
    live (nLog n') = {} \<and> calls (nLog n') = [0]"
proof -
  let ?env = "env_of (\<lambda>i. Some EOF)"
  obtain res n' where k: "CallClient1 ?env (NewRpcClient1 []) background ''S.M'' (7 :: nat) 0 net0 = (res, n')"
    by (metis prod.exhaust)
  have "crypto_lib_ok (neCrypto ?env)" "opened (nLog net0) = {..<nNext net0}" "closed (nLog net0) \<subseteq> {..<nNext net0}"
    by (simp_all add: env_of_def net0_def plain_crypto_lib_ok)
  from v1_call_leaves_nothing_open [OF this k]
  have "live (nLog n') = live (nLog net0) \<and> calls (nLog n') = [0]" by (simp add: env_of_def net0_def)
  then have "live (nLog n') = {} \<and> calls (nLog n') = [0]" by (simp add: net0_def live_def)
  moreover have "\<exists>r. res = CallReturns (Some EOF) r"
    using k by (auto simp: CallClient1_def Let_def env_of_def NewRpcClient1_def GetClientCodec1_def rpcCall_def)
  ultimately show ?thesis using k by blast
qed

lemma acceptLoop1_spec:
  "snd (acceptLoop1 ctx t rs) = concat (map (\<lambda>r. case r of Channel a \<Rightarrow> [waitForClient a] | CtxDone \<Rightarrow> [])
     (takeWhile (\<lambda>r. r \<noteq> CtxDone) rs))"
  by (induction ctx t rs rule: acceptLoop1.induct) (auto split: prod.splits)

text \<open>
  C28: One failed accept ends a v1 server. If accepting a connection fails, for whatever reason,
  before the context is done, \<open>Accept\<close> hands a nil connection to \<open>ServeConn\<close>, whose goroutine
  panics, and nothing recovers the panic; the later versions, given the same answers, go on to
  the next connection.
\<close>

theorem v1_accept_error_kills_server:
  assumes "resolve (s1Address s @ '':'' @ Itoa (s1Port s)) = Inr addy" and "listen addy = None"
    and "Channel (AcceptErr e) \<in> set (takeWhile (\<lambda>r. r \<noteq> CtxDone) rs)" and "\<not> errors_Is e ErrNetClosed"
  shows "(\<exists>k \<in> set (snd (Accept1 resolve listen s ctx rs)).
      fst (ServeConn1 L serveRequest ce s ctx w k) = [] \<and> snd (ServeConn1 L serveRequest ce s ctx w k) \<noteq> None) \<and>
    acceptLoop ctx t (AcceptErr e # as) = acceptLoop ctx (Suc t) as"
proof -
  have "None \<in> set (snd (Accept1 resolve listen s ctx rs))"
    using assms(1,2,3) by (force simp: Accept1_def acceptLoop1_spec waitForClient_def)
  then have "\<exists>k \<in> set (snd (Accept1 resolve listen s ctx rs)).
      fst (ServeConn1 L serveRequest ce s ctx w k) = [] \<and> snd (ServeConn1 L serveRequest ce s ctx w k) \<noteq> None"
    by (rule bexI [rotated]) (simp add: ServeConn1_def)
  then show ?thesis using assms(4) by simp
qed

definition server1_0 :: "(nat, serverCodec2) CustomRpcServer1" where
  "server1_0 = NewRpcServer1 quiet_lib []"

theorem v1_accept_error_kills_server_witness:
  "\<exists>k \<in> set (snd (Accept1 (\<lambda>a. Inr a) (\<lambda>a. None) server1_0 background [Channel (AcceptErr EOF), CtxDone])).
     snd (ServeConn1 plain_crypto_lib (\<lambda>v ctx c. ((None, c), None)) None server1_0 background
       (newWriter \<lparr>snkOut = [], snkLimit = None\<rparr>) k) \<noteq> None"
proof -
  let ?rs = "[Channel (AcceptErr EOF), CtxDone] :: (string option \<times> conn) round list"
  have "Channel (AcceptErr EOF) \<in> set (takeWhile (\<lambda>r. r \<noteq> CtxDone) ?rs)" "\<not> errors_Is EOF ErrNetClosed"
    by (simp_all add: errors_Is_def)
  from v1_accept_error_kills_server [where resolve = "\<lambda>a. Inr a" and listen = "\<lambda>a. None" and rs = ?rs and e = EOF
      and s = server1_0 and ctx = background and L = plain_crypto_lib and serveRequest = "\<lambda>v ctx c. ((None, c), None)" and ce = None
      and w = "newWriter \<lparr>snkOut = [], snkLimit = None\<rparr>", OF refl refl this, THEN conjunct1]
  show ?thesis by fast
qed

end
