(* ===== verification/Rpc1Accept.thy ===== *)
theory Rpc1Accept
  imports Rpc1
begin

text \<open>
  The accept loop of v1 (\<open>server.go\<close>) with the goroutine of \<open>waitForClient\<close> on its own. Each round
  makes a channel and starts a goroutine that accepts and then sends the connection or closes
  the channel; the loop selects between the channel and the context. The channel has no buffer:
  a send ends when the loop receives, and only then does the next round start, so that one such
  goroutine exists at a time.
\<close>

datatype 'k waiter = Accepting | Sending 'k | ChannelClosed

datatype loop_state = Selecting | Returned "err option"

record 'k accept_state =
  acLoop :: loop_state
  acListening :: bool
  acWaiter :: "'k waiter"
  acAccepted :: "'k list"
  acServed :: "'k option list"

definition accept0 :: "'k accept_state" where
  "accept0 = \<lparr>acLoop = Selecting, acListening = True, acWaiter = Accepting, acAccepted = [], acServed = []\<rparr>"

text \<open>
  \<open>client\<close>: the listener gives a connection; \<open>failed\<close>: it gives an error (always so once it is
  closed); \<open>received\<close> and \<open>received_nil\<close>: the select takes the channel, which gives the connection,
  or nil when it is closed (\<open>waitForClient\<close> of \<open>Rpc1\<close>), and starts \<open>ServeConn\<close>; \<open>ctx_done\<close>: the select takes the context. The
  select may take either branch when both are ready.
\<close>

inductive accept1_step :: "ctx \<Rightarrow> nat \<Rightarrow> 'k accept_state \<Rightarrow> 'k accept_state \<Rightarrow> bool" for ctx t where
  client: "acListening s \<Longrightarrow> acWaiter s = Accepting \<Longrightarrow>
     accept1_step ctx t s (s\<lparr>acWaiter := Sending k, acAccepted := acAccepted s @ [k]\<rparr>)"
| failed: "acWaiter s = Accepting \<Longrightarrow> accept1_step ctx t s (s\<lparr>acWaiter := ChannelClosed\<rparr>)"
| received: "acLoop s = Selecting \<Longrightarrow> acWaiter s = Sending k \<Longrightarrow>
     accept1_step ctx t s (s\<lparr>acWaiter := Accepting, acServed := acServed s @ [Some k]\<rparr>)"
| received_nil: "acLoop s = Selecting \<Longrightarrow> acWaiter s = ChannelClosed \<Longrightarrow>
     accept1_step ctx t s (s\<lparr>acWaiter := Accepting, acServed := acServed s @ [None]\<rparr>)"
| ctx_done: "acLoop s = Selecting \<Longrightarrow> ctxErr ctx t \<noteq> None \<Longrightarrow>
     accept1_step ctx t s (s\<lparr>acLoop := Returned (ctxErr ctx t), acListening := False\<rparr>)"

inductive_cases accept1_stepE: "accept1_step ctx t s s'"

text \<open>Time passes between the steps.\<close>

inductive accept1_reach :: "ctx \<Rightarrow> nat \<Rightarrow> 'k accept_state \<Rightarrow> bool" for ctx where
  start: "accept1_reach ctx t accept0"
| step: "accept1_reach ctx t s \<Longrightarrow> accept1_step ctx t' s s' \<Longrightarrow> t \<le> t' \<Longrightarrow> accept1_reach ctx t' s'"

subsection \<open>Where connections are\<close>

definition served_conns :: "'k option list \<Rightarrow> 'k list" where
  "served_conns ks = concat (map (\<lambda>k. case k of None \<Rightarrow> [] | Some x \<Rightarrow> [x]) ks)"

definition in_hand :: "'k waiter \<Rightarrow> 'k list" where
  "in_hand w = (case w of Sending k \<Rightarrow> [k] | _ \<Rightarrow> [])"

lemma served_conns_simps [simp]:
  "served_conns [] = []" "served_conns (ks @ [Some k]) = served_conns ks @ [k]"
  "served_conns (ks @ [None]) = served_conns ks"
  by (simp_all add: served_conns_def)

lemma in_hand_simps [simp]: "in_hand (Sending k) = [k]" "in_hand Accepting = []" "in_hand ChannelClosed = []"
  by (simp_all add: in_hand_def)

definition accept1_inv :: "'k accept_state \<Rightarrow> bool" where
  "accept1_inv s \<longleftrightarrow> acAccepted s = served_conns (acServed s) @ in_hand (acWaiter s) \<and>
     (acListening s \<longleftrightarrow> acLoop s = Selecting)"

lemma accept1_reach_inv: "accept1_reach ctx t s \<Longrightarrow> accept1_inv s"
proof (induction rule: accept1_reach.induct)
  case (step t s t' s')
  from step(2,4) show ?case by (cases rule: accept1_step.cases) (auto simp: accept1_inv_def)
qed (simp add: accept1_inv_def accept0_def)

subsection \<open>Properties\<close>

text \<open>
  C31: v1 can strand a connection when it stops. Every accepted connection is being served or
  is the one in the hand of the goroutine that accepted it, in the order of acceptance. But if
  the context is found done while that goroutine is sending, Accept returns, nobody will ever
  receive, and the connection is neither served nor closed: no step is left.
\<close>

theorem v1_accept_strands_connection:
  fixes s :: "'k accept_state"
  shows "(accept1_reach ctx t s \<longrightarrow> acAccepted s = served_conns (acServed s) @ in_hand (acWaiter s)) \<and>
    (accept1_reach ctx t s \<longrightarrow> acLoop s = Selecting \<longrightarrow> acWaiter s = Sending k \<longrightarrow> ctxErr ctx t \<noteq> None \<longrightarrow>
      (\<exists>s'. accept1_reach ctx t s' \<and> acLoop s' = Returned (ctxErr ctx t) \<and> acAccepted s' = acAccepted s \<and>
        acServed s' = acServed s \<and> length (served_conns (acServed s')) < length (acAccepted s') \<and>
        (\<forall>u s''. \<not> accept1_step ctx u s' s'')))"
proof (intro conjI impI)
  assume "accept1_reach ctx t s"
  then show "acAccepted s = served_conns (acServed s) @ in_hand (acWaiter s)"
    using accept1_reach_inv by (auto simp: accept1_inv_def)
next
  assume r: "accept1_reach ctx t s" "acLoop s = Selecting" "acWaiter s = Sending k" "ctxErr ctx t \<noteq> None"
  let ?s = "s\<lparr>acLoop := Returned (ctxErr ctx t), acListening := False\<rparr>"
  have "accept1_step ctx t s ?s" by (rule ctx_done [OF r(2,4)])
  then have "accept1_reach ctx t ?s" using accept1_reach.step [OF r(1)] by blast
  moreover have "\<not> accept1_step ctx u ?s s''" for u s''
    by (rule notI, erule accept1_stepE) (simp_all add: r(3))
  moreover have "length (served_conns (acServed s)) < length (acAccepted s)"
    using accept1_reach_inv [OF r(1)] r(3) by (simp add: accept1_inv_def)
  ultimately show "\<exists>s'. accept1_reach ctx t s' \<and> acLoop s' = Returned (ctxErr ctx t) \<and> acAccepted s' = acAccepted s \<and>
      acServed s' = acServed s \<and> length (served_conns (acServed s')) < length (acAccepted s') \<and>
      (\<forall>u s''. \<not> accept1_step ctx u s' s'')"
    by (intro exI [of _ ?s]) auto
qed

theorem v1_accept_strands_connection_witness:
  "\<exists>s'. accept1_reach (background\<lparr>ctxErr := (\<lambda>_. Some DeadlineExceeded)\<rparr>) 0 s' \<and>
    acLoop s' = Returned (Some DeadlineExceeded) \<and> acAccepted s' = [7 :: nat] \<and> acServed s' = []"
proof -
  let ?ctx = "background\<lparr>ctxErr := (\<lambda>_. Some DeadlineExceeded)\<rparr>"
  let ?s = "accept0\<lparr>acWaiter := Sending (7 :: nat), acAccepted := acAccepted accept0 @ [7]\<rparr>"
  have "accept1_step ?ctx 0 accept0 ?s" by (rule client) (simp_all add: accept0_def)
  then have r: "accept1_reach ?ctx 0 ?s" using accept1_reach.step [OF accept1_reach.start] by blast
  have "acLoop ?s = Selecting" "acWaiter ?s = Sending 7" "ctxErr ?ctx 0 \<noteq> None"
    by (simp_all add: accept0_def)
  then obtain s' where "accept1_reach ?ctx 0 s'" "acLoop s' = Returned (ctxErr ?ctx 0)"
      "acAccepted s' = acAccepted ?s" "acServed s' = acServed ?s"
    using v1_accept_strands_connection [of ?ctx 0 ?s 7] r by blast
  then show ?thesis by (auto simp: accept0_def)
qed

end
