(* ===== verification/VersionSessions.thy ===== *)
theory VersionSessions
  imports Rpc1
begin

text \<open>
  Sessions across versions. A client of v1, of v2 or of v3 on its legacy transport writes the same
  bytes, and the server codecs of all three versions read them: without a secret, where headers
  and bodies share one gob encoder, so that a type definition is sent once for both, and with one,
  by the sealed sessions of \<open>GobSession\<close> and the negotiation of \<open>Negotiate\<close>.
\<close>

subsection \<open>A stream of calls\<close>

type_synonym open_out = "gob_out \<times> gob_out"

definition open_call :: "open_out \<Rightarrow> bytes" where
  "open_call m = gob_text (fst m) @ gob_text (snd m)"

text \<open>The values a decoder finds: every interpretation comes after all type definitions sent so far.\<close>

fun open_calls :: "'r gob_interp \<Rightarrow> 'v gob_interp \<Rightarrow> bytes list \<Rightarrow> open_out list \<Rightarrow> ('r \<times> 'v) list \<Rightarrow> bool" where
  "open_calls H G types [] [] \<longleftrightarrow> True"
| "open_calls H G types ((hdr, body) # ms) ((h, v) # vs) \<longleftrightarrow>
     (\<exists>hb bb. snd hdr = Inr hb \<and> typed_by H types (fst hdr) hb h \<and>
        snd body = Inr bb \<and> typed_by G (types @ fst hdr) (fst body) bb v) \<and>
     open_calls H G (types @ fst hdr @ fst body) ms vs"
| "open_calls H G types _ _ \<longleftrightarrow> False"

primrec openSends :: "open_out list \<Rightarrow> 's gobCodec \<Rightarrow> err option list \<times> 's gobCodec" where
  "openSends [] c = ([], c)"
| "openSends (m # ms) c =
     (case GobWriteRequest (fst m) (snd m) c of
        (r, c1) \<Rightarrow> (case openSends ms c1 of (rs, c2) \<Rightarrow> (r # rs, c2)))"

primrec openServe ::
  "'s reader \<Rightarrow> 'r gob_interp \<Rightarrow> 'v gob_interp \<Rightarrow> nat \<Rightarrow> 's gobCodec \<Rightarrow>
   (((err + 'r) \<times> (err + 'v)) list \<times> 's gobCodec) option" where
  "openServe rd H G 0 c = Some ([], c)"
| "openServe rd H G (Suc n) c =
     (case GobReadRequestHeader rd H c of
        None \<Rightarrow> None
      | Some (h, c1) \<Rightarrow>
          (case GobReadRequestBody rd G c1 of
             None \<Rightarrow> None
           | Some (v, c2) \<Rightarrow>
               (case openServe rd H G n c2 of
                  None \<Rightarrow> None
                | Some (rs, c3) \<Rightarrow> Some ((h, v) # rs, c3))))"

text \<open>The same with the codec of v1.\<close>

primrec openSends1 :: "open_out list \<Rightarrow> 's gobCodec \<Rightarrow> err option list \<times> 's gobCodec" where
  "openSends1 [] c = ([], c)"
| "openSends1 (m # ms) c =
     (case GobWriteRequest1 (fst m) (snd m) c of
        (r, c1) \<Rightarrow> (case openSends1 ms c1 of (rs, c2) \<Rightarrow> (r # rs, c2)))"

primrec openServe1 ::
  "'s reader \<Rightarrow> 'r gob_interp \<Rightarrow> 'v gob_interp \<Rightarrow> nat \<Rightarrow> 's gobCodec \<Rightarrow>
   (((err + 'r) \<times> (err + 'v)) list \<times> 's gobCodec) option" where
  "openServe1 rd H G 0 c = Some ([], c)"
| "openServe1 rd H G (Suc n) c =
     (case GobReadRequestHeader1 rd H c of
        None \<Rightarrow> None
      | Some (h, c1) \<Rightarrow>
          (case GobReadRequestBody1 rd G c1 of
             None \<Rightarrow> None
           | Some (v, c2) \<Rightarrow>
               (case openServe1 rd H G n c2 of
                  None \<Rightarrow> None
                | Some (rs, c3) \<Rightarrow> Some ((h, v) # rs, c3))))"

primrec sealedSends1 :: "crypto_lib \<Rightarrow> sealed_out list \<Rightarrow> 's cryptoCodec \<Rightarrow> outcome list \<times> 's cryptoCodec" where
  "sealedSends1 L [] c = ([], c)"
| "sealedSends1 L (m # ms) c =
     (case SealedWriteRequest1 L (fst m) (fst (snd m)) (snd (snd m)) c of
        (r, c1) \<Rightarrow> (case sealedSends1 L ms c1 of (rs, c2) \<Rightarrow> (r # rs, c2)))"

primrec sealedServe1 ::
  "crypto_lib \<Rightarrow> bytes gob_interp \<Rightarrow> 's reader \<Rightarrow> 'r gob_interp \<Rightarrow> 'v gob_interp \<Rightarrow> nat \<Rightarrow> 's cryptoCodec \<Rightarrow>
   (((err + 'r) \<times> (err + 'v)) list \<times> 's cryptoCodec) option" where
  "sealedServe1 L B rd H G 0 c = Some ([], c)"
| "sealedServe1 L B rd H G (Suc n) c =
     (case SealedReadRequestHeader1 rd H c of
        None \<Rightarrow> None
      | Some (h, c1) \<Rightarrow>
          (case SealedReadRequestBody1 L B rd G c1 of
             None \<Rightarrow> None
           | Some (v, c2) \<Rightarrow>
               (case sealedServe1 L B rd H G n c2 of
                  None \<Rightarrow> None
                | Some (rs, c3) \<Rightarrow> Some ((h, v) # rs, c3))))"

lemma openSends1_eq: "openSends1 ms c = openSends ms c"
  by (induction ms arbitrary: c) (simp_all add: gob1_writes)

lemma openServe1_eq: "openServe1 rd H G n c = openServe rd H G n c"
  by (induction n arbitrary: c) (simp_all add: gob1_reads cong: option.case_cong prod.case_cong)

lemma sealedSends1_eq: "sealedSends1 L ms c = sealedSends L ms c"
  by (induction ms arbitrary: c) (simp_all add: SealedWriteRequest1_eq)

lemma sealedServe1_eq: "sealedServe1 L B rd H G n c = sealedServe L B rd H G n c"
  by (induction n arbitrary: c) (simp_all add: sealed1_headers sealed1_bodies cong: option.case_cong prod.case_cong)

lemmas sessions1_eq = openSends1_eq openServe1_eq sealedSends1_eq sealedServe1_eq gob1_constructors sealed1_constructors

subsection \<open>Writing\<close>

lemma GobWriteRequest_ok:
  assumes "writer_ok (gcBuf c)" "snd hdr = Inr hb" "snd body = Inr bb"
  shows "\<exists>b. GobWriteRequest hdr body c = (None, c\<lparr>gcBuf := b\<rparr>) \<and> writer_ok b \<and> bwBuf b = [] \<and>
    snkOut (bwSink b) = written (gcBuf c) @ open_call (hdr, body)"
proof -
  obtain b1 where b1: "gobEncodeTo hdr (gcBuf c) = (None, b1)" "writer_ok b1"
      "written b1 = written (gcBuf c) @ gob_text hdr"
    using gobEncodeTo_ok [OF assms(1,2)] by blast
  obtain b2 where b2: "gobEncodeTo body b1 = (None, b2)" "writer_ok b2" "written b2 = written b1 @ gob_text body"
    using gobEncodeTo_ok [OF b1(2) assms(3)] by blast
  obtain b3 where "Flush b2 = (None, b3)" "writer_ok b3" "bwBuf b3 = []" "snkOut (bwSink b3) = written b2"
    using Flush_ok [OF b2(2)] by blast
  then show ?thesis using b1 b2
    by (intro exI [of _ b3]) (simp add: GobWriteRequest_def gcEncode_def gcFlush_def open_call_def)
qed

lemma openSends_ok:
  assumes "writer_ok (gcBuf c)" "bwBuf (gcBuf c) = []" "open_calls H G types ms vs"
  shows "\<exists>b. openSends ms c = (replicate (length ms) None, c\<lparr>gcBuf := b\<rparr>) \<and>
    snkOut (bwSink b) = snkOut (bwSink (gcBuf c)) @ concat (map open_call ms)"
  using assms
proof (induction H G types ms vs arbitrary: c rule: open_calls.induct)
  case (1 H G types)
  then show ?case by (intro exI [of _ "gcBuf c"]) simp
next
  case (2 H G types hdr body ms h v vs)
  then obtain hb bb where p: "snd hdr = Inr hb" "snd body = Inr bb" by auto
  obtain b where b: "GobWriteRequest hdr body c = (None, c\<lparr>gcBuf := b\<rparr>)" "writer_ok b" "bwBuf b = []"
      "snkOut (bwSink b) = written (gcBuf c) @ open_call (hdr, body)"
    using GobWriteRequest_ok [OF 2(2) p] by blast
  obtain b2 where "openSends ms (c\<lparr>gcBuf := b\<rparr>) = (replicate (length ms) None, c\<lparr>gcBuf := b2\<rparr>)"
      "snkOut (bwSink b2) = snkOut (bwSink b) @ concat (map open_call ms)"
    using 2(1) [of "c\<lparr>gcBuf := b\<rparr>"] 2(4) b(2,3) by auto
  then show ?case using b(1,4) 2(3) by (intro exI [of _ b2]) (simp add: written_def)
qed simp_all

subsection \<open>Reading\<close>

context byte_source begin

lemma gcDecode_value:
  assumes "ok (gcSrc c)" "content (gcSrc c) = concat (map gobMessage defs) @ gobMessage body @ rest"
    and "typed_by G (gcTypes c) defs body v"
  shows "\<exists>c'. gcDecode rd G c = Some (Inr v, c') \<and> ok (gcSrc c') \<and> content (gcSrc c') = rest \<and>
    gcTypes c' = gcTypes c @ defs"
  using gobDecode_value [OF assms, of True] by (auto simp: gcDecode_def)

lemma openServe_calls:
  assumes "ok (gcSrc c)" "content (gcSrc c) = concat (map open_call ms) @ rest"
    and "open_calls H G types ms vs" "gcTypes c = types"
  shows "\<exists>c'. openServe rd H G (length ms) c = Some (map (\<lambda>(h, v). (Inr h, Inr v)) vs, c') \<and>
    content (gcSrc c') = rest"
  using assms
proof (induction H G types ms vs arbitrary: c rule: open_calls.induct)
  case (2 H G types hdr body ms h v vs)
  then obtain hb bb where t: "snd hdr = Inr hb" "typed_by H (gcTypes c) (fst hdr) hb h"
      "snd body = Inr bb" "typed_by G (gcTypes c @ fst hdr) (fst body) bb v"
      "open_calls H G (types @ fst hdr @ fst body) ms vs" by auto
  let ?rest = "concat (map open_call ms) @ rest"
  let ?b = "concat (map gobMessage (fst body)) @ gobMessage bb @ ?rest"
  have "content (gcSrc c) = concat (map gobMessage (fst hdr)) @ gobMessage hb @ ?b"
    using 2(3) t(1,3) by (simp add: open_call_def [of "(hdr, body)"] gob_text_def [of hdr] gob_text_def [of body])
  from gcDecode_value [OF 2(2) this t(2)] obtain c1 where c1: "gcDecode rd H c = Some (Inr h, c1)"
      "ok (gcSrc c1)" "content (gcSrc c1) = ?b" "gcTypes c1 = gcTypes c @ fst hdr" by blast
  have "typed_by G (gcTypes c1) (fst body) bb v" using t(4) by (simp add: c1(4))
  from gcDecode_value [OF c1(2,3) this] obtain c2 where c2: "gcDecode rd G c1 = Some (Inr v, c2)"
      "ok (gcSrc c2)" "content (gcSrc c2) = ?rest" "gcTypes c2 = types @ fst hdr @ fst body"
    using c1(4) 2(5) by auto
  obtain c3 where "openServe rd H G (length ms) c2 = Some (map (\<lambda>(h, v). (Inr h, Inr v)) vs, c3)"
      "content (gcSrc c3) = rest"
    using 2(1) [OF c2(2,3) t(5) c2(4)] by blast
  then show ?case
    using c1(1) c2(1) by (simp add: GobReadRequestHeader_def GobReadRequestBody_def)
qed simp_all

end

lemma newGob_serves:
  assumes "cn.bio_ready src" "bio_content conn_content src = concat (map open_call ms)" "open_calls H G [] ms vs"
  shows "\<exists>c'. openServe prefixRead H G (length ms) (newGobServerCodec w src) = Some (map (\<lambda>(h, v). (Inr h, Inr v)) vs, c')"
  using pc.openServe_calls [of "newGobServerCodec w src" ms "[]" H G "[]" vs] assms
  by (auto simp: newGobServerCodec_def)

subsection \<open>Properties\<close>

text \<open>
  C13: versions understand each other without a secret. The clients of v1, v2 and v3 (on its
  legacy transport) make the same gob codec and write the same bytes; the requests it writes, however many calls ahead and
  in whatever pieces they arrive, are read back call by call by the server codecs of v1, v2
  and v3, the last having chosen gob by the first two bytes. These are the bytes of a type
  definition, the first of which is not one that may follow the brace of a JSON object.
\<close>

theorem open_session_across_versions:
  assumes "open_calls H G [] msgs vs"
    and "fst (fst (hd msgs)) = (d # ds) # defs" and "d \<notin> {34, 32, 9, 10, 13}" and "msgs \<noteq> []"
    and "W = newWriter \<lparr>snkOut = [], snkLimit = None\<rparr>"
    and "openSends msgs (newGobClientCodec W (newBufio conn0)) = (errs, cl')"
    and "conn_ok arrivals" and "conn_content arrivals = snkOut (bwSink (gcBuf cl'))"
  shows "GetClientCodec1 L W (newBufio conn0) conn0 [] = Inr (OpenGob (newGobClientCodec W (newBufio conn0))) \<and>
    NewClientCodec L W (newBufio conn0) conn0 [] = Inr (OpenGob (newGobClientCodec W (newBufio conn0))) \<and>
    NewClientCodecV3 L W conn0 [] m False = Inr (LegacyClient (OpenGob (newGobClientCodec W (newBufio conn0)))) \<and>
    openSends1 msgs (newGobClientCodec W (newBufio conn0)) = (errs, cl') \<and>
    errs = replicate (length msgs) None \<and>
    (\<exists>srv c'. GetServerCodec1 L w (newBufio arrivals) arrivals [] = Inr (OpenGob srv) \<and>
      openServe1 prefixRead H G (length msgs) srv = Some (map (\<lambda>(h, v). (Inr h, Inr v)) vs, c')) \<and>
    (\<exists>srv c'. NewServerCodec L w (newBufio arrivals) arrivals [] = Inr (OpenGob srv) \<and>
      openServe prefixRead H G (length msgs) srv = Some (map (\<lambda>(h, v). (Inr h, Inr v)) vs, c')) \<and>
    (\<exists>srv c'. NewServerCodecV3 L w arrivals [] m = Inr (LegacyServer (OpenGob srv)) \<and>
      openServe prefixRead H G (length msgs) srv = Some (map (\<lambda>(h, v). (Inr h, Inr v)) vs, c'))"
proof -
  let ?C = "concat (map open_call msgs)" and ?cl = "newGobClientCodec W (newBufio conn0)"
  have "writer_ok (gcBuf ?cl)" "bwBuf (gcBuf ?cl) = []" "snkOut (bwSink (gcBuf ?cl)) = []"
    by (simp_all add: assms(5) newGobClientCodec_def newWriter_def writer_ok_def)
  from openSends_ok [OF this(1,2) assms(1)] this(3) obtain b where
    b: "openSends msgs ?cl = (replicate (length msgs) None, ?cl\<lparr>gcBuf := b\<rparr>)" "snkOut (bwSink b) = ?C"
    by auto
  then have e: "errs = replicate (length msgs) None" and c: "conn_content arrivals = ?C"
    using assms(6,8) by auto
  obtain hdr body ms where ms: "msgs = (hdr, body) # ms" using assms(4) by (cases msgs) auto
  obtain h v vs' where vs: "vs = (h, v) # vs'" using assms(1) by (cases vs) (auto simp: ms)
  obtain hh where "typed_by H [] (fst hdr) hh h" using assms(1) by (auto simp: ms vs)
  moreover have h: "fst hdr = (d # ds) # defs" using assms(2) by (simp add: ms)
  ultimately have "length (d # ds) < tooBig" by simp
  then have "\<not> isJSONStream (gobMessage (d # ds) @ x)" for x
    using gob_first_bytes [of "d # ds" x] assms(3) by (simp add: tooBig_def)
  moreover obtain x where x: "?C = gobMessage (d # ds) @ x"
    by (simp add: ms open_call_def [of "(hdr, body)"] gob_text_def [of hdr] h)
  moreover have "gobUint n \<noteq> []" for n by (simp add: gobUint_def)
  then have "2 \<le> length (gobMessage (d # ds))"
    by (cases "gobUint (length (d # ds))") (auto simp: gobMessage_def)
  ultimately have j: "\<not> isJSONStream (conn_content arrivals)" "2 \<le> length (conn_content arrivals)"
    by (simp_all add: c)
  obtain br where br: "sniffServerConn arrivals = Inr (br, False)" "cn.bio_ready br" "bio_content conn_content br = ?C"
    using sniff_long [OF assms(7) j(2)] j(1) c by auto
  have n: "cn.bio_ready (newBufio arrivals)" "bio_content conn_content (newBufio arrivals) = ?C"
    using assms(7) c by (simp_all add: cn.bio_ready_def) (simp add: newBufio_def)
  note serves = newGob_serves [OF n assms(1), of w] newGob_serves [OF br(2,3) assms(1), of w]
  show ?thesis
    using serves e assms(6)
    by (simp add: sessions1_eq GetClientCodec1_def NewClientCodec_def NewClientCodecV3_def GetServerCodec1_def NewServerCodec_def
        NewServerCodecV3_def br(1))
qed

text \<open>Two calls in one piece: a type definition that begins with 255, then \<open>[]byte\<close> values.\<close>

definition open0 :: "open_out list" where
  "open0 = [(([[255, 129]], Inr (bytesBody [1])), ([], Inr (bytesBody [2]))),
     (([], Inr (bytesBody [3])), ([], Inr (bytesBody [4])))]"

theorem open_session_across_versions_witness:
  "\<exists>errs cl' srv c'. openSends open0 (newGobClientCodec (newWriter \<lparr>snkOut = [], snkLimit = None\<rparr>) (newBufio ([] :: conn))) =
      (errs, cl') \<and>
    NewServerCodecV3 plain_crypto_lib (newWriter \<lparr>snkOut = [], snkLimit = None\<rparr>)
      [Piece (snkOut (bwSink (gcBuf cl')))] [] 0 = Inr (LegacyServer (OpenGob srv)) \<and>
    openServe prefixRead typed_gob typed_gob 2 srv = Some ([(Inr [1], Inr [2]), (Inr [3], Inr [4])], c')"
proof -
  let ?w = "newWriter \<lparr>snkOut = [], snkLimit = None\<rparr>"
  let ?cl = "newGobClientCodec ?w (newBufio ([] :: conn))"
  obtain errs cl' where s: "openSends open0 ?cl = (errs, cl')" by (metis prod.exhaust)
  let ?out = "snkOut (bwSink (gcBuf cl'))"
  have p: "plain_gob ts (bytesBody [x]) = GobValue [x]" for ts x by (rule plain_gob_body) simp
  have t: "typed_gob ts (bytesBody [x]) = GobValue [x]" for ts x
    using p by (simp add: typed_gob_def bytesBody_def)
  have ty: "open_calls typed_gob typed_gob [] open0 [([1], [2]), ([3], [4])]"
    by (simp add: open0_def t bytesBody_small tooBig_def) (simp add: typed_gob_def)
  have w: "writer_ok (gcBuf ?cl)" "bwBuf (gcBuf ?cl) = []"
    by (simp_all add: newGobClientCodec_def newWriter_def writer_ok_def)
  have "?out \<noteq> []"
    using openSends_ok [OF w ty] s by (auto simp: open0_def open_call_def gob_text_def gobMessage_def gobUint_def split: if_splits)
  then have arr: "conn_ok [Piece ?out]" "conn_content [Piece ?out] = ?out" by (simp_all add: conn_ok_def)
  have d: "fst (fst (hd open0)) = (255 # [129]) # []" "(255 :: byte) \<notin> {34, 32, 9, 10, 13}" "open0 \<noteq> []"
    by (simp_all add: open0_def)
  have l: "length open0 = 2" by (simp add: open0_def)
  from open_session_across_versions [OF ty d refl s arr, of plain_crypto_lib 0 ?w]
  obtain srv c' where "NewServerCodecV3 plain_crypto_lib ?w [Piece ?out] [] 0 = Inr (LegacyServer (OpenGob srv))"
    "openServe prefixRead typed_gob typed_gob (length open0) srv =
      Some (map (\<lambda>(h, v). (Inr h, Inr v)) [([1], [2]), ([3], [4])], c')" by blast
  then show ?thesis using s by (simp add: l)
qed

text \<open>
  C14: versions with the same secret understand each other. The clients of v1, v2 and v3 (on its
  legacy transport) make the same sealing codec and write the same bytes; the requests it writes, however many calls ahead
  and in whatever pieces they arrive, are opened call by call by the server codecs of v1, v2 and
  v3, the last having chosen the legacy codec by the first two bytes.
\<close>

theorem sealed_session_across_versions:
  assumes "crypto_lib_ok L" and "gob_bytes_ok B" and "typed_calls H G [] msgs vs" and "key \<noteq> []"
    and "\<forall>(rnd, hdr, body) \<in> set msgs. rand_ok rnd \<and> (\<exists>n. rnd 12 = Inr n) \<and> length (gob_text body) + 39 < tooBig"
    and "fst (fst (snd (hd msgs))) = (d # ds) # defs" and "d \<notin> {34, 32, 9, 10, 13}" and "msgs \<noteq> []"
    and "W = newWriter \<lparr>snkOut = [], snkLimit = None\<rparr>"
    and "NewClientCodecV3 L W conn0 key m' False = Inr (LegacyClient (Sealed cl))"
    and "sealedSends L msgs cl = (outcomes, cl')"
    and "conn_ok arrivals" and "conn_content arrivals = snkOut (bwSink (ccBuf cl'))"
  shows "GetClientCodec1 L W (newBufio conn0) conn0 key = Inr (Sealed cl) \<and>
    NewClientCodec L W (newBufio conn0) conn0 key = Inr (Sealed cl) \<and>
    sealedSends1 L msgs cl = (outcomes, cl') \<and>
    outcomes = replicate (length msgs) (Returns None) \<and>
    (\<exists>srv c'. GetServerCodec1 L w (newBufio arrivals) arrivals key = Inr (Sealed srv) \<and>
      sealedServe1 L B connRead H G (length msgs) srv = Some (map (\<lambda>(h, v). (Inr h, Inr v)) vs, c')) \<and>
    (\<exists>srv c'. NewServerCodec L w (newBufio arrivals) arrivals key = Inr (Sealed srv) \<and>
      sealedServe L B connRead H G (length msgs) srv = Some (map (\<lambda>(h, v). (Inr h, Inr v)) vs, c')) \<and>
    (\<exists>srv c'. NewServerCodecV3 L w arrivals key m = Inr (LegacyServer (Sealed srv)) \<and>
      sealedServe L B prefixRead H G (length msgs) srv = Some (map (\<lambda>(h, v). (Inr h, Inr v)) vs, c'))"
proof -
  note cl = assms(10) [unfolded assms(9)]
  have v3: "\<exists>srv c'. NewServerCodecV3 L w arrivals key m = Inr (LegacyServer (Sealed srv)) \<and>
      sealedServe L B prefixRead H G (length msgs) srv = Some (map (\<lambda>(h, v). (Inr h, Inr v)) vs, c')"
    by (rule legacy_negotiated_session [OF assms(1-8) cl assms(11-13)])
  have c: "newCryptoClientCodec L W conn0 key = Inr cl"
    using assms(4,10) by (auto simp: NewClientCodecV3_def NewClientCodec_def split: sum.splits)
  obtain crypto where "newCrypto L key = Inr crypto" using newCrypto_Inr [OF assms(1)] by blast
  then obtain srv where srv: "newCryptoServerCodec L w arrivals key = Inr srv"
    by (auto simp: newCryptoServerCodec_def newCrypto2_eq)
  note s = sealed_session_roundtrip [OF assms(1-3,5) c [unfolded assms(9)] assms(11) srv assms(12,13)]
  show ?thesis
    using s c v3 assms(4,11) srv by (simp add: sessions1_eq GetClientCodec1_def NewClientCodec_def GetServerCodec1_def NewServerCodec_def)
qed

theorem sealed_session_across_versions_witness:
  "\<exists>cl outcomes cl' srv c'. NewClientCodecV3 plain_crypto_lib (newWriter \<lparr>snkOut = [], snkLimit = None\<rparr>) [] [1] 0 False =
      Inr (LegacyClient (Sealed cl)) \<and>
    sealedSends plain_crypto_lib [typed0] cl = (outcomes, cl') \<and>
    GetServerCodec1 plain_crypto_lib (newWriter \<lparr>snkOut = [], snkLimit = None\<rparr>) (newBufio [Piece (snkOut (bwSink (ccBuf cl')))])
      [Piece (snkOut (bwSink (ccBuf cl')))] [1] = Inr (Sealed srv) \<and>
    sealedServe1 plain_crypto_lib plain_gob connRead typed_gob plain_gob 1 srv = Some ([(Inr [1], Inr [2])], c')"
proof -
  let ?w = "newWriter \<lparr>snkOut = [], snkLimit = None\<rparr>"
  obtain cl outcomes cl' where a: "NewClientCodecV3 plain_crypto_lib ?w [] [1] 0 False = Inr (LegacyClient (Sealed cl))"
    "sealedSends plain_crypto_lib [typed0] cl = (outcomes, cl')"
    "typed_calls typed_gob plain_gob [] [typed0] [([1], [2])]"
    "\<forall>(rnd, hdr, body) \<in> set [typed0]. rand_ok rnd \<and> (\<exists>n. rnd 12 = Inr n) \<and> length (gob_text body) + 39 < tooBig"
    "fst (fst (snd (hd [typed0]))) = (255 # [129]) # []" "(255 :: byte) \<notin> {34, 32, 9, 10, 13}" "[typed0] \<noteq> []"
    "conn_ok [Piece (snkOut (bwSink (ccBuf cl')))]"
    "conn_content [Piece (snkOut (bwSink (ccBuf cl')))] = snkOut (bwSink (ccBuf cl'))"
    by (rule typed0_session)
  have k: "[1 :: byte] \<noteq> []" by simp
  from sealed_session_across_versions [OF plain_crypto_lib_ok plain_gob_ok a(3) k a(4-7) refl a(1,2,8,9), of ?w 0] a(1,2)
  show ?thesis by auto
qed

end
