(* ===== verification/GobResponses.thy ===== *)
theory GobResponses
  imports VersionSessions
begin

text \<open>
  The other direction of the gob sessions: what a server codec writes as responses, its client
  reads back. The server's writes add to the client's what happens when they fail (the connection
  is closed); while they succeed they are the same, so the sessions of requests are reused.
\<close>

subsection \<open>Writing\<close>

lemma GobWriteResponse_ok:
  "GobWriteRequest hdr body c = (None, c') \<Longrightarrow> GobWriteResponse closeErr hdr body c = (None, c')"
  by (auto simp: GobWriteRequest_def GobWriteResponse_def split: prod.splits option.splits)

lemma SealedWriteResponse_ok:
  "SealedWriteRequest L rnd hdr body c = (Returns None, c') \<Longrightarrow>
   SealedWriteResponse L rnd closeErr hdr body c = (Returns None, c')"
  by (simp add: SealedWriteRequest_def SealedWriteResponse_def)

primrec openAnswers :: "err option \<Rightarrow> open_out list \<Rightarrow> 's gobCodec \<Rightarrow> err option list \<times> 's gobCodec" where
  "openAnswers closeErr [] c = ([], c)"
| "openAnswers closeErr (m # ms) c =
     (case GobWriteResponse closeErr (fst m) (snd m) c of
        (r, c1) \<Rightarrow> (case openAnswers closeErr ms c1 of (rs, c2) \<Rightarrow> (r # rs, c2)))"

primrec sealedAnswers ::
  "crypto_lib \<Rightarrow> err option \<Rightarrow> sealed_out list \<Rightarrow> 's cryptoCodec \<Rightarrow> outcome list \<times> 's cryptoCodec" where
  "sealedAnswers L closeErr [] c = ([], c)"
| "sealedAnswers L closeErr (m # ms) c =
     (case SealedWriteResponse L (fst m) closeErr (fst (snd m)) (snd (snd m)) c of
        (r, c1) \<Rightarrow> (case sealedAnswers L closeErr ms c1 of (rs, c2) \<Rightarrow> (r # rs, c2)))"

lemma openAnswers_ok:
  "openSends ms c = (replicate (length ms) None, c') \<Longrightarrow>
   openAnswers closeErr ms c = (replicate (length ms) None, c')"
  by (induction ms arbitrary: c) (auto simp: GobWriteResponse_ok split: prod.splits)

lemma sealedAnswers_ok:
  "sealedSends L ms c = (replicate (length ms) (Returns None), c') \<Longrightarrow>
   sealedAnswers L closeErr ms c = (replicate (length ms) (Returns None), c')"
  by (induction ms arbitrary: c) (auto simp: SealedWriteResponse_ok split: prod.splits)

subsection \<open>Reading\<close>

primrec openReceives ::
  "'s reader \<Rightarrow> 'r gob_interp \<Rightarrow> 'v gob_interp \<Rightarrow> nat \<Rightarrow> 's gobCodec \<Rightarrow>
   (((err + 'r) \<times> (err + 'v)) list \<times> 's gobCodec) option" where
  "openReceives rd H G 0 c = Some ([], c)"
| "openReceives rd H G (Suc n) c =
     (case GobReadResponseHeader rd H c of
        None \<Rightarrow> None
      | Some (h, c1) \<Rightarrow>
          (case GobReadResponseBody rd G c1 of
             None \<Rightarrow> None
           | Some (v, c2) \<Rightarrow>
               (case openReceives rd H G n c2 of
                  None \<Rightarrow> None
                | Some (rs, c3) \<Rightarrow> Some ((h, v) # rs, c3))))"

primrec sealedReceives ::
  "crypto_lib \<Rightarrow> bytes gob_interp \<Rightarrow> 's reader \<Rightarrow> 'r gob_interp \<Rightarrow> 'v gob_interp \<Rightarrow> nat \<Rightarrow> 's cryptoCodec \<Rightarrow>
   (((err + 'r) \<times> (err + 'v)) list \<times> 's cryptoCodec) option" where
  "sealedReceives L B rd H G 0 c = Some ([], c)"
| "sealedReceives L B rd H G (Suc n) c =
     (case SealedReadResponseHeader rd H c of
        None \<Rightarrow> None
      | Some (h, c1) \<Rightarrow>
          (case SealedReadResponseBody L B rd G c1 of
             None \<Rightarrow> None
           | Some (v, c2) \<Rightarrow>
               (case sealedReceives L B rd H G n c2 of
                  None \<Rightarrow> None
                | Some (rs, c3) \<Rightarrow> Some ((h, v) # rs, c3))))"

lemma openReceives_eq: "openReceives rd H G n c = openServe rd H G n c"
  by (induction n arbitrary: c)
    (simp_all add: GobReadResponseHeader_def GobReadResponseBody_def GobReadRequestHeader_def
      GobReadRequestBody_def cong: option.case_cong prod.case_cong)

text \<open>The two body readers differ in the texts of their errors.\<close>

lemma readSealedBody_what:
  assumes "readSealedBody a L B rd G c = Some (Inr v, c')"
  shows "readSealedBody b L B rd G c = Some (Inr v, c')"
  using assms by (auto simp: readSealedBody_def split: prod.splits option.splits if_splits sum.splits)

lemma sealedReceives_ok:
  "sealedServe L B rd H G n c = Some (map (\<lambda>(h, v). (Inr h, Inr v)) vs, c') \<Longrightarrow>
   sealedReceives L B rd H G n c = Some (map (\<lambda>(h, v). (Inr h, Inr v)) vs, c')"
proof (induction n arbitrary: c vs)
  case (Suc n)
  obtain h c1 v c2 rs where r: "SealedReadRequestHeader rd H c = Some (h, c1)"
      "SealedReadRequestBody L B rd G c1 = Some (v, c2)" "sealedServe L B rd H G n c2 = Some (rs, c')"
      "map (\<lambda>(h, v). (Inr h, Inr v)) vs = (h, v) # rs"
    using Suc.prems by (auto split: option.splits prod.splits)
  obtain hv vs' where vs: "vs = hv # vs'" using r(4) by (cases vs) auto
  then have v: "v = Inr (snd hv)" "h = Inr (fst hv)" "rs = map (\<lambda>(h, v). (Inr h, Inr v)) vs'"
    using r(4) by (auto simp: case_prod_beta)
  have "readSealedBody ''response'' L B rd G c1 = Some (v, c2)"
    using readSealedBody_what r(2) by (simp add: v(1) SealedReadRequestBody_def)
  moreover have "sealedReceives L B rd H G n c2 = Some (rs, c')"
    using Suc.IH [of c2 vs'] r(3) by (simp add: v(3))
  ultimately show ?case
    using r(1) v by (simp add: vs SealedReadResponseHeader_def SealedReadResponseBody_def SealedReadRequestHeader_def
        case_prod_beta)
qed simp

text \<open>The same with the codecs of v1.\<close>

primrec openAnswers1 :: "err option \<Rightarrow> open_out list \<Rightarrow> 's gobCodec \<Rightarrow> err option list \<times> 's gobCodec" where
  "openAnswers1 closeErr [] c = ([], c)"
| "openAnswers1 closeErr (m # ms) c =
     (case GobWriteResponse1 closeErr (fst m) (snd m) c of
        (r, c1) \<Rightarrow> (case openAnswers1 closeErr ms c1 of (rs, c2) \<Rightarrow> (r # rs, c2)))"

primrec sealedAnswers1 ::
  "crypto_lib \<Rightarrow> err option \<Rightarrow> sealed_out list \<Rightarrow> 's cryptoCodec \<Rightarrow> outcome list \<times> 's cryptoCodec" where
  "sealedAnswers1 L closeErr [] c = ([], c)"
| "sealedAnswers1 L closeErr (m # ms) c =
     (case SealedWriteResponse1 L (fst m) closeErr (fst (snd m)) (snd (snd m)) c of
        (r, c1) \<Rightarrow> (case sealedAnswers1 L closeErr ms c1 of (rs, c2) \<Rightarrow> (r # rs, c2)))"

primrec openReceives1 ::
  "'s reader \<Rightarrow> 'r gob_interp \<Rightarrow> 'v gob_interp \<Rightarrow> nat \<Rightarrow> 's gobCodec \<Rightarrow>
   (((err + 'r) \<times> (err + 'v)) list \<times> 's gobCodec) option" where
  "openReceives1 rd H G 0 c = Some ([], c)"
| "openReceives1 rd H G (Suc n) c =
     (case GobReadResponseHeader1 rd H c of
        None \<Rightarrow> None
      | Some (h, c1) \<Rightarrow>
          (case GobReadResponseBody1 rd G c1 of
             None \<Rightarrow> None
           | Some (v, c2) \<Rightarrow>
               (case openReceives1 rd H G n c2 of
                  None \<Rightarrow> None
                | Some (rs, c3) \<Rightarrow> Some ((h, v) # rs, c3))))"

primrec sealedReceives1 ::
  "crypto_lib \<Rightarrow> bytes gob_interp \<Rightarrow> 's reader \<Rightarrow> 'r gob_interp \<Rightarrow> 'v gob_interp \<Rightarrow> nat \<Rightarrow> 's cryptoCodec \<Rightarrow>
   (((err + 'r) \<times> (err + 'v)) list \<times> 's cryptoCodec) option" where
  "sealedReceives1 L B rd H G 0 c = Some ([], c)"
| "sealedReceives1 L B rd H G (Suc n) c =
     (case SealedReadResponseHeader1 rd H c of
        None \<Rightarrow> None
      | Some (h, c1) \<Rightarrow>
          (case SealedReadResponseBody1 L B rd G c1 of
             None \<Rightarrow> None
           | Some (v, c2) \<Rightarrow>
               (case sealedReceives1 L B rd H G n c2 of
                  None \<Rightarrow> None
                | Some (rs, c3) \<Rightarrow> Some ((h, v) # rs, c3))))"

lemma openAnswers1_eq: "openAnswers1 closeErr ms c = openAnswers closeErr ms c"
  by (induction ms arbitrary: c) (simp_all add: gob1_writes)

lemma sealedAnswers1_eq: "sealedAnswers1 L closeErr ms c = sealedAnswers L closeErr ms c"
  by (induction ms arbitrary: c) (simp_all add: SealedWriteResponse1_eq)

lemma openReceives1_eq: "openReceives1 rd H G n c = openReceives rd H G n c"
  by (induction n arbitrary: c) (simp_all add: gob1_reads cong: option.case_cong prod.case_cong)

lemma sealedReceives1_eq: "sealedReceives1 L B rd H G n c = sealedReceives L B rd H G n c"
  by (induction n arbitrary: c) (simp_all add: sealed1_headers sealed1_bodies cong: option.case_cong prod.case_cong)

subsection \<open>Properties\<close>

text \<open>
  C32: sealed responses. The responses a server codec writes, sealed, are all written, and if
  their bytes arrive in any pieces, even many responses at once, the client codec made with the
  same secret reads every header and opens every body to the values the server encoded; the server
  may be one of v1 or v2, and so may the client.
\<close>

theorem sealed_responses_roundtrip:
  assumes "crypto_lib_ok L" and "gob_bytes_ok B" and "typed_calls H G [] msgs vs"
    and "\<forall>(rnd, hdr, body) \<in> set msgs. rand_ok rnd \<and> (\<exists>n. rnd 12 = Inr n) \<and> length (gob_text body) + 39 < tooBig"
    and "newCryptoServerCodec L (newWriter \<lparr>snkOut = [], snkLimit = None\<rparr>) x key = Inr srv"
    and "sealedAnswers L closeErr msgs srv = (outcomes, srv')"
    and "newCryptoClientCodec L w arrivals key = Inr cl"
    and "conn_ok arrivals" and "conn_content arrivals = snkOut (bwSink (ccBuf srv'))"
  shows "outcomes = replicate (length msgs) (Returns None) \<and> \<not> ccClosed srv' \<and>
    newCryptoServerCodec1 L (newWriter \<lparr>snkOut = [], snkLimit = None\<rparr>) x key = Inr srv \<and>
    sealedAnswers1 L closeErr msgs srv = (outcomes, srv') \<and> newCryptoClientCodec1 L w arrivals key = Inr cl \<and>
    (\<exists>c'. sealedReceives L B connRead H G (length msgs) cl = Some (map (\<lambda>(h, v). (Inr h, Inr v)) vs, c') \<and>
      sealedReceives1 L B connRead H G (length msgs) cl = Some (map (\<lambda>(h, v). (Inr h, Inr v)) vs, c'))"
proof -
  obtain outs srv1 where s: "sealedSends L msgs srv = (outs, srv1)" by (metis prod.exhaust)
  have srv: "writer_ok (ccBuf srv)" "bwBuf (ccBuf srv) = []" "crypto_wf (ccCrypto srv)" "\<not> ccClosed srv"
    using assms(5) newCrypto_wf [OF assms(1), of key]
    by (auto simp: newCryptoServerCodec_def bindR_eq_Inr newCrypto2_eq newWriter_def writer_ok_def)
  have v: "\<forall>(rnd, hdr, body) \<in> set msgs. (\<exists>n. rnd 12 = Inr n) \<and> (\<exists>hb. snd hdr = Inr hb) \<and> (\<exists>bb. snd body = Inr bb)"
    using assms(4) typed_calls_values [OF assms(3)] by (fastforce simp: case_prod_beta)
  obtain b where b: "sealedSends L msgs srv = (replicate (length msgs) (Returns None), srv\<lparr>ccBuf := b\<rparr>)"
    using sealedSends_ok [OF srv(1-3) v, of L] by blast
  have a: "outcomes = replicate (length msgs) (Returns None)" "srv' = srv\<lparr>ccBuf := b\<rparr>"
    using sealedAnswers_ok [OF b, of closeErr] assms(6) by simp_all
  have "sealedSends L msgs srv = (outcomes, srv')" using b a by simp
  from sealed_session_roundtrip [OF assms(1-4) assms(5) [folded newCryptoClientCodec_eq] this
      assms(7) [unfolded newCryptoClientCodec_eq] assms(8,9)]
  obtain c' where "sealedServe L B connRead H G (length msgs) cl = Some (map (\<lambda>(h, v). (Inr h, Inr v)) vs, c')"
    by blast
  from sealedReceives_ok [OF this] show ?thesis
    using a srv(4) assms(5,6,7) by (simp add: sealedAnswers1_eq sealedReceives1_eq sealed1_constructors)
qed

text \<open>The same without a secret.\<close>

theorem open_responses_roundtrip:
  assumes "open_calls H G [] msgs vs"
    and "openAnswers closeErr msgs (newGobServerCodec (newWriter \<lparr>snkOut = [], snkLimit = None\<rparr>) x) = (errs, srv')"
    and "conn_ok arrivals" and "conn_content arrivals = snkOut (bwSink (gcBuf srv'))"
  shows "errs = replicate (length msgs) None \<and> \<not> gcClosed srv' \<and>
    openAnswers1 closeErr msgs (newGobServerCodec1 (newWriter \<lparr>snkOut = [], snkLimit = None\<rparr>) x) = (errs, srv') \<and>
    (\<exists>c'. openReceives prefixRead H G (length msgs) (newGobClientCodec w (newBufio arrivals)) =
      Some (map (\<lambda>(h, v). (Inr h, Inr v)) vs, c') \<and>
      openReceives1 prefixRead H G (length msgs) (newGobClientCodec1 w (newBufio arrivals)) =
      Some (map (\<lambda>(h, v). (Inr h, Inr v)) vs, c'))"
proof -
  let ?srv = "newGobServerCodec (newWriter \<lparr>snkOut = [], snkLimit = None\<rparr>) x"
  have w: "writer_ok (gcBuf ?srv)" "bwBuf (gcBuf ?srv) = []" "snkOut (bwSink (gcBuf ?srv)) = []" "\<not> gcClosed ?srv"
    by (simp_all add: newGobServerCodec_def newWriter_def writer_ok_def)
  obtain b where b: "openSends msgs ?srv = (replicate (length msgs) None, ?srv\<lparr>gcBuf := b\<rparr>)"
      "snkOut (bwSink b) = concat (map open_call msgs)"
    using openSends_ok [OF w(1,2) assms(1)] w(3) by auto
  have a: "errs = replicate (length msgs) None" "srv' = ?srv\<lparr>gcBuf := b\<rparr>"
    using openAnswers_ok [OF b(1), of closeErr] assms(2) by simp_all
  have n: "cn.bio_ready (newBufio arrivals)" "bio_content conn_content (newBufio arrivals) = concat (map open_call msgs)"
    using assms(3,4) a(2) b(2) by (simp_all add: cn.bio_ready_def) (simp add: newBufio_def)
  have c: "newGobClientCodec w (newBufio arrivals) = newGobServerCodec w (newBufio arrivals)"
    by (simp add: newGobClientCodec_def newGobServerCodec_def)
  show ?thesis
    using newGob_serves [OF n assms(1), of w] a w(4) assms(2)
    by (simp add: openReceives_eq openReceives1_eq openAnswers1_eq gob1_constructors c)
qed

subsection \<open>Witnesses\<close>

definition in_one :: "bytes \<Rightarrow> conn" where
  "in_one b = (if b = [] then [] else [Piece b])"

lemma in_one: "conn_ok (in_one b)" "conn_content (in_one b) = b"
  by (simp_all add: in_one_def conn_ok_def)

theorem sealed_responses_roundtrip_witness:
  "\<exists>srv outcomes srv' cl c'. newCryptoServerCodec plain_crypto_lib (newWriter \<lparr>snkOut = [], snkLimit = None\<rparr>) () [1] = Inr srv \<and>
    sealedAnswers plain_crypto_lib None [sealed0, sealed0] srv = (outcomes, srv') \<and>
    newCryptoClientCodec plain_crypto_lib (newWriter \<lparr>snkOut = [], snkLimit = None\<rparr>)
      (in_one (snkOut (bwSink (ccBuf srv')))) [1] = Inr cl \<and>
    sealedReceives plain_crypto_lib plain_gob connRead plain_gob plain_gob 2 cl =
      Some ([(Inr [1], Inr [2]), (Inr [1], Inr [2])], c')"
proof -
  obtain srv :: "unit cryptoCodec" where srv:
    "newCryptoServerCodec plain_crypto_lib (newWriter \<lparr>snkOut = [], snkLimit = None\<rparr>) () [1] = Inr srv"
    by (rule newCrypto2_exists)
  obtain outcomes srv' where a: "sealedAnswers plain_crypto_lib None [sealed0, sealed0] srv = (outcomes, srv')"
    by (metis prod.exhaust)
  obtain cl :: "conn cryptoCodec" where cl:
    "newCryptoServerCodec plain_crypto_lib (newWriter \<lparr>snkOut = [], snkLimit = None\<rparr>)
      (in_one (snkOut (bwSink (ccBuf srv')))) [1] = Inr cl"
    by (rule newCrypto2_exists)
  have p: "plain_gob [] (bytesBody [x]) = GobValue [x]" for x by (rule plain_gob_body) simp
  have ty: "typed_calls plain_gob plain_gob [] [sealed0, sealed0] [([1], [2]), ([1], [2])]"
    by (simp add: sealed0_def p bytesBody_small tooBig_def)
  have "length (gob_text ([], Inr (bytesBody [2]))) + 39 < tooBig"
    by (simp add: gob_text_def gobMessage_def bytesBody_small gobUint_def tooBig_def)
  then have side: "\<forall>(rnd, hdr, body) \<in> set [sealed0, sealed0]. rand_ok rnd \<and> (\<exists>n. rnd 12 = Inr n) \<and>
      length (gob_text body) + 39 < tooBig"
    using zero_rand_ok by (simp add: sealed0_def) (simp add: zero_rand_def)
  have l: "length [sealed0, sealed0] = 2" by simp
  from sealed_responses_roundtrip [OF plain_crypto_lib_ok plain_gob_ok ty side srv a
      cl [folded newCryptoClientCodec_eq] in_one, unfolded l]
  obtain c' where "sealedReceives plain_crypto_lib plain_gob connRead plain_gob plain_gob 2 cl =
      Some ([(Inr [1], Inr [2]), (Inr [1], Inr [2])], c')" by auto
  then show ?thesis using srv a cl by (auto simp: newCryptoClientCodec_eq)
qed

end
