(* ===== verification/Spec2Isabelle.thy ===== *)
theory Spec2Isabelle
  imports ReadBounds ProxyStart ProxyEnvironment ProxyLimit RpcEffort JsonCryptoNegotiated Rpc3Server Rpc2Server Rpc1Accept GobResponses RpcMessages
begin

text \<open>
  Verification library of \<open>slink-go/rpc2\<close>, an RPC library in Go over \<open>go.slink.ws/rpc\<close> with encrypted
  codecs, in three versions, and an RPC proxy built on the third. Every definition is
  translated from the repository's code; what the code only calls is an argument.

  \<^bold>\<open>The program.\<close> A client (\<open>client.go\<close>, \<open>v2/client.go\<close>, \<open>v3/client.go\<close>) dials a TCP connection,
  wraps it in a codec and lets the RPC library write one request and read one response through the
  codec; the server (\<open>server.go\<close>, \<open>v2/server.go\<close>, \<open>v3/server.go\<close>) accepts connections and serves
  each with a codec of its own. The codecs (\<open>v2/codec\<close>, \<open>v3/codec\<close>) are gob, gob sealed with
  AES-GCM, JSON, and JSON sealed with AES-GCM. In v3 the server looks at the first bytes of a
  connection to choose the codec, and a client in auto mode falls back from JSON to gob. The proxy
  (\<open>v3/proxy\<close>) takes a request naming a service and a method, checks it against an allowlist,
  finds the target's address in a routing table read from the environment, and calls the target with
  a v3 client under a time limit, a size limit and a limit on concurrent calls.

  \<^bold>\<open>Theories and the code they model.\<close>
  \<^item> \<open>Prelude\<close>: lemmas on lists and maps, the \<open>named_theorems\<close> collections and the locales
    \<open>steps_keep\<close> (what every step keeps, every run keeps) and \<open>spending\<close> (what numbered processes
    spend over a run).
  \<^item> \<open>GoErrors\<close>, \<open>GoStrings\<close>, \<open>GoContext\<close>: what the code uses of Go's standard library: errors as a
    datatype with \<open>errors.Is\<close> over wrapped ones, the functions of \<open>strings\<close>, contexts with their
    deadline and values.
  \<^item> \<open>GoIO\<close>, \<open>GoBufio\<close>, \<open>GoWriter\<close>: readers and writers as steps on their state. The locale
    \<open>byte_source\<close> is the contract of \<open>io.Reader\<close>; a connection gives its bytes in pieces of any
    size and ends with any error.
  \<^item> \<open>RpcCrypto\<close>: the encryption of \<open>v3/codec/json_crypto_codec.go\<close> and \<open>v2/codec/crypto.go\<close>.
  \<^item> \<open>JsonStream\<close>, \<open>JsonCodec\<close>: \<open>json.Decoder\<close>'s read loop; \<open>v3/codec/json_server_codec.go\<close>,
    \<open>json_client_codec.go\<close> and the budget reader.
  \<^item> \<open>GobBlob\<close>, \<open>JsonCryptoCodec\<close>, \<open>JsonCryptoSession\<close>, \<open>JsonCryptoResponses\<close>, \<open>JsonCryptoNegotiated\<close>:
    the framing of gob messages and \<open>v3/codec/json_crypto_codec.go\<close>; its sessions, also through the negotiation.
  \<^item> \<open>GobCodec\<close>, \<open>GobSession\<close>: the gob and the encrypted gob codecs of \<open>v2/codec\<close>.
  \<^item> \<open>Negotiate\<close>: \<open>v2/codec/codec_factory.go\<close>, \<open>v3/codec/negotiate.go\<close>.
  \<^item> \<open>ReadsReturn\<close>: the locale \<open>ranked_source\<close>, and that the loops of all readers and codecs end.
    \<open>ReadBounds\<close>: the locale \<open>read_kept\<close>, and that one message takes at most the limit from its connection.
  \<^item> \<open>Rpc3Client\<close>, \<open>Rpc3Calls\<close>, \<open>Rpc3Concurrent\<close>: \<open>v3/client.go\<close>, alone, over sequences of calls,
    and with goroutines interleaved. \<open>Rpc2Concurrent\<close>: \<open>v2/client.go\<close> with goroutines interleaved, and the locale
    \<open>simulation\<close> that makes a legacy v3 client one of v2. \<open>RpcEffort\<close>: how many RPC calls and dials
    goroutines on either client make, by the locale \<open>spending\<close>.
  \<^item> \<open>Codec1\<close>: the codec package and the messages of v1 (\<open>codec/*.go\<close>, \<open>request.go\<close>, \<open>response.go\<close>,
    \<open>errors.go\<close>), translated on their own and shown equal to those of v2.
  \<^item> \<open>Rpc3Server\<close>, \<open>Rpc2Server\<close>, \<open>Rpc2Client\<close>, \<open>Rpc1\<close>: the v3 and v2 servers, the v2 client, the v1
    client and server with their codec factory. \<open>Rpc1Accept\<close>: the v1 accept loop and the goroutine of
    \<open>waitForClient\<close> as a step relation.
  \<^item> \<open>VersionSessions\<close>, \<open>GobResponses\<close>: what a client of one version writes, read by the server of another;
    the responses on their way back.
  \<^item> \<open>RpcMessages\<close>: \<open>v2/request.go\<close>, \<open>response.go\<close>, \<open>errors.go\<close> and \<open>v2/codec/buffer.go\<close>.
  \<^item> \<open>ProxyTypes\<close>, \<open>ProxyInterfaces\<close>, \<open>AllowlistPolicy\<close>, \<open>StaticRouting\<close>, \<open>ProxyConfig\<close>,
    \<open>ProxyInvoke\<close>, \<open>ProxyLimit\<close>, \<open>ProxyFactory\<close>, \<open>ProxyService\<close>: the files of \<open>v3/proxy\<close> by the
    same names; \<open>ProxyEnvironment\<close> says what an environment configures, without the loops that read it;
    \<open>ProxyStart\<close> goes from the environment to the router, \<open>ProxyEndToEnd\<close> puts the invoker, its default
    client factory and the v3 client together, and \<open>ProxyLimit\<close> runs many invocations at once.
    The policy, router and invoker interfaces are locales, interpreted on the
    allowlist, the static router and the RPC invoker.

  \<^bold>\<open>State and effects.\<close> A struct is a record; an operation returns the updated record. A panic is
  an error value, or an outcome of its own where the code recovers it. A mutex makes the section it
  guards one step: in \<open>Rpc3Client\<close> each section is one definition, and \<open>Rpc3Concurrent\<close> interleaves
  the sections of several goroutines in any order. What lies behind the clients of the
  proxy (the network) is part of the world \<open>Invoke\<close> acts on and outlives them. \<open>ProxyLimit\<close> cuts \<open>Invoke\<close> into
  the pieces it is defined from and lets many invocations take them in any order around the
  concurrency channel; \<open>Invoke\<close> is the run of one that is not interrupted. The iteration order of Go maps is an argument that ranges over all
  enumerations.

  \<^bold>\<open>Parameters.\<close> AES-GCM (\<open>crypto_lib\<close>), \<open>encoding/json\<close> (\<open>json_lib\<close>), gob values (\<open>gob_interp\<close>), header sets (\<open>rpc_lib\<close>),
  Unicode case folding, the clock and the network: dialling and a call on an open connection
  are functions of what has been dialled, so a lemma holds for every network. What is
  assumed of them is documented behaviour, named in \<open>crypto_lib_ok\<close>, \<open>json_lib_ok\<close>,
  \<open>gob_bytes_ok\<close>, \<open>rpc_lib_ok\<close>; each property that uses one has a witness at a concrete library.

  \<^bold>\<open>What the lemmas show.\<close>
  \<^item> Codecs: what one side writes the other reads back, through any splitting of the bytes, for whole
    sessions of requests and of responses, between the versions and through the negotiation; JSON messages are bounded by the limit; what does not open
    under the key is refused. Where reading back fails (two encrypted JSON calls that arrive together,
    the message after an oversized one) the failure is the theorem.
  \<^item> Clients: the client holds the only open connection under any interleaving of calls and closes; a
    call is repeated once at most, and only in the fallback; an uninterrupted goroutine computes what the
    sequential \<open>Call\<close> does; a v3 client on the legacy transport is a v2 client, alone (a functional
    refinement with an abstraction of the state) and under any interleaving (a simulation); the fallback
    serves one of several goroutines that fail together; all of them together make one RPC call for each
    Call and one more at most.
  \<^item> Servers: each connection is served once and closed, panics are recovered in v3 and v2 and kill v1;
    v1 can strand a connection when it stops.
  \<^item> Readers: no reading loop of a codec hangs, whatever arrives; a v3 JSON codec takes no more of the
    connection for one message than its limit.
  \<^item> Proxy: the guards of \<open>Call\<close> run in order and nothing is invoked unless all pass; a response has a
    payload or an error, within the limits; a call that passes them is one call of a v3 client on one connection,
    which the deferred \<open>Close\<close> has closed at the end; invocations that run at once never have more
    connections open than the limit; the policy, the table and the configuration decide exactly as
    stated, whatever the order of map iteration.

  \<^bold>\<open>Loops and fuel.\<close> A loop over a reader is a \<open>partial_function (option)\<close>, so that not returning
  would be \<open>None\<close>; \<open>ReadsReturn\<close> shows it is never \<open>None\<close> over a connection. \<open>bufio\<close>'s loop over empty
  reads has the code's own bound of 100. \<open>Call\<close> has no loop.

  \<^bold>\<open>Not modelled.\<close> Log lines; the TCP keep-alive and no-delay options, which change nothing the code
  reads; \<open>gob.Register\<close>; deadlines of a real clock (a context says when asked whether it is over); the
  fairness of the Go scheduler; a dial or an RPC call that never returns (each is one step, whose
  result the environment gives).
\<close>

end
